(* ===== verification/HTH_Prelude.thy ===== *)
theory HTH_Prelude
  imports Main "HOL-Library.Word"
begin

text \<open>
  Shared vocabulary of the development: the machine integer types the C++ sources use, the
  reading of a byte array as a number (big and little endian), \<open>memcpy\<close> on lists, decimal
  printing, and the lemmas about them that the component theories share.  Facts about values of
  byte arrays are collected in \<open>byte_simps\<close>.
\<close>

unbundle bit_operations_syntax

type_synonym byte = "8 word"
type_synonym u16 = "16 word"
type_synonym u32 = "32 word"
type_synonym u64 = "64 word"
type_synonym bytes = "byte list"

named_theorems byte_simps \<open>values and bits of byte arrays\<close>

subsection \<open>Exceptions\<close>

text \<open>The standard exceptions the modelled code throws.\<close>

datatype exn = Runtime_error string | Length_error | Bad_alloc

subsection \<open>Byte arrays as numbers\<close>

definition le_val :: "byte list \<Rightarrow> nat" where
  "le_val bs = horner_sum unat 256 bs"

definition be_val :: "byte list \<Rightarrow> nat" where
  "be_val bs = le_val (rev bs)"

lemma le_val_Nil [simp]: "le_val [] = 0"
  by (simp add: le_val_def)

lemma le_val_Cons [simp]: "le_val (b # bs) = unat b + 256 * le_val bs"
  by (simp add: le_val_def)

lemma le_val_append: "le_val (xs @ ys) = le_val xs + 256 ^ length xs * le_val ys"
  by (simp add: le_val_def horner_sum_append)

lemma unat_byte_less: "unat (b :: byte) < 256"
  using unsigned_less [of b] by simp

lemma le_val_less: "le_val bs < 256 ^ length bs"
proof (induction bs)
  case Nil
  show ?case by simp
next
  case (Cons b bs)
  have "unat b < 256" by (rule unat_byte_less)
  moreover have "256 * le_val bs + 256 \<le> 256 * 256 ^ length bs"
    using Cons.IH by simp
  ultimately have "unat b + 256 * le_val bs < 256 * 256 ^ length bs" by linarith
  then show ?case by simp
qed

lemma le_val_replicate_0 [simp]: "le_val (replicate n 0) = 0"
  by (induction n) auto

lemma le_val_eq_0_iff: "le_val bs = 0 \<longleftrightarrow> (\<forall>b \<in> set bs. b = 0)"
  by (induction bs) (auto simp: unat_0_iff)

lemma be_val_Nil [simp]: "be_val [] = 0"
  by (simp add: be_val_def)

lemma be_val_snoc: "be_val (bs @ [b]) = unat b + 256 * be_val bs"
  by (simp add: be_val_def)

lemma be_val_Cons: "be_val (b # bs) = unat b * 256 ^ length bs + be_val bs"
  by (simp add: be_val_def le_val_append)

lemma be_val_append: "be_val (xs @ ys) = be_val xs * 256 ^ length ys + be_val ys"
  by (simp add: be_val_def le_val_append)

lemma be_val_less: "be_val bs < 256 ^ length bs"
  using le_val_less [of "rev bs"] by (simp add: be_val_def)

lemma be_val_replicate_0 [simp]: "be_val (replicate n 0) = 0"
  by (simp add: be_val_def)

lemma be_val_eq_0_iff: "be_val bs = 0 \<longleftrightarrow> (\<forall>b \<in> set bs. b = 0)"
  by (simp add: be_val_def le_val_eq_0_iff)

lemma le_val_inject:
  "length xs = length ys \<Longrightarrow> le_val xs = le_val ys \<Longrightarrow> xs = ys"
proof (induction xs ys rule: list_induct2)
  case Nil
  show ?case by simp
next
  case (Cons x xs y ys)
  have "unat x < 256" and "unat y < 256" by (rule unat_byte_less)+
  then have "(unat x + 256 * le_val xs) mod 256 = unat x" and "(unat y + 256 * le_val ys) mod 256 = unat y"
    by simp_all
  with Cons.prems have "unat x = unat y" by simp
  with Cons.prems have "x = y" and "le_val xs = le_val ys" by (simp_all add: word_unat_eq_iff)
  then show ?case using Cons.IH by simp
qed

lemma be_val_inject:
  "length xs = length ys \<Longrightarrow> be_val xs = be_val ys \<Longrightarrow> xs = ys"
  using le_val_inject [of "rev xs" "rev ys"] by (simp add: be_val_def)

lemma be_val_drop:
  assumes "i < length bs"
  shows "be_val (drop i bs) = unat (bs ! i) * 256 ^ (length bs - Suc i) + be_val (drop (Suc i) bs)"
  using assms by (simp add: Cons_nth_drop_Suc [symmetric] be_val_Cons)

lemma le_val_take_Suc:
  assumes "i < length bs"
  shows "le_val (take (Suc i) bs) = le_val (take i bs) + 256 ^ i * unat (bs ! i)"
  using assms by (simp add: take_Suc_conv_app_nth le_val_append)

subsection \<open>Array copies\<close>

text \<open>\<open>memcpy(dst + off, src, n)\<close> for an \<open>n\<close>-byte copy inside the bounds of both arrays.\<close>

definition memcpy :: "'a list \<Rightarrow> nat \<Rightarrow> 'a list \<Rightarrow> nat \<Rightarrow> 'a list" where
  "memcpy dst off src n = take off dst @ take n src @ drop (off + n) dst"

lemma length_memcpy [simp]:
  "off + n \<le> length dst \<Longrightarrow> n \<le> length src \<Longrightarrow> length (memcpy dst off src n) = length dst"
  by (simp add: memcpy_def)

lemma nth_memcpy:
  "off + n \<le> length dst \<Longrightarrow> n \<le> length src \<Longrightarrow> i < length dst \<Longrightarrow>
   memcpy dst off src n ! i = (if off \<le> i \<and> i < off + n then src ! (i - off) else dst ! i)"
  by (auto simp: memcpy_def nth_append min_def)

text \<open>\<open>memcpy\<close> read back: the copied window holds the source.\<close>

lemma memcpy_window:
  "off + n \<le> length dst \<Longrightarrow> n \<le> length src \<Longrightarrow>
   take n (drop off (memcpy dst off src n)) = take n src"
  by (simp add: memcpy_def)

subsection \<open>Decimal printing\<close>

text \<open>\<open>std::to_string\<close> on an unsigned number.\<close>

definition digit_char :: "nat \<Rightarrow> char" where
  "digit_char d = char_of (48 + d)"

fun to_string :: "nat \<Rightarrow> string" where
  "to_string n = (if n < 10 then [digit_char n] else to_string (n div 10) @ [digit_char (n mod 10)])"

declare to_string.simps [simp del]

subsection \<open>Words\<close>

lemma unat_drop_bit_div: "unat (drop_bit k (w :: 'a::len word)) = unat w div 2 ^ k"
  by (subst unat_drop_bit_eq) (rule drop_bit_eq_div)

lemma unat_u64_less: "unat (w :: u64) < 18446744073709551616"
  using unsigned_less [of w] by simp

lemma unat_ucast_byte_u64 [simp]: "unat (ucast (b :: byte) :: u64) = unat b"
  using unat_byte_less [of b] by (simp add: unsigned_ucast_eq take_bit_nat_eq_self)

lemma unat_add_u64: "unat a + unat b < 2 ^ 64 \<Longrightarrow> unat (a + b :: u64) = unat a + unat b"
  by (rule unat_add_lem [THEN iffD1]) simp

lemma unat_u64_add_wrap: "2 ^ 64 \<le> unat a + unat b \<Longrightarrow> unat (a + b :: u64) = unat a + unat b - 2 ^ 64"
  by (simp add: unat_plus_if')

lemma byte_and_80: "(b :: byte) AND 0x80 = 0 \<longleftrightarrow> \<not> bit b 7"
proof -
  have "(0x80 :: byte) = push_bit 7 1" by simp
  then show ?thesis by (metis and_exp_eq_0_iff_not_bit push_bit_of_1)
qed

end
