(* ===== verification/Word256.thy ===== *)
theory Word256
  imports HTH_Prelude
begin

text \<open>
  The 256-bit word of the contract virtual machine (struct \<open>Word256\<close> of
  \<open>src/src/qtum/simplevm.h\<close>, methods in \<open>src/src/qtum/simplevm.cpp\<close>) and the byte loops with
  which the interpreter computes on it.  \<open>abs256\<close> reads the 32 big-endian bytes as a HOL word of
  256 bits; every byte loop is proved to compute the word operation it stands for.
\<close>

record word256 =
  bytes :: "byte list"

definition wf256 :: "word256 \<Rightarrow> bool" where
  "wf256 w \<longleftrightarrow> length (bytes w) = 32"

definition abs256 :: "word256 \<Rightarrow> 256 word" where
  "abs256 w = word_rcat (bytes w)"

subsection \<open>Constructors and conversions\<close>

definition Word256_0 :: word256 where
  "Word256_0 = \<lparr>bytes = replicate 32 0\<rparr>"

fun u64_loop :: "nat \<Rightarrow> u64 \<Rightarrow> byte list \<Rightarrow> byte list" where
  "u64_loop i value bs =
     (if 24 \<le> i \<and> 0 < value
      then u64_loop (i - 1) (drop_bit 8 value) (bs[i := ucast (value AND 0xFF)])
      else bs)"

declare u64_loop.simps [simp del]

definition Word256_u64 :: "u64 \<Rightarrow> word256" where
  "Word256_u64 value = \<lparr>bytes = u64_loop 31 value (replicate 32 0)\<rparr>"

definition Word256_vec :: "byte list \<Rightarrow> word256" where
  "Word256_vec data =
     (let offset = 32 - min (length data) 32
      in \<lparr>bytes = memcpy (replicate 32 0) offset data (min (length data) 32)\<rparr>)"

definition isZero :: "word256 \<Rightarrow> bool" where
  "isZero w = list_all (\<lambda>i. bytes w ! i = 0) [0..<32]"

definition toUint64 :: "word256 \<Rightarrow> u64" where
  "toUint64 w = foldl (\<lambda>result i. push_bit 8 result OR ucast (bytes w ! i)) 0 [24..<32]"

definition toBytes :: "word256 \<Rightarrow> byte list" where
  "toBytes w = take 32 (bytes w)"

definition fromBigEndian :: "byte list \<Rightarrow> nat \<Rightarrow> word256" where
  "fromBigEndian data len =
     (let offset = 32 - min len 32
      in \<lparr>bytes = memcpy (bytes Word256_0) offset data (min len 32)\<rparr>)"

subsection \<open>Arithmetic loops\<close>

fun add_loop :: "nat \<Rightarrow> byte list \<Rightarrow> byte list \<Rightarrow> u64 \<Rightarrow> byte list \<Rightarrow> byte list" where
  "add_loop 0 a b carry c = c"
| "add_loop (Suc i) a b carry c =
     (let sum = ucast (a ! i) + ucast (b ! i) + carry
      in add_loop i a b (drop_bit 8 sum) (c[i := ucast (sum AND 0xFF)]))"

definition add256 :: "word256 \<Rightarrow> word256 \<Rightarrow> word256" where
  "add256 a b = \<lparr>bytes = add_loop 32 (bytes a) (bytes b) 0 (bytes Word256_0)\<rparr>"

fun sub_loop :: "nat \<Rightarrow> byte list \<Rightarrow> byte list \<Rightarrow> int \<Rightarrow> byte list \<Rightarrow> byte list" where
  "sub_loop 0 a b borrow c = c"
| "sub_loop (Suc i) a b borrow c =
     (let diff = uint (a ! i) - uint (b ! i) - borrow
      in if diff < 0 then sub_loop i a b 1 (c[i := word_of_int (diff + 256)])
         else sub_loop i a b 0 (c[i := word_of_int diff]))"

definition sub256 :: "word256 \<Rightarrow> word256 \<Rightarrow> word256" where
  "sub256 a b = \<lparr>bytes = sub_loop 32 (bytes a) (bytes b) 0 (bytes Word256_0)\<rparr>"

fun inc_loop :: "nat \<Rightarrow> u64 \<Rightarrow> byte list \<Rightarrow> byte list" where
  "inc_loop 0 carry bs = bs"
| "inc_loop (Suc i) carry bs =
     (if carry \<noteq> 0
      then let sum = ucast (bs ! i) + carry
           in inc_loop i (drop_bit 8 sum) (bs[i := ucast (sum AND 0xFF)])
      else bs)"

definition neg256 :: "word256 \<Rightarrow> word256" where
  "neg256 w = \<lparr>bytes = inc_loop 32 1 (fold (\<lambda>i bs. bs[i := NOT (bs ! i)]) [0..<32] (bytes w))\<rparr>"

definition signBit256 :: "word256 \<Rightarrow> bool" where
  "signBit256 w \<longleftrightarrow> bytes w ! 0 AND 0x80 \<noteq> 0"

function pow_loop :: "u64 \<Rightarrow> u64 \<Rightarrow> u64 \<Rightarrow> u64" where
  "pow_loop result b e =
     (if 0 < e
      then pow_loop (if e AND 1 \<noteq> 0 then result * b else result) (b * b) (drop_bit 1 e)
      else result)"
  by pat_completeness auto
termination
  by (relation "measure (\<lambda>(result, b, e). unat e)")
    (auto simp: drop_bit_eq_div word_less_nat_alt unat_div)

declare pow_loop.simps [simp del]

function expBytes_from :: "nat \<Rightarrow> byte list \<Rightarrow> u64" where
  "expBytes_from i bs =
     (if i < 32 then if bs ! i \<noteq> 0 then of_nat (32 - i) else expBytes_from (Suc i) bs else 0)"
  by pat_completeness auto
termination
  by (relation "measure (\<lambda>(i, bs). 32 - i)") auto

declare expBytes_from.simps [simp del]

subsection \<open>Comparison loops\<close>

function lt_from :: "nat \<Rightarrow> byte list \<Rightarrow> byte list \<Rightarrow> bool" where
  "lt_from i a b =
     (if i < 32
      then if a ! i < b ! i then True else if a ! i > b ! i then False else lt_from (Suc i) a b
      else False)"
  by pat_completeness auto
termination
  by (relation "measure (\<lambda>(i, a, b). 32 - i)") auto

declare lt_from.simps [simp del]

function gt_from :: "nat \<Rightarrow> byte list \<Rightarrow> byte list \<Rightarrow> bool" where
  "gt_from i a b =
     (if i < 32
      then if a ! i > b ! i then True else if a ! i < b ! i then False else gt_from (Suc i) a b
      else False)"
  by pat_completeness auto
termination
  by (relation "measure (\<lambda>(i, a, b). 32 - i)") auto

declare gt_from.simps [simp del]

definition lt256 :: "word256 \<Rightarrow> word256 \<Rightarrow> bool" where
  "lt256 a b = lt_from 0 (bytes a) (bytes b)"

definition gt256 :: "word256 \<Rightarrow> word256 \<Rightarrow> bool" where
  "gt256 a b = gt_from 0 (bytes a) (bytes b)"

definition slt256 :: "word256 \<Rightarrow> word256 \<Rightarrow> bool" where
  "slt256 a b =
     (let aSign = signBit256 a; bSign = signBit256 b
      in if aSign \<noteq> bSign then aSign else lt_from 0 (bytes a) (bytes b))"

definition sgt256 :: "word256 \<Rightarrow> word256 \<Rightarrow> bool" where
  "sgt256 a b =
     (let aSign = signBit256 a; bSign = signBit256 b
      in if aSign \<noteq> bSign then bSign else gt_from 0 (bytes a) (bytes b))"

subsection \<open>Bitwise loops\<close>

definition and256 :: "word256 \<Rightarrow> word256 \<Rightarrow> word256" where
  "and256 a b = \<lparr>bytes = fold (\<lambda>i c. c[i := bytes a ! i AND bytes b ! i]) [0..<32] (bytes Word256_0)\<rparr>"

definition or256 :: "word256 \<Rightarrow> word256 \<Rightarrow> word256" where
  "or256 a b = \<lparr>bytes = fold (\<lambda>i c. c[i := bytes a ! i OR bytes b ! i]) [0..<32] (bytes Word256_0)\<rparr>"

definition xor256 :: "word256 \<Rightarrow> word256 \<Rightarrow> word256" where
  "xor256 a b = \<lparr>bytes = fold (\<lambda>i c. c[i := bytes a ! i XOR bytes b ! i]) [0..<32] (bytes Word256_0)\<rparr>"

definition not256 :: "word256 \<Rightarrow> word256" where
  "not256 a = \<lparr>bytes = fold (\<lambda>i c. c[i := NOT (bytes a ! i)]) [0..<32] (bytes Word256_0)\<rparr>"

definition signextend256 :: "u64 \<Rightarrow> word256 \<Rightarrow> word256" where
  "signextend256 kVal v =
     (if kVal < 31
      then let signByteIdx = 31 - unat kVal;
               signBit = bytes v ! signByteIdx AND 0x80 \<noteq> 0;
               extendByte = (if signBit then 0xFF else 0x00)
           in \<lparr>bytes = fold (\<lambda>i bs. bs[i := extendByte]) [0..<signByteIdx] (bytes v)\<rparr>
      else v)"

definition byte256 :: "u64 \<Rightarrow> word256 \<Rightarrow> word256" where
  "byte256 idx x = (if idx < 32 then Word256_u64 (ucast (bytes x ! unat idx)) else Word256_u64 0)"

definition shl256 :: "u64 \<Rightarrow> word256 \<Rightarrow> word256" where
  "shl256 s v =
     (if 256 \<le> s then Word256_u64 0
      else if s = 0 then v
      else let byteShift = unat s div 8;
               bitShift = unat s mod 8;
               r = fold (\<lambda>i r. r[i := bytes v ! (i + byteShift)]) [0..<32 - byteShift] (bytes Word256_0);
               r' = (if 0 < bitShift
                     then fold (\<lambda>i r. let current = r ! i; next = (if i < 31 then r ! (i + 1) else 0)
                                      in r[i := push_bit bitShift current OR drop_bit (8 - bitShift) next])
                            [0..<32] r
                     else r)
           in \<lparr>bytes = r'\<rparr>)"

definition shr256 :: "u64 \<Rightarrow> word256 \<Rightarrow> word256" where
  "shr256 s v =
     (if 256 \<le> s then Word256_u64 0
      else if s = 0 then v
      else let byteShift = unat s div 8;
               bitShift = unat s mod 8;
               r = fold (\<lambda>i r. r[i := bytes v ! (i - byteShift)]) [byteShift..<32] (bytes Word256_0);
               r' = (if 0 < bitShift
                     then fold (\<lambda>i r. let current = r ! i; prev = (if 0 < i then r ! (i - 1) else 0)
                                      in r[i := drop_bit bitShift current OR push_bit (8 - bitShift) prev])
                            (rev [0..<32]) r
                     else r)
           in \<lparr>bytes = r'\<rparr>)"

definition sar256 :: "u64 \<Rightarrow> word256 \<Rightarrow> word256" where
  "sar256 s v =
     (let fill = (if signBit256 v then 0xFF else 0x00)
      in if 256 \<le> s then \<lparr>bytes = replicate 32 fill\<rparr>
         else if s = 0 then v
         else let byteShift = unat s div 8;
                  bitShift = unat s mod 8;
                  r = fold (\<lambda>i r. r[i + byteShift := bytes v ! i]) [0..<32 - byteShift] (replicate 32 fill);
                  r' = (if 0 < bitShift
                        then fold (\<lambda>i r. let current = r ! i; next = (if 0 < i then r ! (i - 1) else fill)
                                         in r[i := drop_bit bitShift current OR push_bit (8 - bitShift) next])
                               (rev [0..<32]) r
                        else r)
              in \<lparr>bytes = r'\<rparr>)"


subsection \<open>Loops as maps over the index range\<close>

lemma fold_upd_upto:
  "n \<le> length xs \<Longrightarrow> fold (\<lambda>i c. c[i := f i]) [0..<n] xs = map f [0..<n] @ drop n xs"
proof (induction n)
  case 0
  then show ?case by simp
next
  case (Suc n)
  then show ?case by (simp add: list_update_append Cons_nth_drop_Suc [symmetric])
qed

lemma length_fold_upd [simp]: "length (fold (\<lambda>i c. c[h i := f i c]) is xs) = length xs"
  by (induction "is" arbitrary: xs) auto

lemma nth_fold_up:
  assumes "n \<le> length xs" and "m < length xs" and "j < length xs"
  shows "fold (\<lambda>i r. r[i := g (r ! i) (if i < m then r ! (i + 1) else z)]) [0..<n] xs ! j =
      (if j < n then g (xs ! j) (if j < m then xs ! (j + 1) else z) else xs ! j)"
  using assms
proof (induction n arbitrary: j)
  case 0
  then show ?case by simp
next
  case (Suc n)
  then show ?case by (auto simp: nth_list_update less_Suc_eq)
qed

lemma nth_fold_down:
  assumes "n \<le> length xs" and "j < length xs"
  shows "fold (\<lambda>i r. r[i := g (r ! i) (if 0 < i then r ! (i - 1) else z)]) (rev [0..<n]) xs ! j =
      (if j < n then g (xs ! j) (if 0 < j then xs ! (j - 1) else z) else xs ! j)"
  using assms
proof (induction n arbitrary: xs)
  case 0
  then show ?case by simp
next
  case (Suc n)
  then show ?case by (auto simp: nth_list_update less_Suc_eq)
qed

subsection \<open>Values and bits\<close>

lemma bit_abs256 [byte_simps]:
  assumes "wf256 w"
  shows "bit (abs256 w) n \<longleftrightarrow> n < 256 \<and> bit (bytes w ! (31 - n div 8)) (n mod 8)"
proof -
  have "bit (abs256 w) n \<longleftrightarrow> n < 256 \<and> bit (horner_sum uint (2 ^ LENGTH(8)) (rev (bytes w))) n"
    by (simp add: abs256_def word_rcat_def bit_word_of_int_iff)
  also have "\<dots> \<longleftrightarrow> n < 256 \<and> bit (rev (bytes w) ! (n div 8)) (n mod 8)"
    using assms by (auto simp only: bit_horner_sum_uint_exp_iff) (auto simp: wf256_def)
  also have "\<dots> \<longleftrightarrow> n < 256 \<and> bit (bytes w ! (31 - n div 8)) (n mod 8)"
    using assms by (auto simp: wf256_def rev_nth)
  finally show ?thesis .
qed

lemma uint_horner: "horner_sum uint 256 bs = int (le_val bs)"
  by (induction bs) (simp_all add: le_val_def)

lemma unat_abs256:
  assumes "wf256 w"
  shows "unat (abs256 w) = be_val (bytes w)"
proof -
  have "abs256 w = word_of_nat (be_val (bytes w))"
    by (simp add: abs256_def word_rcat_def uint_horner be_val_def)
  moreover have "be_val (bytes w) < 2 ^ 256"
    using assms be_val_less [of "bytes w"] by (simp add: wf256_def)
  ultimately show ?thesis by (simp add: unat_of_nat)
qed

lemma abs256_eqI:
  "wf256 w \<Longrightarrow> be_val (bytes w) mod 2 ^ 256 = unat x \<Longrightarrow> abs256 w = x"
  using unat_abs256 [of w] be_val_less [of "bytes w"] by (simp add: wf256_def word_unat_eq_iff)

lemma abs256_inject: "wf256 a \<Longrightarrow> wf256 b \<Longrightarrow> abs256 a = abs256 b \<longleftrightarrow> a = b"
  by (metis be_val_inject equality unat_abs256 wf256_def old.unit.exhaust)

subsection \<open>Byte arithmetic\<close>

lemma and_FF: "x AND 0xFF = take_bit 8 (x :: u64)"
  by (simp add: take_bit_eq_mask mask_eq_exp_minus_1)

lemma ucast_and_FF [simp]: "ucast (x AND 0xFF :: u64) = (ucast x :: byte)"
  unfolding and_FF by (rule bit_word_eqI) (simp add: bit_simps)

lemma u64_low_byte: "unat (ucast (x :: u64) :: byte) = unat x mod 256"
   by (simp add: unsigned_ucast_eq take_bit_eq_mod)

lemma unat_drop_8: "unat (drop_bit 8 (x :: u64)) = unat x div 256"
  by (simp add: drop_bit_eq_div unat_div)

subsection \<open>Construction from a 64-bit value\<close>

lemma u64_loop_nth:
  assumes "length bs = 32" and "i \<le> 31" and "\<forall>j \<le> i. bs ! j = 0" and "j < 32"
  shows "u64_loop i v bs ! j = (if 24 \<le> j \<and> j \<le> i then ucast (drop_bit (8 * (i - j)) v) else bs ! j)"
  using assms
proof (induction i v bs rule: u64_loop.induct)
  case (1 i v bs)
  show ?case
  proof (cases "24 \<le> i \<and> 0 < v")
    case True
    let ?bs = "bs[i := ucast (v AND 0xFF)]"
    have "u64_loop (i - 1) (drop_bit 8 v) ?bs ! j =
        (if 24 \<le> j \<and> j \<le> i - 1 then ucast (drop_bit (8 * (i - 1 - j)) (drop_bit 8 v)) else ?bs ! j)"
      using "1.prems" True by (intro "1.IH") (auto simp: nth_list_update)
    moreover have "drop_bit (8 * (i - 1 - j)) (drop_bit 8 v) = drop_bit (8 * (i - j)) v" if "j < i"
    proof -
      have "8 * (i - j) = 8 * (i - 1 - j) + 8" using that by simp
      then show ?thesis by (simp only: drop_bit_drop_bit)
    qed
    ultimately show ?thesis
      using True "1.prems" by (auto simp: u64_loop.simps [of i v bs] nth_list_update)
  next
    case False
    then show ?thesis
      using "1.prems" by (auto simp: u64_loop.simps [of i v bs] not_less word_le_0_iff)
  qed
qed

lemma length_u64_loop [simp]: "length (u64_loop i v bs) = length bs"
proof (induction i v bs rule: u64_loop.induct)
  case (1 i v bs)
  then show ?case by (simp add: u64_loop.simps [of i v bs])
qed

lemma abs256_Word256_u64: "abs256 (Word256_u64 v) = ucast v"
proof (rule bit_word_eqI)
  fix n assume n: "n < LENGTH(256)"
  have wf: "wf256 (Word256_u64 v)" by (simp add: wf256_def Word256_u64_def)
  have nth: "bytes (Word256_u64 v) ! j = (if 24 \<le> j then ucast (drop_bit (8 * (31 - j)) v) else 0)"
    if "j < 32" for j
    using that by (simp add: Word256_u64_def u64_loop_nth)
  have "8 * (31 - (31 - n div 8)) + n mod 8 = n" using n by simp
  then show "bit (abs256 (Word256_u64 v)) n = bit (ucast v :: 256 word) n"
    using n by (auto simp: bit_abs256 [OF wf] nth bit_simps dest: bit_imp_le_length)
qed

subsection \<open>Addition\<close>

lemma length_add_loop [simp]: "length (add_loop i a b carry c) = length c"
  by (induction i arbitrary: carry c) (simp_all add: Let_def)

lemma add_loop_keeps:
  "k \<le> length c \<Longrightarrow> drop k (add_loop i a b carry c) = drop k c" if "i \<le> k"
  using that by (induction i arbitrary: carry c) (simp_all add: Let_def)

lemma be_val_add_loop:
  assumes "length a = n" "length b = n" "length c = n" "i \<le> n" "unat carry \<le> 1"
    and "be_val (drop i c) + unat carry * 256 ^ (n - i) = be_val (drop i a) + be_val (drop i b)"
  shows "be_val (add_loop i a b carry c) = (be_val a + be_val b) mod 256 ^ n"
  using assms
proof (induction i arbitrary: carry c)
  case 0
  have "be_val c < 256 ^ n" using 0 be_val_less [of c] by simp
  with 0 show ?case by (metis add_loop.simps(1) drop0 minus_nat.diff_0 mod_less mod_mult_self1)
next
  case (Suc i)
  let ?s = "ucast (a ! i) + ucast (b ! i) + carry :: u64"
  have s: "unat ?s = unat (a ! i) + unat (b ! i) + unat carry"
    using unat_byte_less [of "a ! i"] unat_byte_less [of "b ! i"] Suc.prems(5)
    by (simp add: unat_add_u64)
  have s512: "unat ?s < 512"
    using unat_byte_less [of "a ! i"] unat_byte_less [of "b ! i"] Suc.prems(5) s by simp
  let ?c = "c[i := ucast (?s AND 0xFF)]"
  have i: "i < n" "Suc (n - Suc i) = n - i" using Suc.prems by auto
  have dc: "be_val (drop i ?c) = unat ?s mod 256 * 256 ^ (n - Suc i) + be_val (drop (Suc i) c)"
    using i Suc.prems by (simp add: be_val_drop u64_low_byte)
  have pw: "256 ^ (n - i) = 256 * (256 :: nat) ^ (n - Suc i)" by (simp flip: i(2))
  have "be_val (drop i ?c) + unat (drop_bit 8 ?s) * 256 ^ (n - i) =
      (unat ?s mod 256 + 256 * (unat ?s div 256)) * 256 ^ (n - Suc i) + be_val (drop (Suc i) c)"
    unfolding dc pw unat_drop_8 by (simp only: algebra_simps)
  also have "\<dots> = unat ?s * 256 ^ (n - Suc i) + be_val (drop (Suc i) c)"
    by simp
  also have "\<dots> = be_val (drop i a) + be_val (drop i b)"
    using Suc.prems i unfolding s by (simp add: be_val_drop distrib_right)
  finally have "be_val (drop i ?c) + unat (drop_bit 8 ?s) * 256 ^ (n - i) =
      be_val (drop i a) + be_val (drop i b)" .
  then have "be_val (add_loop i a b (drop_bit 8 ?s) ?c) = (be_val a + be_val b) mod 256 ^ n"
    using Suc.prems i s512 by (intro Suc.IH) (simp_all add: unat_drop_8)
  then show ?case by (simp add: Let_def)
qed

lemma wf256_0 [simp]: "wf256 Word256_0"
  by (simp add: wf256_def Word256_0_def)

lemma length_bytes_0 [simp]: "length (bytes Word256_0) = 32"
  by (simp add: Word256_0_def)

lemma wf256_add [simp]: "wf256 (add256 a b)"
  by (simp add: wf256_def add256_def)

lemma abs256_add256: "wf256 a \<Longrightarrow> wf256 b \<Longrightarrow> abs256 (add256 a b) = abs256 a + abs256 b"
proof (rule abs256_eqI)
  assume "wf256 a" "wf256 b"
  then have "be_val (bytes (add256 a b)) = (be_val (bytes a) + be_val (bytes b)) mod 256 ^ 32"
    unfolding add256_def wf256_def word256.simps by (intro be_val_add_loop) simp_all
  then show "be_val (bytes (add256 a b)) mod 2 ^ 256 = unat (abs256 a + abs256 b)"
    using \<open>wf256 a\<close> \<open>wf256 b\<close> by (simp add: unat_word_ariths unat_abs256)
qed simp

subsection \<open>Subtraction and the increment loop\<close>

lemma abs256_of_nat: "abs256 w = of_nat (be_val (bytes w))"
  by (simp add: abs256_def word_rcat_def uint_horner be_val_def)

lemma of_nat_exp_256 [simp]: "(of_nat (256 ^ 32 * x) :: 256 word) = 0"
  unfolding word_of_nat_eq_0_iff by (rule dvd_mult2) simp

lemma length_sub_loop [simp]: "length (sub_loop i a b borrow c) = length c"
  by (induction i arbitrary: borrow c) (simp_all add: Let_def)

lemma unat_word_of_int_byte: "0 \<le> d \<Longrightarrow> d < 256 \<Longrightarrow> unat (word_of_int d :: byte) = nat d"
  by (simp add: unat_eq_nat_uint uint_word_of_int)

lemma be_val_sub_step:
  assumes "i < length c" "length a = length c" "length b = length c" "borrow \<in> {0, 1}"
    and inv: "be_val (drop (Suc i) c) + be_val (drop (Suc i) b) =
       be_val (drop (Suc i) a) + nat borrow * 256 ^ (length c - Suc i)"
    and d: "d = uint (a ! i) - uint (b ! i) - borrow + borrow' * 256"
    and d_range: "0 \<le> d" "d < 256" and b': "borrow' \<in> {0, 1}"
  shows "be_val (drop i (c[i := word_of_int d])) + be_val (drop i b) =
     be_val (drop i a) + nat borrow' * 256 ^ (length c - i)"
proof -
  let ?p = "256 ^ (length c - Suc i) :: nat"
  have pw: "256 ^ (length c - i) = 256 * ?p"
    using assms(1) by (metis Suc_diff_Suc power_Suc)
  have nd: "nat d + unat (b ! i) + nat borrow = unat (a ! i) + nat borrow' * 256"
  proof -
    have "int (nat d + unat (b ! i) + nat borrow) = int (unat (a ! i) + nat borrow' * 256)"
      using d d_range b' assms(4) by auto
    then show ?thesis by (simp only: of_nat_eq_iff)
  qed
  have "(nat d + unat (b ! i) + nat borrow) * ?p = (unat (a ! i) + nat borrow' * 256) * ?p"
    by (simp only: nd)
  then show ?thesis
    using assms(1-3) inv d_range unfolding pw
    by (simp add: be_val_drop unat_word_of_int_byte distrib_right)
qed

lemma be_val_sub_loop:
  assumes "length a = n" "length b = n" "length c = n" "i \<le> n" "borrow \<in> {0, 1}"
    and "be_val (drop i c) + be_val (drop i b) = be_val (drop i a) + nat borrow * 256 ^ (n - i)"
  shows "\<exists>k. be_val (sub_loop i a b borrow c) + be_val b = be_val a + 256 ^ n * k"
  using assms
proof (induction i arbitrary: borrow c)
  case 0
  then show ?case by (auto simp: mult.commute)
next
  case (Suc i)
  let ?d = "uint (a ! i) - uint (b ! i) - borrow"
  have r: "0 \<le> uint (a ! i)" "0 \<le> uint (b ! i)" "uint (a ! i) < 256" "uint (b ! i) < 256"
    using uint_lt2p [of "a ! i"] uint_lt2p [of "b ! i"] by simp_all
  have bw: "0 \<le> borrow" "borrow \<le> 1" using Suc.prems(5) by auto
  show ?case
  proof (cases "?d < 0")
    case True
    have "0 \<le> ?d + 256" "?d + 256 < 256" using r bw True by linarith+
    then have "be_val (drop i (c[i := word_of_int (?d + 256)])) + be_val (drop i b) =
       be_val (drop i a) + nat 1 * 256 ^ (length c - i)"
      using Suc.prems by (intro be_val_sub_step [where borrow = borrow]) auto
    then have "\<exists>k. be_val (sub_loop i a b 1 (c[i := word_of_int (?d + 256)])) + be_val b = be_val a + 256 ^ n * k"
      using Suc.prems by (intro Suc.IH) auto
    then show ?thesis using True by (simp add: Let_def)
  next
    case False
    have "0 \<le> ?d" "?d < 256" using r bw False by linarith+
    then have "be_val (drop i (c[i := word_of_int ?d])) + be_val (drop i b) =
       be_val (drop i a) + nat 0 * 256 ^ (length c - i)"
      using Suc.prems by (intro be_val_sub_step [where borrow = borrow]) auto
    then have "\<exists>k. be_val (sub_loop i a b 0 (c[i := word_of_int ?d])) + be_val b = be_val a + 256 ^ n * k"
      using Suc.prems by (intro Suc.IH) auto
    then show ?thesis using False by (simp add: Let_def)
  qed
qed

lemma wf256_sub [simp]: "wf256 (sub256 a b)"
  by (simp add: wf256_def sub256_def)

lemma abs256_sub256: "wf256 a \<Longrightarrow> wf256 b \<Longrightarrow> abs256 (sub256 a b) = abs256 a - abs256 b"
proof -
  assume wf: "wf256 a" "wf256 b"
  have "\<exists>k. be_val (bytes (sub256 a b)) + be_val (bytes b) = be_val (bytes a) + 256 ^ 32 * k"
    unfolding sub256_def word256.simps using wf
    by (intro be_val_sub_loop) (auto simp: wf256_def)
  then obtain k where
    "be_val (bytes (sub256 a b)) + be_val (bytes b) = be_val (bytes a) + 256 ^ 32 * k" ..
  then have "(of_nat (be_val (bytes (sub256 a b)) + be_val (bytes b)) :: 256 word) =
      of_nat (be_val (bytes a) + 256 ^ 32 * k)" by (rule arg_cong)
  then have "abs256 (sub256 a b) + abs256 b = abs256 a"
    unfolding of_nat_add of_nat_exp_256 by (simp add: abs256_of_nat)
  then show ?thesis by (metis add_diff_cancel_right')
qed

lemma length_inc_loop [simp]: "length (inc_loop i carry bs) = length bs"
  by (induction i arbitrary: carry bs) (simp_all add: Let_def)

lemma be_val_inc_loop:
  assumes "length bs = n" "i \<le> n" "unat carry \<le> 1"
  shows "\<exists>k. be_val (inc_loop i carry bs) + 256 ^ n * k = be_val bs + unat carry * 256 ^ (n - i)"
  using assms
proof (induction i arbitrary: carry bs)
  case 0
  then show ?case by (auto simp: mult.commute)
next
  case (Suc i)
  show ?case
  proof (cases "carry = 0")
    case True
    then show ?thesis by (auto intro: exI [of _ 0])
  next
    case False
    let ?s = "ucast (bs ! i) + carry :: u64"
    have s: "unat ?s = unat (bs ! i) + unat carry"
      using unat_byte_less [of "bs ! i"] Suc.prems by (simp add: unat_add_u64)
    have b: "unat (bs ! i) < 256" by (rule unat_byte_less)
    let ?bs = "bs[i := ucast ?s]"
    let ?p = "256 ^ (n - Suc i) :: nat"
    have i: "i < n" and pw: "256 ^ (n - i) = 256 * ?p"
      using Suc.prems by (auto simp flip: power_Suc simp: Suc_diff_Suc)
    have split: "be_val xs = be_val (take i xs) * 256 ^ (n - i) + (unat (xs ! i) * ?p + be_val (drop (Suc i) xs))"
      if "length xs = n" for xs
      using that i be_val_append [of "take i xs" "drop i xs"] by (simp add: be_val_drop)
    have "unat (?bs ! i) + 256 * (unat ?s div 256) = unat (bs ! i) + unat carry"
      using i Suc.prems by (simp add: u64_low_byte flip: s)
    then have "(unat (?bs ! i) + 256 * (unat ?s div 256)) * ?p = (unat (bs ! i) + unat carry) * ?p"
      by (simp only:)
    moreover have "unat ?s div 256 * 256 ^ (n - i) = 256 * (unat ?s div 256) * ?p"
      by (simp only: pw ac_simps)
    ultimately have C: "unat (?bs ! i) * ?p + unat ?s div 256 * 256 ^ (n - i) = unat (bs ! i) * ?p + unat carry * ?p"
      by (simp only: distrib_right)
    have A: "be_val ?bs = be_val (take i bs) * 256 ^ (n - i) + (unat (?bs ! i) * ?p + be_val (drop (Suc i) bs))"
      using Suc.prems by (subst split) simp_all
    have B: "be_val bs = be_val (take i bs) * 256 ^ (n - i) + (unat (bs ! i) * ?p + be_val (drop (Suc i) bs))"
      using Suc.prems by (intro split) simp
    have "be_val ?bs + unat ?s div 256 * 256 ^ (n - i) = be_val bs + unat carry * ?p"
      unfolding A B using C by linarith
    moreover have "unat ?s div 256 \<le> 1" using s b Suc.prems by simp
    then obtain k where
      "be_val (inc_loop i (drop_bit 8 ?s) ?bs) + 256 ^ n * k = be_val ?bs + unat ?s div 256 * 256 ^ (n - i)"
      using Suc.IH [of ?bs "drop_bit 8 ?s"] Suc.prems by (auto simp: unat_drop_8)
    ultimately show ?thesis using False by (auto simp: Let_def)
  qed
qed

subsection \<open>Reading the low 64 bits\<close>

lemma not_bit_byte: "8 \<le> n \<Longrightarrow> \<not> bit (b :: byte) n"
  using bit_imp_le_length [of b n] by auto

lemma bit_toUint64_fold:
  "n < 64 \<Longrightarrow> bit (foldl (\<lambda>r b. push_bit 8 r OR ucast (b :: byte)) (acc :: u64) bs) n =
    (if n < 8 * length bs then bit (bs ! (length bs - Suc (n div 8))) (n mod 8)
     else bit acc (n - 8 * length bs))"
proof (induction bs arbitrary: n rule: rev_induct)
  case Nil
  then show ?case by simp
next
  case (snoc b bs)
  show ?case
  proof (cases "n < 8")
    case True
    then show ?thesis by (simp add: bit_simps nth_append)
  next
    case False
    then obtain k where n: "n = k + 8" by (metis add.commute le_Suc_ex not_less)
    have d: "n div 8 = Suc (k div 8)" "n mod 8 = k mod 8" by (simp_all add: n)
    have "bit (foldl (\<lambda>r b. push_bit 8 r OR ucast b) acc (bs @ [b])) n =
       bit (foldl (\<lambda>r b. push_bit 8 r OR ucast b) acc bs) k"
      using n snoc.prems by (simp add: bit_simps not_bit_byte)
    also have "\<dots> = (if k < 8 * length bs then bit (bs ! (length bs - Suc (k div 8))) (k mod 8)
       else bit acc (k - 8 * length bs))"
      using snoc.IH [of k] snoc.prems n by simp
    also have "\<dots> = (if n < 8 * length (bs @ [b])
       then bit ((bs @ [b]) ! (length (bs @ [b]) - Suc (n div 8))) (n mod 8)
       else bit acc (n - 8 * length (bs @ [b])))"
      using d by (auto simp: nth_append n)
    finally show ?thesis .
  qed
qed

lemma toUint64_eq: "wf256 w \<Longrightarrow> toUint64 w = ucast (abs256 w)"
proof (rule bit_word_eqI)
  fix n assume wf: "wf256 w" and n: "n < LENGTH(64)"
  define bs where "bs = map ((!) (bytes w)) [24..<32]"
  have len: "length bs = 8" and nth: "\<And>i. i < 8 \<Longrightarrow> bs ! i = bytes w ! (24 + i)"
    by (simp_all add: bs_def del: upt_Suc upt_rec_numeral)
  have "toUint64 w = foldl (\<lambda>r b. push_bit 8 r OR ucast b) 0 bs"
    by (simp only: toUint64_def bs_def foldl_map)
  then have "bit (toUint64 w) n = bit (bs ! (8 - Suc (n div 8))) (n mod 8)"
    using n len by (simp add: bit_toUint64_fold)
  also have "bs ! (8 - Suc (n div 8)) = bytes w ! (31 - n div 8)"
    using n by (subst nth) (auto intro!: arg_cong [where f = "(!) (bytes w)"])
  finally show "bit (toUint64 w) n = bit (ucast (abs256 w) :: u64) n"
    using n wf by (simp add: bit_simps bit_abs256)
qed

subsection \<open>Bitwise operations\<close>

lemma wf256_vec [simp]: "wf256 (Word256_vec data)"
  by (simp add: wf256_def Word256_vec_def Let_def)

lemma wf256_u64 [simp]: "wf256 (Word256_u64 v)"
  by (simp add: wf256_def Word256_u64_def)

lemma wf256_fold [simp]: "length bs = 32 \<Longrightarrow> wf256 \<lparr>bytes = fold (\<lambda>i c. c[h i := f i c]) is bs\<rparr>"
  by (simp add: wf256_def)

lemma bytes_fold_32:
  "length xs = 32 \<Longrightarrow> i < 32 \<Longrightarrow> fold (\<lambda>i c. c[i := f i]) [0..<32] xs ! i = f i"
  by (subst fold_upd_upto) (simp_all del: upt_Suc upt_rec_numeral)

lemma idx_lt_32: "31 - n div 8 < (32 :: nat)"
  by simp

lemma wf256_bitwise [simp]:
  "wf256 (and256 a b)" "wf256 (or256 a b)" "wf256 (xor256 a b)" "wf256 (not256 a)"
  by (simp_all add: and256_def or256_def xor256_def not256_def)

lemma abs256_and256: "wf256 a \<Longrightarrow> wf256 b \<Longrightarrow> abs256 (and256 a b) = abs256 a AND abs256 b"
  by (rule bit_word_eqI)
    (simp add: bit_abs256 bit_simps and256_def bytes_fold_32 del: upt_Suc upt_rec_numeral fold_simps)

lemma abs256_or256: "wf256 a \<Longrightarrow> wf256 b \<Longrightarrow> abs256 (or256 a b) = abs256 a OR abs256 b"
  by (rule bit_word_eqI)
    (simp add: bit_abs256 bit_simps or256_def bytes_fold_32 del: upt_Suc upt_rec_numeral fold_simps)

lemma abs256_xor256: "wf256 a \<Longrightarrow> wf256 b \<Longrightarrow> abs256 (xor256 a b) = abs256 a XOR abs256 b"
  by (rule bit_word_eqI)
    (simp add: bit_abs256 bit_simps xor256_def bytes_fold_32 del: upt_Suc upt_rec_numeral fold_simps)

lemma abs256_not256: "wf256 a \<Longrightarrow> abs256 (not256 a) = NOT (abs256 a)"
  by (rule bit_word_eqI)
    (simp add: bit_abs256 bit_simps not256_def bytes_fold_32 del: upt_Suc upt_rec_numeral fold_simps)

subsection \<open>Negation and comparisons\<close>

lemma nth_fold_inplace:
  "n \<le> length xs \<Longrightarrow> j < length xs \<Longrightarrow>
   fold (\<lambda>i bs. bs[i := g (bs ! i)]) [0..<n] xs ! j = (if j < n then g (xs ! j) else xs ! j)"
  by (induction n arbitrary: j) (auto simp: nth_list_update less_Suc_eq)

lemma wf256_neg [simp]: "wf256 w \<Longrightarrow> wf256 (neg256 w)"
  by (simp add: wf256_def neg256_def)

lemma abs256_neg256: "wf256 w \<Longrightarrow> abs256 (neg256 w) = - abs256 w"
proof -
  assume wf: "wf256 w"
  define cs where "cs = fold (\<lambda>i bs. bs[i := NOT (bs ! i)]) [0..<32] (bytes w)"
  have len: "length cs = 32" using wf by (simp add: cs_def wf256_def)
  have "cs = bytes (not256 w)"
  proof (rule nth_equalityI)
    show "length cs = length (bytes (not256 w))" using len wf256_bitwise(4) [of w] by (simp add: wf256_def)
    fix i assume "i < length cs"
    then show "cs ! i = bytes (not256 w) ! i"
      using wf len unfolding cs_def not256_def word256.simps
      by (subst nth_fold_inplace, simp add: wf256_def, simp) (subst bytes_fold_32, simp_all add: wf256_def)
  qed
  then have "(of_nat (be_val cs) :: 256 word) = NOT (abs256 w)"
    using wf by (simp add: abs256_not256 flip: abs256_of_nat)
  moreover have "\<exists>k. be_val (inc_loop 32 1 cs) + 256 ^ 32 * k = be_val cs + unat (1 :: u64) * 256 ^ (32 - 32)"
    using len by (intro be_val_inc_loop) simp_all
  then obtain k where "be_val (inc_loop 32 1 cs) + 256 ^ 32 * k = be_val cs + 1" by auto
  then have "(of_nat (be_val (inc_loop 32 1 cs) + 256 ^ 32 * k) :: 256 word) = of_nat (be_val cs + 1)"
    by (rule arg_cong)
  then have "(of_nat (be_val (inc_loop 32 1 cs)) :: 256 word) = of_nat (be_val cs) + 1"
    unfolding of_nat_add of_nat_exp_256 by simp
  ultimately show ?thesis
    by (simp add: abs256_of_nat neg256_def cs_def minus_eq_not_plus_1)
qed

lemma be_val_drop_less:
  assumes "length a = length b" "i < length a" "a ! i < b ! i"
  shows "be_val (drop i a) < be_val (drop i b)"
proof -
  let ?p = "256 ^ (length a - Suc i) :: nat"
  have "be_val (drop (Suc i) a) < ?p" using be_val_less [of "drop (Suc i) a"] by simp
  moreover have "Suc (unat (a ! i)) \<le> unat (b ! i)"
    using assms(3) by (simp add: word_less_nat_alt Suc_le_eq)
  then have "Suc (unat (a ! i)) * ?p \<le> unat (b ! i) * ?p" by (rule mult_le_mono1)
  ultimately show ?thesis using assms by (simp add: be_val_drop)
qed

lemma be_val_drop_eq:
  "length a = length b \<Longrightarrow> i < length a \<Longrightarrow> a ! i = b ! i \<Longrightarrow>
   be_val (drop i a) < be_val (drop i b) \<longleftrightarrow> be_val (drop (Suc i) a) < be_val (drop (Suc i) b)"
  by (simp add: be_val_drop)

lemma lt_from_eq:
  "length a = 32 \<Longrightarrow> length b = 32 \<Longrightarrow> lt_from i a b \<longleftrightarrow> be_val (drop i a) < be_val (drop i b)"
proof (induction i a b rule: lt_from.induct)
  case (1 i a b)
  consider "32 \<le> i" | "i < 32" "a ! i < b ! i" | "i < 32" "b ! i < a ! i" | "i < 32" "a ! i = b ! i"
    by (metis leI linorder_less_linear)
  then show ?case
  proof cases
    case 1
    then show ?thesis using "1.prems" by (simp add: lt_from.simps [of i a b])
  next
    case 2
    then show ?thesis using "1.prems" be_val_drop_less [of a b i] by (simp add: lt_from.simps [of i a b])
  next
    case 3
    then have "be_val (drop i b) < be_val (drop i a)" using "1.prems" by (intro be_val_drop_less) simp_all
    with 3 show ?thesis by (simp add: lt_from.simps [of i a b])
  next
    case 4
    then show ?thesis using 1 be_val_drop_eq [of a b i] by (simp add: lt_from.simps [of i a b])
  qed
qed

lemma gt_from_lt_from: "gt_from i a b = lt_from i b a"
proof (induction i a b rule: gt_from.induct)
  case (1 i a b)
  then show ?case by (auto simp: gt_from.simps [of i a b] lt_from.simps [of i b a])
qed

lemma lt256_eq: "wf256 a \<Longrightarrow> wf256 b \<Longrightarrow> lt256 a b \<longleftrightarrow> abs256 a < abs256 b"
  by (simp add: lt256_def lt_from_eq wf256_def word_less_nat_alt unat_abs256)

lemma gt256_eq: "wf256 a \<Longrightarrow> wf256 b \<Longrightarrow> gt256 a b \<longleftrightarrow> abs256 a > abs256 b"
  using lt256_eq [of b a] by (simp add: gt256_def lt256_def gt_from_lt_from)

lemma byte_sign_bit: "b AND 0x80 \<noteq> 0 \<longleftrightarrow> bit (b :: byte) 7"
  by (simp add: byte_and_80)

lemma signBit256_eq: "wf256 w \<Longrightarrow> signBit256 w \<longleftrightarrow> bit (abs256 w) 255"
  unfolding signBit256_def byte_sign_bit by (simp add: bit_abs256)

lemma bit_255_iff: "bit (z :: 256 word) 255 \<longleftrightarrow> 2 ^ 255 \<le> uint z"
proof -
  have "bit z 255 \<longleftrightarrow> bit (uint z) 255" by (simp add: bit_uint_iff)
  then have "bit z 255 \<longleftrightarrow> odd (uint z div 2 ^ 255)" by (simp only: bit_iff_odd)
  moreover have "uint z div 2 ^ 255 \<in> {0, 1}"
  proof -
    define K :: int where "K = 2 ^ 255"
    have "uint z < 2 * K" "0 < K" using uint_lt2p [of z] by (simp_all add: K_def)
    then have "uint z div K < 2"
      using mult_right_mono [of 2 "uint z div K" K] pos_mod_sign [of K "uint z"] div_mult_mod_eq [of "uint z" K]
      by linarith
    then have "uint z div 2 ^ 255 < 2" by (simp only: K_def)
    moreover have "0 \<le> uint z div 2 ^ 255" by (intro div_int_pos_iff [THEN iffD2]) simp
    ultimately show ?thesis by auto
  qed
  moreover have "uint z div 2 ^ 255 = 0 \<longleftrightarrow> uint z < 2 ^ 255"
    by (subst zdiv_eq_0_iff) auto
  ultimately show ?thesis by auto
qed

lemma sint_256: "sint (z :: 256 word) = uint z - (if bit z 255 then 2 ^ 256 else 0)"
  using uint_lt2p [of z]
  by (simp add: sint_uint signed_take_bit_eq_take_bit_minus take_bit_int_eq_self bit_uint_iff)

lemma sint_less_iff:
  "sint (x :: 256 word) < sint y \<longleftrightarrow>
     (if bit x 255 \<noteq> bit y 255 then bit x 255 else x < y)"
proof -
  define X where "X = uint x"
  define Y where "Y = uint y"
  have "0 \<le> X" "0 \<le> Y" "X < 2 ^ 256" "Y < 2 ^ 256"
    using uint_lt2p [of x] uint_lt2p [of y] by (simp_all add: X_def Y_def)
  then show ?thesis
    unfolding sint_256 word_less_def bit_255_iff X_def [symmetric] Y_def [symmetric] by auto
qed

lemma slt256_eq: "wf256 a \<Longrightarrow> wf256 b \<Longrightarrow> slt256 a b \<longleftrightarrow> sint (abs256 a) < sint (abs256 b)"
  by (simp add: slt256_def Let_def signBit256_eq sint_less_iff flip: lt256_def lt256_eq)

lemma sgt256_eq: "wf256 a \<Longrightarrow> wf256 b \<Longrightarrow> sgt256 a b \<longleftrightarrow> sint (abs256 b) < sint (abs256 a)"
  by (auto simp: sgt256_def Let_def signBit256_eq sint_less_iff gt_from_lt_from simp flip: lt256_def lt256_eq)

subsection \<open>Power loop and shifts\<close>

lemma isZero_eq: "wf256 w \<Longrightarrow> isZero w \<longleftrightarrow> abs256 w = 0"
proof -
  assume wf: "wf256 w"
  have "isZero w \<longleftrightarrow> (\<forall>b \<in> set (bytes w). b = 0)"
    using wf unfolding isZero_def list_all_iff wf256_def set_upt by (auto simp: all_set_conv_all_nth)
  also have "\<dots> \<longleftrightarrow> be_val (bytes w) = 0" by (simp add: be_val_eq_0_iff)
  also have "\<dots> \<longleftrightarrow> abs256 w = 0" using wf by (simp add: word_unat_eq_iff unat_abs256)
  finally show ?thesis .
qed

lemma pow_loop_eq: "pow_loop result b e = result * b ^ unat e"
proof (induction result b e rule: pow_loop.induct)
  case (1 result b e)
  show ?case
  proof (cases "0 < e")
    case True
    have half: "unat (drop_bit 1 e) = unat e div 2" by (simp add: drop_bit_eq_div unat_div)
    have odd: "e AND 1 \<noteq> 0 \<longleftrightarrow> odd (unat e)"
    proof -
      have "e AND 1 \<noteq> 0 \<longleftrightarrow> bit e 0" by (simp add: and_one_eq mod_2_eq_odd bit_0)
      also have "\<dots> \<longleftrightarrow> bit (unat e) 0" by (simp only: bit_unsigned_iff) simp
      finally show ?thesis by (simp only: bit_0)
    qed
    have sq: "(b * b) ^ (unat e div 2) = b ^ (2 * (unat e div 2))" by (simp add: power_mult power2_eq_square)
    have IH: "pow_loop (if e AND 1 \<noteq> 0 then result * b else result) (b * b) (drop_bit 1 e) =
      (if odd (unat e) then result * b else result) * b ^ (2 * (unat e div 2))"
      using "1.IH" [OF True] unfolding half sq odd .
    show ?thesis
    proof (cases "odd (unat e)")
      case True
      then have "b ^ unat e = b * b ^ (2 * (unat e div 2))"
        by (metis odd_two_times_div_two_succ power_Suc Suc_eq_plus1)
      with True IH \<open>0 < e\<close> show ?thesis by (simp add: pow_loop.simps [of result b e])
    next
      case False
      then show ?thesis using IH \<open>0 < e\<close> by (simp add: pow_loop.simps [of result b e])
    qed
  next
    case False
    then have "e = 0" by (simp add: word_gt_0)
    then show ?thesis by (simp add: pow_loop.simps [of result b 0])
  qed
qed

lemma expBytes_le: "unat (expBytes_from i bs) \<le> 32"
proof (induction i bs rule: expBytes_from.induct)
  case (1 i bs)
  have "unat (of_nat (32 - i) :: u64) \<le> 32" by (simp add: unat_of_nat)
  with 1 show ?case by (simp add: expBytes_from.simps [of i bs] del: of_nat_diff)
qed

lemma unat_less_nat: "x < (31 :: u64) \<longleftrightarrow> unat x < 31" "x < (32 :: u64) \<longleftrightarrow> unat x < 32" "256 \<le> x \<longleftrightarrow> 256 \<le> unat (x :: u64)"
  by (simp_all add: word_less_nat_alt word_le_nat_alt)

lemma wf256_shl [simp]: "wf256 v \<Longrightarrow> wf256 (shl256 s v)"
  by (simp add: shl256_def Let_def wf256_def Word256_u64_def)

lemma bytes_shl_byteShift:
  assumes "length vs = 32" "k \<le> 32" "j < 32"
  shows "fold (\<lambda>i r. r[i := vs ! (i + k)]) [0..<32 - k] (replicate 32 0) ! j =
    (if j + k < 32 then vs ! (j + k) else 0 :: byte)"
  using assms by (subst fold_upd_upto) (auto simp: nth_append simp del: upt_rec_numeral)

lemma split_8:
  fixes n :: nat
  obtains a q where "n = 8 * a + q" "q < 8" "n div 8 = a" "n mod 8 = q"
  by (rule that [of "n div 8" "n mod 8"]) simp_all

lemma sub_8_ge:
  fixes a k q t :: nat
  assumes "q < 8" "t \<le> q"
  shows "8 * k + t \<le> 8 * a + q \<longleftrightarrow> k \<le> a"
    and "k \<le> a \<Longrightarrow> (8 * a + q - (8 * k + t)) div 8 = a - k"
    and "k \<le> a \<Longrightarrow> (8 * a + q - (8 * k + t)) mod 8 = q - t"
proof -
  show "8 * k + t \<le> 8 * a + q \<longleftrightarrow> k \<le> a" using assms by auto
  assume "k \<le> a"
  then have eq: "8 * a + q - (8 * k + t) = (q - t) + 8 * (a - k)" using assms by simp
  have "q - t < 8" using assms by simp
  then show "(8 * a + q - (8 * k + t)) div 8 = a - k" "(8 * a + q - (8 * k + t)) mod 8 = q - t"
    unfolding eq by simp_all
qed

lemma sub_8_less:
  fixes a k q t :: nat
  assumes "t < 8" "q < t"
  shows "8 * k + t \<le> 8 * a + q \<longleftrightarrow> k < a"
    and "k < a \<Longrightarrow> (8 * a + q - (8 * k + t)) div 8 = a - k - 1"
    and "k < a \<Longrightarrow> (8 * a + q - (8 * k + t)) mod 8 = 8 + q - t"
proof -
  show "8 * k + t \<le> 8 * a + q \<longleftrightarrow> k < a" using assms by auto
  assume "k < a"
  then have eq: "8 * a + q - (8 * k + t) = (8 + q - t) + 8 * (a - k - 1)" using assms by simp
  have "8 + q - t < 8" using assms by simp
  then show "(8 * a + q - (8 * k + t)) div 8 = a - k - 1" "(8 * a + q - (8 * k + t)) mod 8 = 8 + q - t"
    unfolding eq by simp_all
qed

lemma shl_bits:
  fixes x y z :: byte and P :: "nat \<Rightarrow> bool"
  assumes "q < 8" "t < 8" "0 < t"
  shows "bit (push_bit t x OR drop_bit (8 - t) y) q \<longleftrightarrow> (if t \<le> q then bit x (q - t) else bit y (8 + q - t))"
  using assms by (auto simp: bit_simps not_bit_byte)

lemma abs256_shl256:
  assumes wf: "wf256 v"
  shows "abs256 (shl256 s v) = push_bit (unat s) (abs256 v)"
proof (cases "256 \<le> s")
  case True
  then have "push_bit (unat s) (abs256 v) = 0"
    by (intro bit_word_eqI) (simp add: bit_simps unat_less_nat)
  then show ?thesis using True by (simp add: shl256_def abs256_Word256_u64)
next
  case False
  show ?thesis
  proof (cases "s = 0")
    case True
    then show ?thesis by (simp add: shl256_def)
  next
    case s0: False
    obtain k t where s: "unat s = 8 * k + t" "t < 8" "unat s div 8 = k" "unat s mod 8 = t" by (rule split_8)
    have k: "k < 32" using False s by (simp add: unat_less_nat)
    define r where "r = fold (\<lambda>i r. r[i := bytes v ! (i + k)]) [0..<32 - k] (bytes Word256_0)"
    have lr: "length r = 32" by (simp add: r_def)
    have r: "r ! j = (if j + k < 32 then bytes v ! (j + k) else 0)" if "j < 32" for j
      using wf k that unfolding r_def Word256_0_def word256.simps by (intro bytes_shl_byteShift) (simp_all add: wf256_def)
    have res: "bytes (shl256 s v) ! j =
        (if 0 < t then push_bit t (r ! j) OR drop_bit (8 - t) (if j < 31 then r ! (j + 1) else 0) else r ! j)"
      if "j < 32" for j
    proof -
      have "bytes (shl256 s v) = (if 0 < t
         then fold (\<lambda>i r. r[i := push_bit t (r ! i) OR drop_bit (8 - t) (if i < 31 then r ! (i + 1) else 0)]) [0..<32] r
         else r)"
        using False s0 s by (simp add: shl256_def Let_def r_def del: upt_rec_numeral)
      then show ?thesis 
        using that lr nth_fold_up [where g = "\<lambda>x y. push_bit t x OR drop_bit (8 - t) y" and m = 31 and z = 0 and n = 32 and xs = r and j = j]
        by (simp del: upt_rec_numeral)
    qed
    show ?thesis
    proof (rule bit_word_eqI)
      fix n assume "n < LENGTH(256)"
      then have n256: "n < 256" by simp
      obtain a q where n: "n = 8 * a + q" "q < 8" "n div 8 = a" "n mod 8 = q" by (rule split_8)
      have a: "a < 32" using n n256 by simp
      have "bit (abs256 (shl256 s v)) n = bit (bytes (shl256 s v) ! (31 - a)) q"
        using wf n n256 by (simp add: bit_abs256)
      moreover have "bit (push_bit (unat s) (abs256 v)) n =
          (8 * k + t \<le> n \<and> bit (bytes v ! (31 - (n - (8 * k + t)) div 8)) ((n - (8 * k + t)) mod 8))"
        using wf n256 s by (simp add: bit_simps bit_abs256) auto
      moreover have "bit (bytes (shl256 s v) ! (31 - a)) q =
         (8 * k + t \<le> n \<and> bit (bytes v ! (31 - (n - (8 * k + t)) div 8)) ((n - (8 * k + t)) mod 8))"
      proof (cases "t \<le> q")
        case True
        have "bit (bytes (shl256 s v) ! (31 - a)) q = bit (r ! (31 - a)) (q - t)"
          using True s n a by (simp add: res shl_bits)
        also have "\<dots> = (k \<le> a \<and> bit (bytes v ! (31 - (a - k))) (q - t))"
        proof (cases "k \<le> a")
          case True
          then have "31 - a + k = 31 - (a - k)" "31 - (a - k) < 32" using a by simp_all
          then show ?thesis using True a by (simp only: r) simp
        next
          case False
          then show ?thesis using a by (auto simp: r)
        qed
        also have "\<dots> = (8 * k + t \<le> n \<and> bit (bytes v ! (31 - (n - (8 * k + t)) div 8)) ((n - (8 * k + t)) mod 8))"
          using sub_8_ge [OF n(2) True, of k a] unfolding n(1) by (cases "k \<le> a") simp_all
        finally show ?thesis .
      next
        case False
        then have t: "q < t" by simp
        have "bit (bytes (shl256 s v) ! (31 - a)) q = bit (if 31 - a < 31 then r ! (31 - a + 1) else 0) (8 + q - t)"
          using t s n a by (simp add: res shl_bits)
        also have "\<dots> = (k < a \<and> bit (bytes v ! (31 - (a - k - 1))) (8 + q - t))"
        proof (cases "k < a")
          case True
          then have "31 - a + 1 + k = 31 - (a - k - 1)" "31 - (a - k - 1) < 32" "31 - a + 1 < 32" using a by simp_all
          then have "r ! (31 - a + 1) = bytes v ! (31 - (a - k - 1))" by (simp only: r if_True)
          then show ?thesis using True a by simp
        next
          case False
          then show ?thesis using a by (auto simp: r)
        qed
        also have "\<dots> = (8 * k + t \<le> n \<and> bit (bytes v ! (31 - (n - (8 * k + t)) div 8)) ((n - (8 * k + t)) mod 8))"
          using sub_8_less [OF s(2) t, of k a] unfolding n(1) by (cases "k < a") simp_all
        finally show ?thesis .
      qed
      ultimately show "bit (abs256 (shl256 s v)) n = bit (push_bit (unat s) (abs256 v)) n" by simp
    qed
  qed
qed

lemma shr_bits:
  fixes x y :: byte
  assumes "q < 8" "t < 8" "0 < t"
  shows "bit (drop_bit t x OR push_bit (8 - t) y) q \<longleftrightarrow> (if q + t < 8 then bit x (q + t) else bit y (q + t - 8))"
  using assms by (auto simp: bit_simps not_bit_byte add.commute)

text \<open>The right shifts share the two-phase loop; \<open>z\<close> is the byte shifted in.\<close>

lemma right_shift_bits:
  fixes r vs rs :: "byte list"
  assumes lr: "length r = 32" and lv: "length vs = 32" and k: "k < 32" and t: "t < 8"
    and z: "\<forall>m < 8. bit z m = fill"
    and r: "\<And>j. j < 32 \<Longrightarrow> r ! j = (if k \<le> j then vs ! (j - k) else z)"
    and res: "\<And>j. j < 32 \<Longrightarrow> rs ! j =
       (if 0 < t then drop_bit t (r ! j) OR push_bit (8 - t) (if 0 < j then r ! (j - 1) else z) else r ! j)"
    and a: "a < 32" and q: "q < 8"
  shows "bit (rs ! (31 - a)) q =
     (let m = 8 * a + q + (8 * k + t) in if m < 256 then bit (vs ! (31 - m div 8)) (m mod 8) else fill)"
proof (cases "q + t < 8")
  case True
  have eq: "8 * a + q + (8 * k + t) = (q + t) + 8 * (a + k)" by simp
  have m: "(8 * a + q + (8 * k + t)) div 8 = a + k" "(8 * a + q + (8 * k + t)) mod 8 = q + t"
    unfolding eq using True by (simp_all del: distrib_left_numeral)
  have "bit (rs ! (31 - a)) q = bit (r ! (31 - a)) (q + t)"
    using True t q a by (cases "t = 0") (simp_all add: res shr_bits)
  then show ?thesis using True a k m z by (auto simp: Let_def r diff_diff_eq)
next
  case False
  then have t0: "0 < t" using q by simp
  have eq: "8 * a + q + (8 * k + t) = (q + t - 8) + 8 * (a + k + 1)" using False by simp
  have m: "(8 * a + q + (8 * k + t)) div 8 = a + k + 1" "(8 * a + q + (8 * k + t)) mod 8 = q + t - 8"
    unfolding eq using t q by (simp_all only: div_mult_self2 mod_mult_self2) simp_all
  have "bit (rs ! (31 - a)) q = bit (if 0 < 31 - a then r ! (31 - a - 1) else z) (q + t - 8)"
    using False t t0 q a by (simp add: res shr_bits)
  then show ?thesis using False a k m z t q by (auto simp: Let_def r)
qed

lemma bytes_right_byteShift:
  fixes vs :: "byte list"
  assumes "length vs = 32" "k \<le> 32" "j < 32"
  shows "fold (\<lambda>i r. r[i := vs ! (i - k)]) [k..<32] (replicate 32 z) ! j =
    (if k \<le> j then vs ! (j - k) else z)"
proof -
  have "m \<le> 32 \<Longrightarrow> fold (\<lambda>i r. r[i := vs ! (i - k)]) [k..<m] (replicate 32 z) ! j =
     (if k \<le> j \<and> j < m then vs ! (j - k) else z)" for m
  proof (induction m)
    case 0
    then show ?case using assms by simp
  next
    case (Suc m)
    then show ?case using assms by (auto simp: nth_list_update less_Suc_eq)
  qed
  then show ?thesis using assms by simp
qed

lemma bytes_right_byteShift':
  fixes vs :: "byte list"
  assumes "length vs = 32" "k \<le> 32" "j < 32"
  shows "fold (\<lambda>i r. r[i + k := vs ! i]) [0..<32 - k] (replicate 32 z) ! j =
    (if k \<le> j then vs ! (j - k) else z)"
proof -
  have "m \<le> 32 - k \<Longrightarrow> fold (\<lambda>i r. r[i + k := vs ! i]) [0..<m] (replicate 32 z) ! j =
     (if k \<le> j \<and> j < m + k then vs ! (j - k) else z)" for m
  proof (induction m)
    case 0
    then show ?case using assms by auto
  next
    case (Suc m)
    then show ?case using assms by (auto simp: nth_list_update less_Suc_eq)
  qed
  then show ?thesis using assms by simp
qed

lemma wf256_shr [simp]: "wf256 v \<Longrightarrow> wf256 (shr256 s v)"
  by (simp add: shr256_def Let_def wf256_def Word256_u64_def)

lemma wf256_sar [simp]: "wf256 v \<Longrightarrow> wf256 (sar256 s v)"
  by (simp add: sar256_def Let_def wf256_def)

lemma right_shift_abs256:
  assumes wf: "wf256 v" "wf256 w" and s: "unat s < 256"
    and z: "\<forall>m < 8. bit z m = fill"
    and lr: "length r = 32"
    and r: "\<And>j. j < 32 \<Longrightarrow> r ! j = (if unat s div 8 \<le> j then bytes v ! (j - unat s div 8) else z)"
    and w: "bytes w = (if 0 < unat s mod 8
       then fold (\<lambda>i r. r[i := drop_bit (unat s mod 8) (r ! i) OR push_bit (8 - unat s mod 8) (if 0 < i then r ! (i - 1) else z)]) (rev [0..<32]) r
       else r)"
    and n: "n < 256"
  shows "bit (abs256 w) n \<longleftrightarrow> (if n + unat s < 256 then bit (abs256 v) (n + unat s) else fill)"
proof -
  obtain k t where kt: "unat s = 8 * k + t" "t < 8" "unat s div 8 = k" "unat s mod 8 = t" by (rule split_8)
  obtain a q where aq: "n = 8 * a + q" "q < 8" "n div 8 = a" "n mod 8 = q" by (rule split_8)
  have k: "k < 32" and a: "a < 32" using kt s aq n by simp_all
  have res: "bytes w ! j =
       (if 0 < t then drop_bit t (r ! j) OR push_bit (8 - t) (if 0 < j then r ! (j - 1) else z) else r ! j)"
    if "j < 32" for j
    using that lr kt nth_fold_down [where g = "\<lambda>x y. drop_bit t x OR push_bit (8 - t) y" and z = z and n = 32 and xs = r and j = j]
    by (simp add: w del: upt_rec_numeral)
  have "bit (bytes w ! (31 - a)) q =
     (let m = 8 * a + q + (8 * k + t) in if m < 256 then bit (bytes v ! (31 - m div 8)) (m mod 8) else fill)"
    using wf k kt a aq z lr r res by (intro right_shift_bits [where r = r and z = z]) (simp_all add: wf256_def)
  then show ?thesis using wf n aq kt by (simp add: bit_abs256 Let_def)
qed

subsection \<open>Logical and arithmetic shifts, sign extension, byte selection\<close>

lemma abs256_shr256:
  assumes wf: "wf256 v"
  shows "abs256 (shr256 s v) = drop_bit (unat s) (abs256 v)"
proof (cases "256 \<le> s \<or> s = 0")
  case True
  then show ?thesis
  proof
    assume "256 \<le> s"
    then have "drop_bit (unat s) (abs256 v) = 0"
      by (intro bit_word_eqI) (auto simp: bit_simps unat_less_nat dest: bit_imp_le_length)
    with \<open>256 \<le> s\<close> show ?thesis by (simp add: shr256_def abs256_Word256_u64)
  next
    assume "s = 0"
    then show ?thesis by (simp add: shr256_def)
  qed
next
  case False
  then have s: "unat s < 256" "\<not> 256 \<le> s" "s \<noteq> 0"
    by (auto simp: unat_less_nat)
  define r where "r = fold (\<lambda>i r. r[i := bytes v ! (i - unat s div 8)]) [unat s div 8..<32] (bytes Word256_0)"
  have r: "length r = 32"
    "\<And>j. j < 32 \<Longrightarrow> r ! j = (if unat s div 8 \<le> j then bytes v ! (j - unat s div 8) else 0)"
    using wf s unfolding r_def Word256_0_def word256.simps
    by (simp_all only: length_fold_upd length_replicate, subst bytes_right_byteShift) (simp_all add: wf256_def)
  have w: "bytes (shr256 s v) = (if 0 < unat s mod 8
       then fold (\<lambda>i r. r[i := drop_bit (unat s mod 8) (r ! i) OR push_bit (8 - unat s mod 8) (if 0 < i then r ! (i - 1) else 0)]) (rev [0..<32]) r
       else r)"
    using s unfolding shr256_def Let_def r_def by (simp del: upt_rec_numeral)
  show ?thesis
  proof (rule bit_word_eqI)
    fix n assume "n < LENGTH(256)"
    then have n: "n < 256" by simp
    have "bit (abs256 (shr256 s v)) n \<longleftrightarrow> (if n + unat s < 256 then bit (abs256 v) (n + unat s) else False)"
      using wf s r w n by (intro right_shift_abs256) simp_all
    then show "bit (abs256 (shr256 s v)) n = bit (drop_bit (unat s) (abs256 v)) n"
      by (auto simp: bit_simps add.commute dest: bit_imp_le_length)
  qed
qed

lemma bit_FF: "bit (0xFF :: int) m \<longleftrightarrow> m < 8"
proof -
  have "(0xFF :: int) = mask 8" by (simp add: mask_eq_exp_minus_1)
  then show ?thesis by (simp only: bit_mask_iff) simp
qed

lemma abs256_fill:
  "length bs = 32 \<Longrightarrow> \<forall>b \<in> set bs. \<forall>m < 8. bit b m = fill \<Longrightarrow> n < 256 \<Longrightarrow> bit (abs256 \<lparr>bytes = bs\<rparr>) n = fill"
  by (simp add: bit_abs256 wf256_def)

lemma abs256_sar256:
  assumes wf: "wf256 v"
  shows "abs256 (sar256 s v) = signed_drop_bit (unat s) (abs256 v)"
proof (rule bit_word_eqI)
  fix n assume "n < LENGTH(256)"
  then have n: "n < 256" by simp
  define z :: byte where "z = (if signBit256 v then 0xFF else 0x00)"
  have z: "\<forall>m < 8. bit z m = bit (abs256 v) 255"
    using wf by (simp add: z_def signBit256_eq bit_FF)
  have spec: "bit (signed_drop_bit (unat s) (abs256 v)) n =
      (if n + unat s < 256 then bit (abs256 v) (n + unat s) else bit (abs256 v) 255)"
  proof -
    have L: "LENGTH(256) = 256" by simp
    show ?thesis using n unfolding bit_signed_drop_bit_iff L by (auto simp: add.commute)
  qed
  consider "256 \<le> s" | "s = 0" | "unat s < 256" "\<not> 256 \<le> s" "s \<noteq> 0"
    using unat_less_nat(3) [of s] by fastforce
  then show "bit (abs256 (sar256 s v)) n = bit (signed_drop_bit (unat s) (abs256 v)) n"
  proof cases
    case 1
    have "bit (abs256 \<lparr>bytes = replicate 32 z\<rparr>) n = bit (abs256 v) 255"
      using z n by (intro abs256_fill) auto
    then show ?thesis using 1 spec by (simp add: sar256_def Let_def z_def unat_less_nat)
  next
    case 2
    then show ?thesis by (simp add: sar256_def Let_def)
  next
    case 3
    define r where "r = fold (\<lambda>i r. r[i + unat s div 8 := bytes v ! i]) [0..<32 - unat s div 8] (replicate 32 z)"
    have r: "length r = 32"
      "\<And>j. j < 32 \<Longrightarrow> r ! j = (if unat s div 8 \<le> j then bytes v ! (j - unat s div 8) else z)"
      using wf 3 unfolding r_def
      by (simp_all only: length_fold_upd length_replicate, subst bytes_right_byteShift') (simp_all add: wf256_def)
    have w: "bytes (sar256 s v) = (if 0 < unat s mod 8
       then fold (\<lambda>i r. r[i := drop_bit (unat s mod 8) (r ! i) OR push_bit (8 - unat s mod 8) (if 0 < i then r ! (i - 1) else z)]) (rev [0..<32]) r
       else r)"
      using 3 unfolding sar256_def Let_def r_def z_def by (simp del: upt_rec_numeral)
    have "bit (abs256 (sar256 s v)) n \<longleftrightarrow> (if n + unat s < 256 then bit (abs256 v) (n + unat s) else bit (abs256 v) 255)"
      using wf 3 r w n z by (intro right_shift_abs256 [where z = z]) simp_all
    then show ?thesis using spec by simp
  qed
qed

lemma wf256_signextend [simp]: "wf256 v \<Longrightarrow> wf256 (signextend256 k v)"
  by (simp add: signextend256_def Let_def wf256_def)

lemma abs256_signextend256:
  assumes wf: "wf256 v" and k: "k < 31"
  shows "abs256 (signextend256 k v) = signed_take_bit (8 * unat k + 7) (abs256 v)"
proof (rule bit_word_eqI)
  fix n assume "n < LENGTH(256)"
  then have n: "n < 256" by simp
  have k': "unat k < 31" using k by (simp add: unat_less_nat)
  define e :: byte where "e = (if bytes v ! (31 - unat k) AND 0x80 \<noteq> 0 then 0xFF else 0x00)"
  have e: "m < 8 \<Longrightarrow> bit e m = bit (abs256 v) (8 * unat k + 7)" for m
    using wf k' unfolding e_def byte_sign_bit by (simp add: bit_abs256 bit_FF)
  have "bytes (signextend256 k v) ! j = (if j < 31 - unat k then e else bytes v ! j)" if "j < 32" for j
    using that wf k unfolding signextend256_def Let_def e_def
    by (simp add: fold_upd_upto wf256_def nth_append)
  then have "bit (abs256 (signextend256 k v)) n =
     bit (if 31 - n div 8 < 31 - unat k then e else bytes v ! (31 - n div 8)) (n mod 8)"
    using wf n by (simp add: bit_abs256)
  also have "\<dots> = (if unat k < n div 8 then bit (abs256 v) (8 * unat k + 7) else bit (abs256 v) n)"
    using wf n k' by (auto simp: e bit_abs256)
  also have "\<dots> = bit (signed_take_bit (8 * unat k + 7) (abs256 v)) n"
  proof -
    have "min n (8 * unat k + 7) = (if unat k < n div 8 then 8 * unat k + 7 else n)"
      by (auto simp: min_def)
    then show ?thesis using n by (simp add: bit_signed_take_bit_iff)
  qed
  finally show "bit (abs256 (signextend256 k v)) n = bit (signed_take_bit (8 * unat k + 7) (abs256 v)) n" .
qed

lemma signextend256_ge: "\<not> k < 31 \<Longrightarrow> signextend256 k v = v"
  by (simp add: signextend256_def)

lemma wf256_byte [simp]: "wf256 (byte256 i x)"
  by (simp add: byte256_def)

lemma ucast_ucast_byte: "(ucast (ucast (b :: byte) :: u64) :: 256 word) = ucast b"
proof (rule bit_word_eqI)
  fix n assume "n < LENGTH(256)"
  then show "bit (ucast (ucast b :: u64) :: 256 word) n = bit (ucast b :: 256 word) n"
    by (cases "n < 8") (simp_all add: bit_simps not_bit_byte)
qed

lemma abs256_byte256:
  assumes wf: "wf256 x"
  shows "abs256 (byte256 i x) = (if i < 32 then take_bit 8 (drop_bit (8 * (31 - unat i)) (abs256 x)) else 0)"
proof (cases "i < 32")
  case True
  then have i: "unat i < 32" by (simp add: unat_less_nat)
  have "bit (ucast (bytes x ! unat i) :: 256 word) n = bit (take_bit 8 (drop_bit (8 * (31 - unat i)) (abs256 x))) n"
    if "n < 256" for n
  proof (cases "n < 8")
    case True
    have "(8 * (31 - unat i) + n) div 8 = 31 - unat i" "(8 * (31 - unat i) + n) mod 8 = n" using True by simp_all
    moreover have "8 * (31 - unat i) + n < 256" using True by simp
    ultimately show ?thesis using True i wf by (simp add: bit_simps bit_abs256)
  next
    case False
    then show ?thesis by (simp add: bit_simps not_bit_byte)
  qed
  then have "(ucast (bytes x ! unat i) :: 256 word) = take_bit 8 (drop_bit (8 * (31 - unat i)) (abs256 x))"
    by (intro bit_word_eqI) simp
  with True show ?thesis by (simp add: byte256_def abs256_Word256_u64 ucast_ucast_byte)
next
  case False
  then show ?thesis by (simp add: byte256_def abs256_Word256_u64)
qed

end
