(* ===== verification/SimpleVM.thy ===== *)
theory SimpleVM
  imports Word256
begin

text \<open>
  The contract virtual machine: \<open>src/src/qtum/simplevm.h\<close> and \<open>src/src/qtum/simplevm.cpp\<close>.  This
  theory holds the definitions: the data (\<open>ExecutionResult\<close>, \<open>StorageInterface\<close>, \<open>VMContext\<close>, the
  members of class \<open>VM\<close>), the helper methods of \<open>VM\<close>, one handler per \<open>case\<close> label of the opcode
  switch, the interpreter loop, \<open>Execute\<close> and \<open>CallContract\<close>.

  A method of \<open>VM\<close> is a function from the machine state to an outcome and a new state.  An outcome
  is a value, a thrown exception, or undefined behaviour of the C++ abstract machine (an unsigned
  division by zero, an access outside a vector).  The state at the time of a throw is kept, since
  the handler at the end of \<open>run\<close> reads \<open>gasUsed\<close>.  The hash function, the success of an
  attacker-sized allocation and the texts of the two standard library exceptions are parameters,
  fields of \<open>vm_env\<close>.
\<close>

unbundle bit_operations_syntax

subsection \<open>Outcomes\<close>

datatype ub = Division_by_zero | Out_of_bounds

datatype 'a outcome = Ret 'a | Throw exn | Undefined ub

subsection \<open>Data\<close>

record execution_result =
  er_success :: bool
  er_output :: bytes
  er_gasUsed :: u64
  er_error :: string

definition ExecutionResult :: execution_result where
  "ExecutionResult = \<lparr>er_success = False, er_output = [], er_gasUsed = 0, er_error = []\<rparr>"

record 'st storage_interface =
  getStorage :: "bytes \<Rightarrow> 'st \<Rightarrow> exn + bytes"
  setStorage :: "bytes \<Rightarrow> bytes \<Rightarrow> 'st \<Rightarrow> exn + 'st"

record 'st vm_context =
  contractAddress :: bytes
  callerAddress :: bytes
  originAddress :: bytes
  callData :: bytes
  ctx_code :: bytes
  gasLimit :: u64
  ctx_value :: u64
  blockNumber :: u64
  timestamp :: u64
  gasPrice :: u64
  ctx_storage :: "'st storage_interface option"
  readOnly :: bool

definition VMContext :: "'st vm_context" where
  "VMContext = \<lparr>contractAddress = [], callerAddress = [], originAddress = [], callData = [],
     ctx_code = [], gasLimit = 0, ctx_value = 0, blockNumber = 0, timestamp = 0, gasPrice = 0,
     ctx_storage = None, readOnly = True\<rparr>"

text \<open>
  The members of class \<open>VM\<close>.  The head of \<open>vm_stack\<close> is \<open>stack.back()\<close>.  \<open>vm_result\<close> is the local
  variable \<open>result\<close> of \<open>run\<close>, which the handlers assign; \<open>vm_store\<close> is the state behind the
  storage pointer of the context.
\<close>

record 'st vm_state =
  vm_stack :: "word256 list"
  vm_memory :: bytes
  vm_pc :: nat
  vm_gasUsed :: u64
  vm_returnData :: bytes
  vm_stopped :: bool
  vm_result :: execution_result
  vm_store :: 'st

record vm_env =
  keccak :: "bytes \<Rightarrow> bytes"
  alloc_ok :: "nat \<Rightarrow> bool"
  what_length_error :: string
  what_bad_alloc :: string

definition MAX_STACK_SIZE :: nat where
  "MAX_STACK_SIZE = 1024"

definition MAX_MEMORY_SIZE :: nat where
  "MAX_MEMORY_SIZE = 1024 * 1024"

definition init_vm :: "'st \<Rightarrow> 'st vm_state" where
  "init_vm st = \<lparr>vm_stack = [], vm_memory = [], vm_pc = 0, vm_gasUsed = 0, vm_returnData = [],
     vm_stopped = False, vm_result = ExecutionResult\<lparr>er_success := False\<rparr>, vm_store = st\<rparr>"

subsection \<open>Sequencing\<close>

type_synonym ('st, 'a) vm = "'st vm_state \<Rightarrow> 'a outcome \<times> 'st vm_state"

definition vret :: "'a \<Rightarrow> ('st, 'a) vm" where
  "vret x s = (Ret x, s)"

definition vthrow :: "exn \<Rightarrow> ('st, 'a) vm" where
  "vthrow e s = (Throw e, s)"

definition vundefined :: "ub \<Rightarrow> ('st, 'a) vm" where
  "vundefined u s = (Undefined u, s)"

definition vbind :: "('st, 'a) vm \<Rightarrow> ('a \<Rightarrow> ('st, 'b) vm) \<Rightarrow> ('st, 'b) vm" where
  "vbind m f s = (case m s of
       (Ret x, s') \<Rightarrow> f x s'
     | (Throw e, s') \<Rightarrow> (Throw e, s')
     | (Undefined u, s') \<Rightarrow> (Undefined u, s'))"

definition vget :: "('st vm_state \<Rightarrow> 'a) \<Rightarrow> ('st, 'a) vm" where
  "vget f s = (Ret (f s), s)"

definition vmodify :: "('st vm_state \<Rightarrow> 'st vm_state) \<Rightarrow> ('st, unit) vm" where
  "vmodify f s = (Ret (), f s)"

subsection \<open>Methods of class VM\<close>

definition push :: "word256 \<Rightarrow> ('st, unit) vm" where
  "push w s =
     (if MAX_STACK_SIZE \<le> length (vm_stack s) then (Throw (Runtime_error ''Stack overflow''), s)
      else (Ret (), s\<lparr>vm_stack := w # vm_stack s\<rparr>))"

definition pop :: "('st, word256) vm" where
  "pop s = (case vm_stack s of
       [] \<Rightarrow> (Throw (Runtime_error ''Stack underflow''), s)
     | w # ws \<Rightarrow> (Ret w, s\<lparr>vm_stack := ws\<rparr>))"

definition peek :: "nat \<Rightarrow> ('st, word256) vm" where
  "peek depth s =
     (if length (vm_stack s) \<le> depth then (Throw (Runtime_error ''Stack underflow''), s)
      else (Ret (vm_stack s ! depth), s))"

definition useGas :: "'st vm_context \<Rightarrow> u64 \<Rightarrow> ('st, unit) vm" where
  "useGas ctx amount s =
     (let s' = s\<lparr>vm_gasUsed := vm_gasUsed s + amount\<rparr>
      in if gasLimit ctx < vm_gasUsed s' then (Throw (Runtime_error ''Out of gas''), s')
         else (Ret (), s'))"

definition expandMemory :: "'st vm_context \<Rightarrow> u64 \<Rightarrow> ('st, unit) vm" where
  "expandMemory ctx sz s =
     (if length (vm_memory s) < unat sz
      then if MAX_MEMORY_SIZE < unat sz
           then (Throw (Runtime_error ''Memory limit exceeded''), s)
           else let words = (sz + 31) div 32;
                    oldWords = (of_nat (length (vm_memory s)) + 31) div 32;
                    cost = 3 * (words - oldWords) + (words * words div 512) - (oldWords * oldWords div 512)
                in vbind (if oldWords < words then useGas ctx cost else vret ())
                     (\<lambda>_. vmodify (\<lambda>s. s\<lparr>vm_memory := vm_memory s @ replicate (unat sz - length (vm_memory s)) 0\<rparr>)) s
      else (Ret (), s))"

definition mstore :: "'st vm_context \<Rightarrow> u64 \<Rightarrow> word256 \<Rightarrow> ('st, unit) vm" where
  "mstore ctx offset value =
     vbind (expandMemory ctx (offset + 32)) (\<lambda>_ s.
       if unat offset + 32 \<le> length (vm_memory s)
       then (Ret (), s\<lparr>vm_memory := memcpy (vm_memory s) (unat offset) (bytes value) 32\<rparr>)
       else (Undefined Out_of_bounds, s))"

definition mload :: "'st vm_context \<Rightarrow> u64 \<Rightarrow> ('st, word256) vm" where
  "mload ctx offset =
     vbind (expandMemory ctx (offset + 32)) (\<lambda>_ s.
       if unat offset + 32 \<le> length (vm_memory s)
       then (Ret \<lparr>bytes = take 32 (drop (unat offset) (vm_memory s))\<rparr>, s)
       else (Undefined Out_of_bounds, s))"

definition mstore8 :: "'st vm_context \<Rightarrow> u64 \<Rightarrow> byte \<Rightarrow> ('st, unit) vm" where
  "mstore8 ctx offset value =
     vbind (expandMemory ctx (offset + 1)) (\<lambda>_ s.
       if unat offset < length (vm_memory s)
       then (Ret (), s\<lparr>vm_memory := (vm_memory s)[unat offset := value]\<rparr>)
       else (Undefined Out_of_bounds, s))"

definition getMemorySlice :: "'st vm_context \<Rightarrow> u64 \<Rightarrow> u64 \<Rightarrow> ('st, bytes) vm" where
  "getMemorySlice ctx offset sz =
     (if sz = 0 then vret []
      else vbind (expandMemory ctx (offset + sz)) (\<lambda>_ s.
        if unat offset + unat sz \<le> length (vm_memory s)
        then (Ret (take (unat sz) (drop (unat offset) (vm_memory s))), s)
        else (Undefined Out_of_bounds, s)))"

definition setMemorySlice :: "'st vm_context \<Rightarrow> u64 \<Rightarrow> bytes \<Rightarrow> ('st, unit) vm" where
  "setMemorySlice ctx offset data =
     (if data = [] then vret ()
      else vbind (expandMemory ctx (offset + of_nat (length data))) (\<lambda>_ s.
        if unat offset + length data \<le> length (vm_memory s)
        then (Ret (), s\<lparr>vm_memory := memcpy (vm_memory s) (unat offset) data (length data)\<rparr>)
        else (Undefined Out_of_bounds, s)))"

text \<open>
  \<open>std::vector<unsigned char> data(sz, 0)\<close>: a size beyond \<open>max_size()\<close> throws
  \<open>std::length_error\<close>, a failed allocation \<open>std::bad_alloc\<close>.
\<close>

definition new_vector :: "vm_env \<Rightarrow> u64 \<Rightarrow> ('st, bytes) vm" where
  "new_vector env sz =
     (if 2 ^ 63 \<le> unat sz then vthrow Length_error
      else if \<not> alloc_ok env (unat sz) then vthrow Bad_alloc
      else vret (replicate (unat sz) 0))"

subsection \<open>Arithmetic\<close>

text \<open>\<open>op1\<close>, \<open>op2\<close>, \<open>op3\<close>: pop the operands in the order the cases do, compute, push.\<close>

definition op1 :: "(word256 \<Rightarrow> word256) \<Rightarrow> ('st, unit) vm" where
  "op1 f = vbind pop (\<lambda>a. push (f a))"

definition op2 :: "(word256 \<Rightarrow> word256 \<Rightarrow> word256) \<Rightarrow> ('st, unit) vm" where
  "op2 f = vbind pop (\<lambda>a. vbind pop (\<lambda>b. push (f a b)))"

definition op_STOP :: "('st, unit) vm" where
  "op_STOP = vmodify (\<lambda>s. s\<lparr>vm_stopped := True, vm_result := (vm_result s)\<lparr>er_success := True\<rparr>\<rparr>)"

definition op_ADD :: "('st, unit) vm" where
  "op_ADD = op2 add256"

definition op_MUL :: "('st, unit) vm" where
  "op_MUL = op2 (\<lambda>a b. let va = toUint64 a; vb = toUint64 b in Word256_u64 (va * vb))"

definition op_SUB :: "('st, unit) vm" where
  "op_SUB = op2 sub256"

text \<open>An unsigned 64-bit division or remainder; a zero divisor is undefined behaviour.\<close>

definition div_u64 :: "u64 \<Rightarrow> u64 \<Rightarrow> ('st, u64) vm" where
  "div_u64 a b = (if b = 0 then vundefined Division_by_zero else vret (a div b))"

definition mod_u64 :: "u64 \<Rightarrow> u64 \<Rightarrow> ('st, u64) vm" where
  "mod_u64 a b = (if b = 0 then vundefined Division_by_zero else vret (a mod b))"

definition op_DIV :: "('st, unit) vm" where
  "op_DIV = vbind pop (\<lambda>a. vbind pop (\<lambda>b.
     if isZero b then push (Word256_u64 0)
     else vbind (div_u64 (toUint64 a) (toUint64 b)) (\<lambda>q. push (Word256_u64 q))))"

definition op_MOD :: "('st, unit) vm" where
  "op_MOD = vbind pop (\<lambda>a. vbind pop (\<lambda>b.
     if isZero b then push (Word256_u64 0)
     else vbind (mod_u64 (toUint64 a) (toUint64 b)) (\<lambda>q. push (Word256_u64 q))))"

definition op_SDIV :: "('st, unit) vm" where
  "op_SDIV = vbind pop (\<lambda>a. vbind pop (\<lambda>b.
     if isZero b then push (Word256_u64 0)
     else let aSign = signBit256 a; bSign = signBit256 b;
              aAbs = (if aSign then neg256 a else a);
              bAbs = (if bSign then neg256 b else b)
          in vbind (div_u64 (toUint64 aAbs) (toUint64 bAbs)) (\<lambda>result.
               let r = Word256_u64 result
               in push (if aSign \<noteq> bSign \<and> result \<noteq> 0 then neg256 r else r))))"

definition op_SMOD :: "('st, unit) vm" where
  "op_SMOD = vbind pop (\<lambda>a. vbind pop (\<lambda>b.
     if isZero b then push (Word256_u64 0)
     else let aSign = signBit256 a; bSign = signBit256 b;
              aAbs = (if aSign then neg256 a else a);
              bAbs = (if bSign then neg256 b else b)
          in vbind (mod_u64 (toUint64 aAbs) (toUint64 bAbs)) (\<lambda>result.
               let r = Word256_u64 result
               in push (if aSign \<and> result \<noteq> 0 then neg256 r else r))))"

definition op_ADDMOD :: "('st, unit) vm" where
  "op_ADDMOD = vbind pop (\<lambda>a. vbind pop (\<lambda>b. vbind pop (\<lambda>n.
     if isZero n then push (Word256_u64 0)
     else let va = toUint64 a; vb = toUint64 b; vn = toUint64 n
          in vbind (mod_u64 (va + vb) vn) (\<lambda>r. push (Word256_u64 r)))))"

definition op_MULMOD :: "('st, unit) vm" where
  "op_MULMOD = vbind pop (\<lambda>a. vbind pop (\<lambda>b. vbind pop (\<lambda>n.
     if isZero n then push (Word256_u64 0)
     else let va = toUint64 a; vb = toUint64 b; vn = toUint64 n
          in vbind (mod_u64 (va * vb) vn) (\<lambda>r. push (Word256_u64 r)))))"

definition op_EXP :: "'st vm_context \<Rightarrow> ('st, unit) vm" where
  "op_EXP ctx = vbind (useGas ctx 7) (\<lambda>_. vbind pop (\<lambda>base. vbind pop (\<lambda>exp.
     let b = toUint64 base; e = toUint64 exp; expBytes = expBytes_from 0 (bytes exp)
     in vbind (useGas ctx (50 * expBytes)) (\<lambda>_. push (Word256_u64 (pow_loop 1 b e))))))"

definition op_SIGNEXTEND :: "('st, unit) vm" where
  "op_SIGNEXTEND = op2 (\<lambda>k value. signextend256 (toUint64 k) value)"

subsection \<open>Comparison and bitwise logic\<close>

definition bool_word :: "bool \<Rightarrow> word256" where
  "bool_word b = Word256_u64 (if b then 1 else 0)"

definition op_LT :: "('st, unit) vm" where
  "op_LT = op2 (\<lambda>a b. bool_word (lt256 a b))"

definition op_GT :: "('st, unit) vm" where
  "op_GT = op2 (\<lambda>a b. bool_word (gt256 a b))"

definition op_SLT :: "('st, unit) vm" where
  "op_SLT = op2 (\<lambda>a b. bool_word (slt256 a b))"

definition op_SGT :: "('st, unit) vm" where
  "op_SGT = op2 (\<lambda>a b. bool_word (sgt256 a b))"

definition op_EQ :: "('st, unit) vm" where
  "op_EQ = op2 (\<lambda>a b. bool_word (bytes a = bytes b))"

definition op_ISZERO :: "('st, unit) vm" where
  "op_ISZERO = op1 (\<lambda>a. bool_word (isZero a))"

definition op_AND :: "('st, unit) vm" where
  "op_AND = op2 and256"

definition op_OR :: "('st, unit) vm" where
  "op_OR = op2 or256"

definition op_XOR :: "('st, unit) vm" where
  "op_XOR = op2 xor256"

definition op_NOT :: "('st, unit) vm" where
  "op_NOT = op1 not256"

definition op_BYTE :: "('st, unit) vm" where
  "op_BYTE = op2 (\<lambda>i x. byte256 (toUint64 i) x)"

definition op_SHL :: "('st, unit) vm" where
  "op_SHL = op2 (\<lambda>shift value. shl256 (toUint64 shift) value)"

definition op_SHR :: "('st, unit) vm" where
  "op_SHR = op2 (\<lambda>shift value. shr256 (toUint64 shift) value)"

definition op_SAR :: "('st, unit) vm" where
  "op_SAR = op2 (\<lambda>shift value. sar256 (toUint64 shift) value)"

subsection \<open>Hashing, environment and block information\<close>

definition op_SHA3 :: "vm_env \<Rightarrow> 'st vm_context \<Rightarrow> ('st, unit) vm" where
  "op_SHA3 env ctx = vbind (useGas ctx 27) (\<lambda>_. vbind pop (\<lambda>offset. vbind pop (\<lambda>sz.
     vbind (getMemorySlice ctx (toUint64 offset) (toUint64 sz)) (\<lambda>data.
     vbind (useGas ctx (6 * ((toUint64 sz + 31) div 32))) (\<lambda>_.
     push (Word256_vec (keccak env data)))))))"

definition op_ADDRESS :: "'st vm_context \<Rightarrow> ('st, unit) vm" where
  "op_ADDRESS ctx = push (Word256_vec (contractAddress ctx))"

definition op_CALLER :: "'st vm_context \<Rightarrow> ('st, unit) vm" where
  "op_CALLER ctx = push (Word256_vec (callerAddress ctx))"

definition op_ORIGIN :: "'st vm_context \<Rightarrow> ('st, unit) vm" where
  "op_ORIGIN ctx = push (Word256_vec (originAddress ctx))"

definition op_CALLVALUE :: "'st vm_context \<Rightarrow> ('st, unit) vm" where
  "op_CALLVALUE ctx = push (Word256_u64 (ctx_value ctx))"

definition calldataload :: "bytes \<Rightarrow> u64 \<Rightarrow> word256" where
  "calldataload cd offset =
     \<lparr>bytes = fold (\<lambda>j d. if unat (offset + of_nat j) < length cd then d[j := cd ! unat (offset + of_nat j)] else d)
        [0..<32] (bytes Word256_0)\<rparr>"

definition op_CALLDATALOAD :: "'st vm_context \<Rightarrow> ('st, unit) vm" where
  "op_CALLDATALOAD ctx = op1 (\<lambda>i. calldataload (callData ctx) (toUint64 i))"

definition op_CALLDATASIZE :: "'st vm_context \<Rightarrow> ('st, unit) vm" where
  "op_CALLDATASIZE ctx = push (Word256_u64 (of_nat (length (callData ctx))))"

text \<open>The copy loop of the three copying cases.\<close>

function copy_loop :: "nat \<Rightarrow> u64 \<Rightarrow> u64 \<Rightarrow> bytes \<Rightarrow> bytes \<Rightarrow> bytes" where
  "copy_loop i sz sOff src data =
     (if i < unat sz \<and> unat (sOff + of_nat i) < length src
      then copy_loop (Suc i) sz sOff src (data[i := src ! unat (sOff + of_nat i)])
      else data)"
  by pat_completeness auto
termination
  by (relation "measure (\<lambda>(i, sz, sOff, src, data). unat sz - i)") auto

declare copy_loop.simps [simp del]

definition copy_to_memory :: "vm_env \<Rightarrow> 'st vm_context \<Rightarrow> ('st vm_state \<Rightarrow> bytes) \<Rightarrow> ('st, unit) vm" where
  "copy_to_memory env ctx source = vbind pop (\<lambda>destOffset. vbind pop (\<lambda>offset. vbind pop (\<lambda>size'.
     let dOff = toUint64 destOffset; sOff = toUint64 offset; sz = toUint64 size'
     in vbind (new_vector env sz) (\<lambda>data. vbind (vget source) (\<lambda>src.
        setMemorySlice ctx dOff (copy_loop 0 sz sOff src data))))))"

definition op_CALLDATACOPY :: "vm_env \<Rightarrow> 'st vm_context \<Rightarrow> ('st, unit) vm" where
  "op_CALLDATACOPY env ctx = copy_to_memory env ctx (\<lambda>_. callData ctx)"

definition op_CODESIZE :: "'st vm_context \<Rightarrow> ('st, unit) vm" where
  "op_CODESIZE ctx = push (Word256_u64 (of_nat (length (ctx_code ctx))))"

definition op_CODECOPY :: "vm_env \<Rightarrow> 'st vm_context \<Rightarrow> ('st, unit) vm" where
  "op_CODECOPY env ctx = copy_to_memory env ctx (\<lambda>_. ctx_code ctx)"

definition op_GASPRICE :: "'st vm_context \<Rightarrow> ('st, unit) vm" where
  "op_GASPRICE ctx = push (Word256_u64 (gasPrice ctx))"

definition op_RETURNDATASIZE :: "('st, unit) vm" where
  "op_RETURNDATASIZE = vbind (vget vm_returnData) (\<lambda>d. push (Word256_u64 (of_nat (length d))))"

definition op_RETURNDATACOPY :: "vm_env \<Rightarrow> 'st vm_context \<Rightarrow> ('st, unit) vm" where
  "op_RETURNDATACOPY env ctx = copy_to_memory env ctx vm_returnData"

definition op_BLOCKHASH :: "('st, unit) vm" where
  "op_BLOCKHASH = op1 (\<lambda>blockNum. Word256_u64 0)"

definition op_COINBASE :: "('st, unit) vm" where
  "op_COINBASE = push (Word256_u64 0)"

definition op_TIMESTAMP :: "'st vm_context \<Rightarrow> ('st, unit) vm" where
  "op_TIMESTAMP ctx = push (Word256_u64 (timestamp ctx))"

definition op_NUMBER :: "'st vm_context \<Rightarrow> ('st, unit) vm" where
  "op_NUMBER ctx = push (Word256_u64 (blockNumber ctx))"

definition op_DIFFICULTY :: "('st, unit) vm" where
  "op_DIFFICULTY = push (Word256_u64 1)"

definition op_GASLIMIT :: "'st vm_context \<Rightarrow> ('st, unit) vm" where
  "op_GASLIMIT ctx = push (Word256_u64 (gasLimit ctx))"

definition op_CHAINID :: "('st, unit) vm" where
  "op_CHAINID = push (Word256_u64 8800)"

definition op_SELFBALANCE :: "'st vm_context \<Rightarrow> ('st, unit) vm" where
  "op_SELFBALANCE ctx = push (Word256_u64 (ctx_value ctx))"

definition op_BALANCE :: "('st, unit) vm" where
  "op_BALANCE = op1 (\<lambda>addr. Word256_u64 0)"

definition op_EXTCODESIZE :: "('st, unit) vm" where
  "op_EXTCODESIZE = op1 (\<lambda>addr. Word256_u64 0)"

definition op_EXTCODEHASH :: "('st, unit) vm" where
  "op_EXTCODEHASH = op1 (\<lambda>addr. Word256_u64 0)"

definition op_EXTCODECOPY :: "vm_env \<Rightarrow> 'st vm_context \<Rightarrow> ('st, unit) vm" where
  "op_EXTCODECOPY env ctx = vbind pop (\<lambda>addr. vbind pop (\<lambda>destOffset. vbind pop (\<lambda>offset. vbind pop (\<lambda>size'.
     let dOff = toUint64 destOffset; sz = toUint64 size'
     in vbind (new_vector env sz) (\<lambda>zeros. setMemorySlice ctx dOff zeros)))))"

subsection \<open>Stack, memory, storage and flow\<close>

definition op_POP :: "('st, unit) vm" where
  "op_POP = vbind pop (\<lambda>_. vret ())"

definition op_MLOAD :: "'st vm_context \<Rightarrow> ('st, unit) vm" where
  "op_MLOAD ctx = vbind pop (\<lambda>offset. vbind (mload ctx (toUint64 offset)) push)"

definition op_MSTORE :: "'st vm_context \<Rightarrow> ('st, unit) vm" where
  "op_MSTORE ctx = vbind pop (\<lambda>offset. vbind pop (\<lambda>value. mstore ctx (toUint64 offset) value))"

definition op_MSTORE8 :: "'st vm_context \<Rightarrow> ('st, unit) vm" where
  "op_MSTORE8 ctx = vbind pop (\<lambda>offset. vbind pop (\<lambda>value. mstore8 ctx (toUint64 offset) (bytes value ! 31)))"

definition load_storage :: "'st vm_context \<Rightarrow> bytes \<Rightarrow> ('st, bytes) vm" where
  "load_storage ctx key s = (case ctx_storage ctx of
       None \<Rightarrow> (Ret [], s)
     | Some io \<Rightarrow> (case getStorage io key (vm_store s) of Inl e \<Rightarrow> (Throw e, s) | Inr v \<Rightarrow> (Ret v, s)))"

definition store_storage :: "'st vm_context \<Rightarrow> bytes \<Rightarrow> bytes \<Rightarrow> ('st, unit) vm" where
  "store_storage ctx key value s = (case ctx_storage ctx of
       None \<Rightarrow> (Ret (), s)
     | Some io \<Rightarrow> (case setStorage io key value (vm_store s) of
           Inl e \<Rightarrow> (Throw e, s) | Inr st \<Rightarrow> (Ret (), s\<lparr>vm_store := st\<rparr>)))"

definition op_SLOAD :: "'st vm_context \<Rightarrow> ('st, unit) vm" where
  "op_SLOAD ctx = vbind (useGas ctx 797) (\<lambda>_. vbind pop (\<lambda>key.
     vbind (load_storage ctx (toBytes key)) (\<lambda>value.
       let value' = (if length value < 32 then value @ replicate (32 - length value) 0 else value)
       in push (Word256_vec value'))))"

definition op_SSTORE :: "'st vm_context \<Rightarrow> ('st, unit) vm" where
  "op_SSTORE ctx =
     (if readOnly ctx then vthrow (Runtime_error ''SSTORE not allowed in read-only call'')
      else vbind (useGas ctx 2897) (\<lambda>_. vbind pop (\<lambda>key. vbind pop (\<lambda>value.
             store_storage ctx (toBytes key) (toBytes value)))))"

abbreviation JUMPDEST :: byte where
  "JUMPDEST \<equiv> 0x5b"

definition jump_to :: "'st vm_context \<Rightarrow> u64 \<Rightarrow> ('st, unit) vm" where
  "jump_to ctx target =
     (if length (ctx_code ctx) \<le> unat target
      then vthrow (Runtime_error (''Invalid jump destination: target '' @ to_string (unat target) @
             '' >= code size '' @ to_string (length (ctx_code ctx))))
      else let opc = unat (ctx_code ctx ! unat target)
           in if ctx_code ctx ! unat target \<noteq> JUMPDEST
              then vthrow (Runtime_error (''Invalid jump destination: target '' @ to_string (unat target) @
                     '' has opcode 0x'' @ to_string (opc div 16) @ to_string (opc mod 16) @
                     '' (expected 0x5b JUMPDEST)''))
              else vmodify (\<lambda>s. s\<lparr>vm_pc := unat target\<rparr>))"

definition op_JUMP :: "'st vm_context \<Rightarrow> ('st, unit) vm" where
  "op_JUMP ctx = vbind pop (\<lambda>dest. jump_to ctx (toUint64 dest))"

definition op_JUMPI :: "'st vm_context \<Rightarrow> ('st, unit) vm" where
  "op_JUMPI ctx = vbind pop (\<lambda>dest. vbind pop (\<lambda>cond.
     if \<not> isZero cond then jump_to ctx (toUint64 dest) else vret ()))"

definition op_PC :: "('st, unit) vm" where
  "op_PC = vbind (vget vm_pc) (\<lambda>pc. push (Word256_u64 (of_nat (pc - 1))))"

definition op_MSIZE :: "('st, unit) vm" where
  "op_MSIZE = vbind (vget vm_memory) (\<lambda>m. push (Word256_u64 (of_nat (length m))))"

definition op_GAS :: "'st vm_context \<Rightarrow> ('st, unit) vm" where
  "op_GAS ctx = vbind (vget vm_gasUsed) (\<lambda>g. push (Word256_u64 (gasLimit ctx - g)))"

definition op_JUMPDEST :: "('st, unit) vm" where
  "op_JUMPDEST = vret ()"

definition op_RETURN :: "'st vm_context \<Rightarrow> ('st, unit) vm" where
  "op_RETURN ctx = vbind pop (\<lambda>offset. vbind pop (\<lambda>sz.
     vbind (getMemorySlice ctx (toUint64 offset) (toUint64 sz)) (\<lambda>out.
     vmodify (\<lambda>s. s\<lparr>vm_result := (vm_result s)\<lparr>er_output := out, er_success := True\<rparr>, vm_stopped := True\<rparr>))))"

definition op_REVERT :: "'st vm_context \<Rightarrow> ('st, unit) vm" where
  "op_REVERT ctx = vbind pop (\<lambda>offset. vbind pop (\<lambda>sz.
     vbind (getMemorySlice ctx (toUint64 offset) (toUint64 sz)) (\<lambda>out.
     vmodify (\<lambda>s. s\<lparr>vm_result := (vm_result s)\<lparr>er_output := out, er_success := False, er_error := ''Reverted''\<rparr>,
                    vm_stopped := True\<rparr>))))"

definition op_INVALID :: "('st, unit) vm" where
  "op_INVALID = vthrow (Runtime_error ''Invalid opcode'')"

subsection \<open>The default case: PUSH, DUP, SWAP, LOG\<close>

function push_loop :: "nat \<Rightarrow> nat \<Rightarrow> nat \<Rightarrow> bytes \<Rightarrow> nat \<Rightarrow> bytes \<Rightarrow> bytes \<times> nat" where
  "push_loop i n offset code pc bs =
     (if i < n \<and> pc < length code
      then push_loop (Suc i) n offset code (Suc pc) (bs[offset + i := code ! pc])
      else (bs, pc))"
  by pat_completeness auto
termination
  by (relation "measure (\<lambda>(i, n, offset, code, pc, bs). n - i)") auto

declare push_loop.simps [simp del]

definition op_PUSHn :: "'st vm_context \<Rightarrow> nat \<Rightarrow> ('st, unit) vm" where
  "op_PUSHn ctx n = vbind (vget vm_pc) (\<lambda>pc.
     let (bs, pc') = push_loop 0 n (32 - n) (ctx_code ctx) pc (bytes Word256_0)
     in vbind (vmodify (\<lambda>s. s\<lparr>vm_pc := pc'\<rparr>)) (\<lambda>_. push \<lparr>bytes = bs\<rparr>))"

definition op_DUPn :: "nat \<Rightarrow> ('st, unit) vm" where
  "op_DUPn n = vbind (peek n) push"

definition op_SWAPn :: "nat \<Rightarrow> ('st, unit) vm" where
  "op_SWAPn n = vbind (vget vm_stack) (\<lambda>stack.
     if length stack \<le> n then vthrow (Runtime_error ''Stack underflow'')
     else vbind (peek 0) (\<lambda>x. vbind (peek n) (\<lambda>y.
       vmodify (\<lambda>s. s\<lparr>vm_stack := (vm_stack s)[0 := y, n := x]\<rparr>))))"

fun pops :: "nat \<Rightarrow> ('st, unit) vm" where
  "pops 0 = vret ()"
| "pops (Suc n) = vbind pop (\<lambda>_. pops n)"

definition op_LOGn :: "nat \<Rightarrow> ('st, unit) vm" where
  "op_LOGn topics = vbind pop (\<lambda>_. vbind pop (\<lambda>_. pops topics))"

definition op_default :: "'st vm_context \<Rightarrow> byte \<Rightarrow> ('st, unit) vm" where
  "op_default ctx opcode =
     (if 0x60 \<le> opcode \<and> opcode \<le> 0x7f then op_PUSHn ctx (unat (opcode - 0x60 + 1))
      else if 0x80 \<le> opcode \<and> opcode \<le> 0x8f then op_DUPn (unat (opcode - 0x80))
      else if 0x90 \<le> opcode \<and> opcode \<le> 0x9f then op_SWAPn (unat (opcode - 0x90 + 1))
      else if 0xa0 \<le> opcode \<and> opcode \<le> 0xa4 then op_LOGn (unat (opcode - 0xa0))
      else vthrow (Runtime_error (''Unsupported opcode: 0x'' @
             to_string (unat opcode div 16) @ to_string (unat opcode mod 16))))"

subsection \<open>The switch, the loop and the entry points\<close>

definition op_table :: "vm_env \<Rightarrow> 'st vm_context \<Rightarrow> (byte \<times> ('st, unit) vm) list" where
  "op_table env ctx =
    [(0x00, op_STOP), (0x01, op_ADD), (0x02, op_MUL), (0x03, op_SUB), (0x04, op_DIV), (0x06, op_MOD),
     (0x05, op_SDIV), (0x07, op_SMOD), (0x08, op_ADDMOD), (0x09, op_MULMOD), (0x0a, op_EXP ctx),
     (0x0b, op_SIGNEXTEND), (0x10, op_LT), (0x11, op_GT), (0x12, op_SLT), (0x13, op_SGT), (0x14, op_EQ),
     (0x15, op_ISZERO), (0x16, op_AND), (0x17, op_OR), (0x18, op_XOR), (0x19, op_NOT), (0x1a, op_BYTE),
     (0x1b, op_SHL), (0x1c, op_SHR), (0x1d, op_SAR), (0x20, op_SHA3 env ctx), (0x30, op_ADDRESS ctx),
     (0x33, op_CALLER ctx), (0x32, op_ORIGIN ctx), (0x34, op_CALLVALUE ctx), (0x35, op_CALLDATALOAD ctx),
     (0x36, op_CALLDATASIZE ctx), (0x37, op_CALLDATACOPY env ctx), (0x38, op_CODESIZE ctx),
     (0x39, op_CODECOPY env ctx), (0x3a, op_GASPRICE ctx), (0x3d, op_RETURNDATASIZE),
     (0x3e, op_RETURNDATACOPY env ctx), (0x40, op_BLOCKHASH), (0x41, op_COINBASE), (0x42, op_TIMESTAMP ctx),
     (0x43, op_NUMBER ctx), (0x44, op_DIFFICULTY), (0x45, op_GASLIMIT ctx), (0x46, op_CHAINID),
     (0x47, op_SELFBALANCE ctx), (0x31, op_BALANCE), (0x3b, op_EXTCODESIZE), (0x3f, op_EXTCODEHASH),
     (0x3c, op_EXTCODECOPY env ctx), (0x50, op_POP), (0x51, op_MLOAD ctx), (0x52, op_MSTORE ctx),
     (0x53, op_MSTORE8 ctx), (0x54, op_SLOAD ctx), (0x55, op_SSTORE ctx), (0x56, op_JUMP ctx),
     (0x57, op_JUMPI ctx), (0x58, op_PC), (0x59, op_MSIZE), (0x5a, op_GAS ctx), (0x5b, op_JUMPDEST),
     (0xf3, op_RETURN ctx), (0xfd, op_REVERT ctx), (0xfe, op_INVALID)]"

definition dispatch :: "vm_env \<Rightarrow> 'st vm_context \<Rightarrow> byte \<Rightarrow> ('st, unit) vm" where
  "dispatch env ctx opcode = (case map_of (op_table env ctx) opcode of
       Some h \<Rightarrow> h
     | None \<Rightarrow> op_default ctx opcode)"

definition step :: "vm_env \<Rightarrow> 'st vm_context \<Rightarrow> ('st, unit) vm" where
  "step env ctx = vbind (vget vm_pc) (\<lambda>pc.
     let opcode = ctx_code ctx ! pc
     in vbind (vmodify (\<lambda>s. s\<lparr>vm_pc := pc + 1\<rparr>)) (\<lambda>_.
        vbind (useGas ctx 3) (\<lambda>_. dispatch env ctx opcode)))"

definition running :: "'st vm_context \<Rightarrow> 'st vm_state \<Rightarrow> bool" where
  "running ctx s \<longleftrightarrow> \<not> vm_stopped s \<and> vm_pc s < length (ctx_code ctx)"

text \<open>The \<open>while\<close> loop.  \<open>None\<close> is the value of an execution that never leaves it.\<close>

partial_function (option) run_loop ::
    "vm_env \<Rightarrow> 'st vm_context \<Rightarrow> 'st vm_state \<Rightarrow> (unit outcome \<times> 'st vm_state) option" where
  "run_loop env ctx s =
     (if running ctx s
      then (case step env ctx s of
              (Ret _, s') \<Rightarrow> run_loop env ctx s'
            | (Throw e, s') \<Rightarrow> Some (Throw e, s')
            | (Undefined u, s') \<Rightarrow> Some (Undefined u, s'))
      else Some (Ret (), s))"

declare run_loop.simps [code]

fun what :: "vm_env \<Rightarrow> exn \<Rightarrow> string" where
  "what env (Runtime_error msg) = msg"
| "what env Length_error = what_length_error env"
| "what env Bad_alloc = what_bad_alloc env"

fun run_finish :: "vm_env \<Rightarrow> unit outcome \<times> 'st vm_state \<Rightarrow> execution_result outcome \<times> 'st" where
  "run_finish env (Ret _, s) = (Ret ((vm_result s)\<lparr>er_gasUsed := vm_gasUsed s\<rparr>), vm_store s)"
| "run_finish env (Throw e, s) =
     (Ret ((vm_result s)\<lparr>er_success := False, er_error := what env e, er_gasUsed := vm_gasUsed s\<rparr>), vm_store s)"
| "run_finish env (Undefined u, s) = (Undefined u, vm_store s)"

definition Execute :: "vm_env \<Rightarrow> 'st vm_context \<Rightarrow> 'st \<Rightarrow> (execution_result outcome \<times> 'st) option" where
  "Execute env ctx st = map_option (run_finish env) (run_loop env ctx (init_vm st))"

definition CallContract :: "vm_env \<Rightarrow> bytes \<Rightarrow> bytes \<Rightarrow> bytes \<Rightarrow> 'st storage_interface option \<Rightarrow> u64 \<Rightarrow> bool \<Rightarrow> 'st
    \<Rightarrow> (execution_result outcome \<times> 'st) option" where
  "CallContract env addr code cd io limit ro st =
     Execute env \<lparr>contractAddress = addr, callerAddress = replicate 20 0, originAddress = replicate 20 0,
       callData = cd, ctx_code = code, gasLimit = limit, ctx_value = 0, blockNumber = 0, timestamp = 0,
       gasPrice = 0, ctx_storage = io, readOnly = ro\<rparr> st"

end
