(* ===== verification/SimpleVM_Safety.thy ===== *)
theory SimpleVM_Safety
  imports SimpleVM
begin

text \<open>
  Safety of the contract virtual machine: one invariant of the machine state (stack and memory
  bounds, 32-byte words, gas accounting, read-only storage) that every opcode handler preserves, and
  from it termination and the bounds on what an execution returns.
\<close>

unbundle bit_operations_syntax

subsection \<open>Triples\<close>

definition hoare :: "('st vm_state \<Rightarrow> bool) \<Rightarrow> ('st, 'a) vm \<Rightarrow> ('a \<Rightarrow> 'st vm_state \<Rightarrow> bool)
    \<Rightarrow> ('st vm_state \<Rightarrow> bool) \<Rightarrow> bool" where
  "hoare P m Q E \<longleftrightarrow> (\<forall>s. P s \<longrightarrow> (case m s of
       (Ret x, s') \<Rightarrow> Q x s' | (Throw e, s') \<Rightarrow> E s' | (Undefined u, s') \<Rightarrow> True))"

named_theorems hoare_intros \<open>rules that decompose a handler\<close>

lemma hoareI:
  "(\<And>s x s'. P s \<Longrightarrow> m s = (Ret x, s') \<Longrightarrow> Q x s') \<Longrightarrow> (\<And>s e s'. P s \<Longrightarrow> m s = (Throw e, s') \<Longrightarrow> E s')
   \<Longrightarrow> hoare P m Q E"
  by (auto simp: hoare_def split: prod.splits outcome.splits)

lemma hoare_bind:
  "hoare P m R E \<Longrightarrow> (\<And>x. hoare (R x) (f x) Q E) \<Longrightarrow> hoare P (vbind m f) Q E"
  by (fastforce simp: hoare_def vbind_def split: prod.splits outcome.splits)

lemma hoare_conseq:
  "hoare P m Q E \<Longrightarrow> (\<And>s. P' s \<Longrightarrow> P s) \<Longrightarrow> (\<And>x s. Q x s \<Longrightarrow> Q' x s) \<Longrightarrow> hoare P' m Q' E"
  by (fastforce simp: hoare_def split: prod.splits outcome.splits)

lemma hoare_pure:
  "hoare (\<lambda>s. A \<and> P s) m Q E \<longleftrightarrow> (A \<longrightarrow> hoare P m Q E)"
  by (auto simp: hoare_def)

lemma hoare_bind_pure:
  "hoare P m (\<lambda>x s. A x \<and> R s) E \<Longrightarrow> (\<And>x. A x \<Longrightarrow> hoare R (f x) Q E) \<Longrightarrow> hoare P (vbind m f) Q E"
  by (erule hoare_bind) (simp add: hoare_pure)

lemma hoare_throw [hoare_intros]: "(\<And>s. P s \<Longrightarrow> E s) \<Longrightarrow> hoare P (vthrow e) Q E"
  by (simp add: hoare_def vthrow_def)

lemma hoare_undefined [hoare_intros]: "hoare P (vundefined u) Q E"
  by (simp add: hoare_def vundefined_def)

lemma hoare_ret [hoare_intros]: "(\<And>s. P s \<Longrightarrow> Q x s) \<Longrightarrow> hoare P (vret x) Q E"
  by (simp add: hoare_def vret_def)

lemma hoare_modify [hoare_intros]: "(\<And>s. P s \<Longrightarrow> Q () (f s)) \<Longrightarrow> hoare P (vmodify f) Q E"
  by (simp add: hoare_def vmodify_def)

lemma hoare_if [hoare_intros]:
  "(b \<Longrightarrow> hoare P m Q E) \<Longrightarrow> (\<not> b \<Longrightarrow> hoare P m' Q E) \<Longrightarrow> hoare P (if b then m else m') Q E"
  by simp

lemma hoare_let [hoare_intros]: "(\<And>x. hoare P (m x) Q E) \<Longrightarrow> hoare P (let x = e in m x) Q E"
  by simp

lemma hoare_bind_get [hoare_intros]: "(\<And>x. hoare P (f x) Q E) \<Longrightarrow> hoare P (vbind (vget h) f) Q E"
  by (simp add: hoare_def vbind_def vget_def)

lemma hoare_bind_ret [hoare_intros]: "hoare P (f x) Q E \<Longrightarrow> hoare P (vbind (vret x) f) Q E"
  by (simp add: hoare_def vbind_def vret_def)

lemma hoare_bind_throw [hoare_intros]: "(\<And>s. P s \<Longrightarrow> E s) \<Longrightarrow> hoare P (vbind (vthrow e) f) Q E"
  by (simp add: hoare_def vbind_def vthrow_def)

lemma hoare_bind_undefined [hoare_intros]: "hoare P (vbind (vundefined u) f) Q E"
  by (simp add: hoare_def vbind_def vundefined_def)

lemma hoare_bind_if [hoare_intros]:
  "(b \<Longrightarrow> hoare P (vbind m f) Q E) \<Longrightarrow> (\<not> b \<Longrightarrow> hoare P (vbind m' f) Q E)
   \<Longrightarrow> hoare P (vbind (if b then m else m') f) Q E"
  by simp

subsection \<open>The invariant\<close>

text \<open>The most one memory expansion can cost: from nothing to 32768 words.\<close>

definition MAX_MEMORY_COST :: nat where
  "MAX_MEMORY_COST = 3 * 32768 + 32768 * 32768 div 512"

definition gas_safe :: "'st vm_context \<Rightarrow> bool" where
  "gas_safe ctx \<longleftrightarrow> unat (gasLimit ctx) + MAX_MEMORY_COST < 2 ^ 64"

text \<open>The stores an execution can leave behind: those made by storing words through a writable context.\<close>

inductive store_reach :: "'st vm_context \<Rightarrow> 'st \<Rightarrow> 'st \<Rightarrow> bool" for ctx st0 where
  start [simp, intro]: "store_reach ctx st0 st0"
| store: "store_reach ctx st0 st \<Longrightarrow> \<not> readOnly ctx \<Longrightarrow> ctx_storage ctx = Some io \<Longrightarrow> length k = 32 \<Longrightarrow>
    length v = 32 \<Longrightarrow> setStorage io k v st = Inr st' \<Longrightarrow> store_reach ctx st0 st'"

lemma store_reach_read_only: "store_reach ctx st0 st \<Longrightarrow> readOnly ctx \<Longrightarrow> st = st0"
  by (induction rule: store_reach.induct) simp_all

definition vbounds :: "'st vm_context \<Rightarrow> 'st \<Rightarrow> 'st vm_state \<Rightarrow> bool" where
  "vbounds ctx st0 s \<longleftrightarrow>
     length (vm_stack s) \<le> MAX_STACK_SIZE \<and> (\<forall>w \<in> set (vm_stack s). wf256 w) \<and>
     length (vm_memory s) \<le> MAX_MEMORY_SIZE \<and> store_reach ctx st0 (vm_store s)"

definition vgas :: "'st vm_context \<Rightarrow> nat \<Rightarrow> 'st vm_state \<Rightarrow> bool" where
  "vgas ctx g s \<longleftrightarrow> (gas_safe ctx \<longrightarrow> g \<le> unat (vm_gasUsed s)) \<and> unat (vm_gasUsed s) \<le> unat (gasLimit ctx)"

definition vinv :: "'st vm_context \<Rightarrow> nat \<Rightarrow> 'st \<Rightarrow> 'st vm_state \<Rightarrow> bool" where
  "vinv ctx g st0 s \<longleftrightarrow> vbounds ctx st0 s \<and> vgas ctx g s \<and> \<not> vm_stopped s \<and> vm_result s = ExecutionResult"

definition stop_result :: "execution_result \<Rightarrow> bool" where
  "stop_result r \<longleftrightarrow> length (er_output r) \<le> MAX_MEMORY_SIZE \<and>
     (er_error r = (if er_success r then [] else ''Reverted''))"

definition vpost :: "'st vm_context \<Rightarrow> nat \<Rightarrow> 'st \<Rightarrow> 'st vm_state \<Rightarrow> bool" where
  "vpost ctx g st0 s \<longleftrightarrow> vbounds ctx st0 s \<and> vgas ctx g s \<and> 
     (if vm_stopped s then stop_result (vm_result s) else vm_result s = ExecutionResult)"

definition verr :: "'st vm_context \<Rightarrow> 'st \<Rightarrow> 'st vm_state \<Rightarrow> bool" where
  "verr ctx st0 s \<longleftrightarrow> vbounds ctx st0 s \<and> vm_result s = ExecutionResult \<and>
     (gas_safe ctx \<longrightarrow> unat (vm_gasUsed s) \<le> unat (gasLimit ctx) + MAX_MEMORY_COST)"

lemmas vinv_defs = vinv_def vpost_def verr_def vbounds_def vgas_def

lemma vinv_post: "vinv ctx g st0 s \<Longrightarrow> vpost ctx g st0 s"
  by (simp add: vinv_def vpost_def)

lemma vinv_err: "vinv ctx g st0 s \<Longrightarrow> verr ctx st0 s"
  by (simp add: vinv_defs)

lemma vinv_pc [simp]: "vinv ctx g st0 (s\<lparr>vm_pc := p\<rparr>) = vinv ctx g st0 s"
  by (simp add: vinv_defs)

abbreviation handler_ok :: "'st vm_context \<Rightarrow> nat \<Rightarrow> 'st \<Rightarrow> ('st, unit) vm \<Rightarrow> bool" where
  "handler_ok ctx g st0 h \<equiv> hoare (vinv ctx g st0) h (\<lambda>_. vpost ctx g st0) (verr ctx st0)"

subsection \<open>Rules for the methods of VM\<close>

lemma hoare_pop: "hoare (vinv ctx g st0) pop (\<lambda>x s. wf256 x \<and> vinv ctx g st0 s) (verr ctx st0)"
  by (rule hoareI) (auto simp: pop_def vinv_defs split: list.splits)

lemmas hoare_bind_pop [hoare_intros] = hoare_bind_pure [OF hoare_pop]

lemma hoare_push [hoare_intros]: "wf256 w \<Longrightarrow> handler_ok ctx g st0 (push w)"
  by (rule hoareI) (auto simp: push_def vinv_defs split: if_splits)

lemma hoare_peek: "hoare (vinv ctx g st0) (peek n) (\<lambda>x s. wf256 x \<and> vinv ctx g st0 s) (verr ctx st0)"
  by (rule hoareI) (auto simp: peek_def vinv_defs split: if_splits)

lemmas hoare_bind_peek [hoare_intros] = hoare_bind_pure [OF hoare_peek]

lemma useGas_increases:
  assumes "vinv ctx g st0 s" and "unat c \<le> MAX_MEMORY_COST" and "gas_safe ctx"
  shows "unat (vm_gasUsed s + c) = unat (vm_gasUsed s) + unat c"
  using assms by (intro unat_add_u64) (simp add: vinv_defs gas_safe_def)

lemma hoare_useGas:
  assumes c: "unat c \<le> MAX_MEMORY_COST"
  shows "hoare (vinv ctx g st0) (useGas ctx c) (\<lambda>_. vinv ctx (g + unat c) st0) (verr ctx st0)"
proof (rule hoareI)
  fix s x s' assume v: "vinv ctx g st0 s" and r: "useGas ctx c s = (Ret x, s')"
  from r have s': "s' = s\<lparr>vm_gasUsed := vm_gasUsed s + c\<rparr>" "vm_gasUsed s + c \<le> gasLimit ctx"
    by (auto simp: useGas_def Let_def split: if_splits)
  show "vinv ctx (g + unat c) st0 s'"
    using v s' useGas_increases [OF v c] by (auto simp: vinv_defs word_le_nat_alt)
next
  fix s e s' assume v: "vinv ctx g st0 s" and r: "useGas ctx c s = (Throw e, s')"
  from r have s': "s' = s\<lparr>vm_gasUsed := vm_gasUsed s + c\<rparr>"
    by (auto simp: useGas_def Let_def split: if_splits)
  show "verr ctx st0 s'"
    using v s' c useGas_increases [OF v c] by (auto simp: vinv_defs)
qed

lemma vinv_mono: "vinv ctx g st0 s \<Longrightarrow> g' \<le> g \<Longrightarrow> vinv ctx g' st0 s"
  by (auto simp: vinv_defs)

lemma hoare_useGas':
  "unat c \<le> MAX_MEMORY_COST \<Longrightarrow> hoare (vinv ctx g st0) (useGas ctx c) (\<lambda>_. vinv ctx g st0) (verr ctx st0)"
  by (rule hoare_conseq [OF hoare_useGas]) (auto elim: vinv_mono)

lemma hoare_bind_useGas [hoare_intros]:
  "unat c \<le> MAX_MEMORY_COST \<Longrightarrow> hoare (vinv ctx g st0) (f ()) Q (verr ctx st0)
   \<Longrightarrow> hoare (vinv ctx g st0) (vbind (useGas ctx c) f) Q (verr ctx st0)"
  by (rule hoare_bind [OF hoare_useGas']) auto

subsection \<open>Memory\<close>

lemma memory_words:
  assumes "unat sz \<le> MAX_MEMORY_SIZE"
  shows "unat ((sz + 31) div 32 :: u64) = (unat sz + 31) div 32" and "unat ((sz + 31) div 32 :: u64) \<le> 32768"
proof -
  have "unat (sz + 31) = unat sz + 31"
    using assms by (subst unat_add_u64) (simp_all add: MAX_MEMORY_SIZE_def)
  then show "unat ((sz + 31) div 32 :: u64) = (unat sz + 31) div 32" by (simp add: unat_div)
  then show "unat ((sz + 31) div 32 :: u64) \<le> 32768" using assms by (simp add: MAX_MEMORY_SIZE_def)
qed

lemma memory_cost_value:
  assumes w: "unat w \<le> 32768" and lt: "ow < (w :: u64)"
  shows "unat (3 * (w - ow) + (w * w div 512) - (ow * ow div 512)) =
    3 * (unat w - unat ow) + unat w * unat w div 512 - unat ow * unat ow div 512"
proof -
  have o: "unat ow < unat w" using lt by (simp add: word_less_nat_alt)
  have sq: "unat (x * x) = unat x * unat x" if "unat x \<le> 32768" for x :: u64
  proof -
    have "unat x * unat x \<le> 32768 * 32768" using that by (intro mult_le_mono) auto
    then show ?thesis by (intro unat_mult_lem [THEN iffD1]) simp
  qed
  have d: "unat (w - ow) = unat w - unat ow" using lt by (simp add: unat_sub word_le_nat_alt o less_imp_le)
  have t: "unat (3 * (w - ow)) = 3 * (unat w - unat ow)"
    using w d unat_mult_lem [THEN iffD1, of "3 :: u64" "w - ow"] by simp
  have m: "unat ow * unat ow div 512 \<le> unat w * unat w div 512"
    using o by (intro div_le_mono mult_le_mono) auto
  have b: "unat w * unat w div 512 \<le> 32768 * 32768 div 512"
    using w by (intro div_le_mono mult_le_mono) auto
  have s: "unat (3 * (w - ow) + (w * w div 512)) = 3 * (unat w - unat ow) + unat w * unat w div 512"
    using w b t sq [OF w] by (subst unat_add_u64) (simp_all add: unat_div)
  show ?thesis
    using s m sq [of ow] sq [OF w] o w by (subst unat_sub) (simp_all add: word_le_nat_alt unat_div)
qed

lemma memory_cost_bound:
  assumes "unat w \<le> 32768" and "ow < (w :: u64)"
  shows "unat (3 * (w - ow) + (w * w div 512) - (ow * ow div 512)) \<le> MAX_MEMORY_COST"
proof -
  have "unat w * unat w div 512 \<le> 32768 * 32768 div 512"
    using assms by (intro div_le_mono mult_le_mono) auto
  then show ?thesis using assms unfolding memory_cost_value [OF assms] MAX_MEMORY_COST_def by simp
qed

lemma vinv_memory:
  "vinv ctx g st0 s \<Longrightarrow> length m \<le> MAX_MEMORY_SIZE \<Longrightarrow> vinv ctx g st0 (s\<lparr>vm_memory := m\<rparr>)"
  by (simp add: vinv_defs)

lemma vinv_memory_le: "vinv ctx g st0 s \<Longrightarrow> length (vm_memory s) \<le> MAX_MEMORY_SIZE"
  by (simp add: vinv_defs)

lemma hoare_expandMemory:
  "hoare (vinv ctx g st0) (expandMemory ctx sz)
     (\<lambda>_ s. vinv ctx g st0 s \<and> unat sz \<le> length (vm_memory s)) (verr ctx st0)"
proof -
  have "hoare (\<lambda>s. vinv ctx g st0 s \<and> s = t) (expandMemory ctx sz)
     (\<lambda>_ s. vinv ctx g st0 s \<and> unat sz \<le> length (vm_memory s)) (verr ctx st0)" for t
  proof (cases "vinv ctx g st0 t \<and> length (vm_memory t) < unat sz \<and> unat sz \<le> MAX_MEMORY_SIZE")
    case False
    then show ?thesis
      by (intro hoareI) (auto simp: expandMemory_def intro: vinv_err split: if_splits)
  next
    case True
    let ?w = "(sz + 31) div 32" and ?o = "(of_nat (length (vm_memory t)) + 31) div 32 :: u64"
    let ?c = "3 * (?w - ?o) + (?w * ?w div 512) - (?o * ?o div 512)"
    have w: "unat ?w \<le> 32768" using True by (intro memory_words) auto
    have G: "hoare (vinv ctx g st0) (if ?o < ?w then useGas ctx ?c else vret ()) (\<lambda>_. vinv ctx g st0) (verr ctx st0)"
      using memory_cost_bound [OF w] by (auto intro!: hoare_if hoare_useGas' hoare_ret)
    have "hoare (vinv ctx g st0) (vbind (if ?o < ?w then useGas ctx ?c else vret ())
        (\<lambda>_. vmodify (\<lambda>s. s\<lparr>vm_memory := vm_memory s @ replicate (unat sz - length (vm_memory s)) 0\<rparr>)))
      (\<lambda>_ s. vinv ctx g st0 s \<and> unat sz \<le> length (vm_memory s)) (verr ctx st0)"
      using True by (intro hoare_bind [OF G] hoare_modify) (auto intro!: vinv_memory dest: vinv_memory_le)
    then show ?thesis
      using True by (auto simp: hoare_def expandMemory_def Let_def)
  qed
  then show ?thesis by (auto simp: hoare_def)
qed

lemma hoare_mstore [hoare_intros]: "wf256 w \<Longrightarrow> handler_ok ctx g st0 (mstore ctx off w)"
  unfolding mstore_def
  by (rule hoare_bind [OF hoare_expandMemory], rule hoareI)
    (auto simp: wf256_def intro!: vinv_post vinv_memory dest: vinv_memory_le split: if_splits)

lemma hoare_mstore8 [hoare_intros]: "handler_ok ctx g st0 (mstore8 ctx off b)"
  unfolding mstore8_def
  by (rule hoare_bind [OF hoare_expandMemory], rule hoareI)
    (auto intro!: vinv_post vinv_memory dest: vinv_memory_le split: if_splits)

lemma hoare_setMemorySlice [hoare_intros]: "handler_ok ctx g st0 (setMemorySlice ctx off d)"
  unfolding setMemorySlice_def
  by (rule hoare_if, (intro hoare_intros, erule vinv_post), rule hoare_bind [OF hoare_expandMemory], rule hoareI)
    (auto intro!: vinv_post vinv_memory dest: vinv_memory_le split: if_splits)

lemma hoare_mload:
  "hoare (vinv ctx g st0) (mload ctx off) (\<lambda>w s. wf256 w \<and> vinv ctx g st0 s) (verr ctx st0)"
  unfolding mload_def
  by (rule hoare_bind [OF hoare_expandMemory], rule hoareI) (auto simp: wf256_def split: if_splits)

lemmas hoare_bind_mload [hoare_intros] = hoare_bind_pure [OF hoare_mload]

lemma hoare_getMemorySlice:
  "hoare (vinv ctx g st0) (getMemorySlice ctx off sz)
     (\<lambda>d s. (length d = unat sz \<and> unat sz \<le> MAX_MEMORY_SIZE) \<and> vinv ctx g st0 s) (verr ctx st0)"
  unfolding getMemorySlice_def
  by (rule hoare_if, (intro hoare_intros, simp), rule hoare_bind [OF hoare_expandMemory], rule hoareI)
    (auto dest: vinv_memory_le split: if_splits)

lemmas hoare_bind_getMemorySlice [hoare_intros] = hoare_bind_pure [OF hoare_getMemorySlice]

lemma hoare_bind_new_vector [hoare_intros]:
  "(\<And>x. hoare (vinv ctx g st0) (f x) Q (verr ctx st0))
   \<Longrightarrow> hoare (vinv ctx g st0) (vbind (new_vector env sz) f) Q (verr ctx st0)"
  unfolding new_vector_def by (intro hoare_intros) (auto intro: vinv_err)

lemma hoare_bind_div [hoare_intros]:
  "(\<And>x. hoare P (f x) Q E) \<Longrightarrow> hoare P (vbind (div_u64 a b) f) Q E"
  "(\<And>x. hoare P (f x) Q E) \<Longrightarrow> hoare P (vbind (mod_u64 a b) f) Q E"
  unfolding div_u64_def mod_u64_def by (intro hoare_intros; simp)+

lemma hoare_load_storage:
  "hoare (vinv ctx g st0) (load_storage ctx k) (\<lambda>v s. True \<and> vinv ctx g st0 s) (verr ctx st0)"
  by (rule hoareI) (auto simp: load_storage_def intro: vinv_err split: option.splits sum.splits)

lemmas hoare_bind_load_storage [hoare_intros] = hoare_bind_pure [OF hoare_load_storage]

lemma length_toBytes: "wf256 w \<Longrightarrow> length (toBytes w) = 32"
  by (simp add: wf256_def toBytes_def)

lemma hoare_store_storage [hoare_intros]:
  "\<not> readOnly ctx \<Longrightarrow> length k = 32 \<Longrightarrow> length v = 32 \<Longrightarrow> handler_ok ctx g st0 (store_storage ctx k v)"
  by (rule hoareI) (auto simp: store_storage_def vinv_defs intro: store_reach.store split: option.splits sum.splits)

subsection \<open>Every handler preserves the invariant\<close>

lemma handler_op1 [hoare_intros]: "(\<And>a. wf256 a \<Longrightarrow> wf256 (f a)) \<Longrightarrow> handler_ok ctx g st0 (op1 f)"
  unfolding op1_def by (intro hoare_intros) simp

lemma handler_op2 [hoare_intros]:
  "(\<And>a b. wf256 a \<Longrightarrow> wf256 b \<Longrightarrow> wf256 (f a b)) \<Longrightarrow> handler_ok ctx g st0 (op2 f)"
  unfolding op2_def by (intro hoare_intros) simp

lemma wf256_bool_word [simp]: "wf256 (bool_word b)"
  by (simp add: bool_word_def)

lemma length_fold_if_upd [simp]:
  "length (fold (\<lambda>j d. if P j then d[j := f j] else d) is d) = length d"
  by (induction "is" arbitrary: d) auto

lemma wf256_calldataload [simp]: "wf256 (calldataload cd off)"
  by (simp add: calldataload_def wf256_def Word256_0_def del: upt_rec_numeral)

lemma length_push_loop: "length (fst (push_loop i n off code pc bs)) = length bs"
  by (induction i n off code pc bs rule: push_loop.induct) (subst push_loop.simps, auto)

lemma arithmetic_ok:
  "handler_ok ctx g st0 op_ADD" "handler_ok ctx g st0 op_MUL" "handler_ok ctx g st0 op_SUB"
  "handler_ok ctx g st0 op_DIV" "handler_ok ctx g st0 op_MOD" "handler_ok ctx g st0 op_SDIV"
  "handler_ok ctx g st0 op_SMOD" "handler_ok ctx g st0 op_ADDMOD" "handler_ok ctx g st0 op_MULMOD"
  "handler_ok ctx g st0 op_SIGNEXTEND"
  unfolding op_ADD_def op_MUL_def op_SUB_def op_DIV_def op_MOD_def op_SDIV_def op_SMOD_def
    op_ADDMOD_def op_MULMOD_def op_SIGNEXTEND_def Let_def
  by (intro hoare_intros; simp)+

lemma exp_cost: "unat (50 * expBytes_from 0 bs) \<le> MAX_MEMORY_COST"
proof -
  have "unat (50 * expBytes_from 0 bs) = 50 * unat (expBytes_from 0 bs)"
    using expBytes_le [of 0 bs] unat_mult_lem [THEN iffD1, of "50 :: u64" "expBytes_from 0 bs"] by simp
  then show ?thesis using expBytes_le [of 0 bs] by (simp add: MAX_MEMORY_COST_def)
qed

lemma op_EXP_ok: "handler_ok ctx g st0 (op_EXP ctx)"
  unfolding op_EXP_def Let_def
  by (intro hoare_intros exp_cost) (simp_all add: MAX_MEMORY_COST_def)

lemma logic_ok:
  "handler_ok ctx g st0 op_LT" "handler_ok ctx g st0 op_GT" "handler_ok ctx g st0 op_SLT"
  "handler_ok ctx g st0 op_SGT" "handler_ok ctx g st0 op_EQ" "handler_ok ctx g st0 op_ISZERO"
  "handler_ok ctx g st0 op_AND" "handler_ok ctx g st0 op_OR" "handler_ok ctx g st0 op_XOR"
  "handler_ok ctx g st0 op_NOT" "handler_ok ctx g st0 op_BYTE" "handler_ok ctx g st0 op_SHL"
  "handler_ok ctx g st0 op_SHR" "handler_ok ctx g st0 op_SAR"
  unfolding op_LT_def op_GT_def op_SLT_def op_SGT_def op_EQ_def op_ISZERO_def op_AND_def op_OR_def
    op_XOR_def op_NOT_def op_BYTE_def op_SHL_def op_SHR_def op_SAR_def
  by (intro hoare_intros; simp)+

lemma environment_ok:
  "handler_ok ctx g st0 (op_ADDRESS ctx)" "handler_ok ctx g st0 (op_CALLER ctx)"
  "handler_ok ctx g st0 (op_ORIGIN ctx)" "handler_ok ctx g st0 (op_CALLVALUE ctx)"
  "handler_ok ctx g st0 (op_CALLDATALOAD ctx)" "handler_ok ctx g st0 (op_CALLDATASIZE ctx)"
  "handler_ok ctx g st0 (op_CALLDATACOPY env ctx)" "handler_ok ctx g st0 (op_CODESIZE ctx)"
  "handler_ok ctx g st0 (op_CODECOPY env ctx)" "handler_ok ctx g st0 (op_GASPRICE ctx)"
  "handler_ok ctx g st0 op_RETURNDATASIZE" "handler_ok ctx g st0 (op_RETURNDATACOPY env ctx)"
  "handler_ok ctx g st0 op_BLOCKHASH" "handler_ok ctx g st0 op_COINBASE"
  "handler_ok ctx g st0 (op_TIMESTAMP ctx)" "handler_ok ctx g st0 (op_NUMBER ctx)"
  "handler_ok ctx g st0 op_DIFFICULTY" "handler_ok ctx g st0 (op_GASLIMIT ctx)"
  "handler_ok ctx g st0 op_CHAINID" "handler_ok ctx g st0 (op_SELFBALANCE ctx)"
  "handler_ok ctx g st0 op_BALANCE" "handler_ok ctx g st0 op_EXTCODESIZE"
  "handler_ok ctx g st0 op_EXTCODEHASH" "handler_ok ctx g st0 (op_EXTCODECOPY env ctx)"
  unfolding op_ADDRESS_def op_CALLER_def op_ORIGIN_def op_CALLVALUE_def op_CALLDATALOAD_def
    op_CALLDATASIZE_def op_CALLDATACOPY_def op_CODESIZE_def op_CODECOPY_def op_GASPRICE_def
    op_RETURNDATASIZE_def op_RETURNDATACOPY_def op_BLOCKHASH_def op_COINBASE_def op_TIMESTAMP_def
    op_NUMBER_def op_DIFFICULTY_def op_GASLIMIT_def op_CHAINID_def op_SELFBALANCE_def op_BALANCE_def
    op_EXTCODESIZE_def op_EXTCODEHASH_def op_EXTCODECOPY_def copy_to_memory_def Let_def
  by (intro hoare_intros; simp)+

lemma sha3_cost:
  assumes "unat sz \<le> MAX_MEMORY_SIZE"
  shows "unat (6 * ((sz + 31) div 32 :: u64)) \<le> MAX_MEMORY_COST"
proof -
  have "unat (6 * ((sz + 31) div 32 :: u64)) = 6 * unat ((sz + 31) div 32)"
    using memory_words(2) [OF assms] unat_mult_lem [THEN iffD1, of "6 :: u64" "(sz + 31) div 32"] by simp
  then show ?thesis using memory_words(2) [OF assms] by (simp add: MAX_MEMORY_COST_def)
qed

lemma op_SHA3_ok: "handler_ok ctx g st0 (op_SHA3 env ctx)"
  unfolding op_SHA3_def by (intro hoare_intros sha3_cost) (simp_all add: MAX_MEMORY_COST_def)

lemma jump_to_ok [hoare_intros]: "handler_ok ctx g st0 (jump_to ctx t)"
  unfolding jump_to_def Let_def by (intro hoare_intros) (auto intro: vinv_err vinv_post)

lemma pops_ok [hoare_intros]: "handler_ok ctx g st0 (pops n)"
  by (induction n) (auto intro!: hoare_intros vinv_post)

lemma flow_ok:
  "handler_ok ctx g st0 op_STOP" "handler_ok ctx g st0 op_POP"
  "handler_ok ctx g st0 (op_MLOAD ctx)" "handler_ok ctx g st0 (op_MSTORE ctx)"
  "handler_ok ctx g st0 (op_MSTORE8 ctx)" "handler_ok ctx g st0 (op_SLOAD ctx)"
  "handler_ok ctx g st0 (op_SSTORE ctx)" "handler_ok ctx g st0 (op_JUMP ctx)"
  "handler_ok ctx g st0 (op_JUMPI ctx)" "handler_ok ctx g st0 op_PC" "handler_ok ctx g st0 op_MSIZE"
  "handler_ok ctx g st0 (op_GAS ctx)" "handler_ok ctx g st0 op_JUMPDEST"
  "handler_ok ctx g st0 (op_RETURN ctx)" "handler_ok ctx g st0 (op_REVERT ctx)"
  "handler_ok ctx g st0 op_INVALID"
  unfolding op_STOP_def op_POP_def op_MLOAD_def op_MSTORE_def op_MSTORE8_def op_SLOAD_def
    op_SSTORE_def op_JUMP_def op_JUMPI_def op_PC_def op_MSIZE_def op_GAS_def op_JUMPDEST_def
    op_RETURN_def op_REVERT_def op_INVALID_def Let_def
  by (intro hoare_intros; auto simp: length_toBytes MAX_MEMORY_COST_def vinv_defs stop_result_def ExecutionResult_def)+


lemma hoare_bind_set_pc:
  "hoare (vinv ctx g st0) (f ()) Q E \<Longrightarrow> hoare (vinv ctx g st0) (vbind (vmodify (\<lambda>s. s\<lparr>vm_pc := p\<rparr>)) f) Q E"
  by (rule hoare_bind [OF hoare_modify, where R = "\<lambda>_. vinv ctx g st0"]) simp_all

lemma op_PUSHn_ok [hoare_intros]: "handler_ok ctx g st0 (op_PUSHn ctx n)"
proof -
  have "wf256 \<lparr>bytes = fst (push_loop 0 n (32 - n) (ctx_code ctx) pc (bytes Word256_0))\<rparr>" for pc
    by (simp add: wf256_def length_push_loop Word256_0_def)
  then show ?thesis
    unfolding op_PUSHn_def
    by (intro hoare_bind_get) (simp add: split_beta hoare_bind_set_pc hoare_push)
qed

lemma op_SWAPn_ok [hoare_intros]: "handler_ok ctx g st0 (op_SWAPn n)"
  unfolding op_SWAPn_def
  by (intro hoare_intros) (auto simp: vinv_defs dest!: set_update_subset_insert [THEN subsetD])

lemma op_default_ok [hoare_intros]: "handler_ok ctx g st0 (op_default ctx opc)"
  unfolding op_default_def op_DUPn_def op_LOGn_def by (intro hoare_intros) (auto intro: vinv_err)

lemma op_table_ok: "(opc, h) \<in> set (op_table env ctx) \<Longrightarrow> handler_ok ctx g st0 h"
  unfolding op_table_def
  by (auto simp only: set_simps insert_iff empty_iff prod.inject
      intro: arithmetic_ok op_EXP_ok logic_ok environment_ok op_SHA3_ok flow_ok)

lemma dispatch_ok: "handler_ok ctx g st0 (dispatch env ctx opc)"
  unfolding dispatch_def
  by (auto split: option.splits intro: op_default_ok op_table_ok dest: map_of_SomeD)

subsection \<open>The loop\<close>

lemma step_ok: "hoare (vinv ctx g st0) (step env ctx) (\<lambda>_. vpost ctx (g + 3) st0) (verr ctx st0)"
proof -
  have "hoare (vinv ctx g st0) (vbind (useGas ctx 3) (\<lambda>_. dispatch env ctx opc))
     (\<lambda>_. vpost ctx (g + 3) st0) (verr ctx st0)" for opc
    using hoare_useGas [of 3 ctx g st0] dispatch_ok [of ctx "g + 3" st0 env opc]
    by (intro hoare_bind [of _ _ "\<lambda>_. vinv ctx (g + 3) st0"]) (simp_all add: MAX_MEMORY_COST_def)
  then show ?thesis
    unfolding step_def Let_def
    by (intro hoare_bind_get hoare_bind_set_pc) simp
qed

lemma vpost_running: "vpost ctx g st0 s \<Longrightarrow> running ctx s \<Longrightarrow> vinv ctx g st0 s"
  by (simp add: vpost_def vinv_def running_def)

text \<open>What the loop leaves behind, when it ends.\<close>

definition loop_result_ok :: "'st vm_context \<Rightarrow> 'st \<Rightarrow> unit outcome \<times> 'st vm_state \<Rightarrow> bool" where
  "loop_result_ok ctx st0 r \<longleftrightarrow> (case r of
       (Ret _, s) \<Rightarrow> \<exists>g. vpost ctx g st0 s | (Throw e, s) \<Rightarrow> verr ctx st0 s | (Undefined u, s) \<Rightarrow> True)"

lemma run_loop_ok:
  assumes "run_loop env ctx s = Some r" and "vpost ctx g st0 s"
  shows "loop_result_ok ctx st0 r"
  using assms
proof (induction arbitrary: g rule: run_loop.raw_induct [rotated, consumes 1])
  case (1 run env ctx s r)
  show ?case
  proof (cases "running ctx s")
    case False
    then show ?thesis using 1 by (auto simp: loop_result_ok_def)
  next
    case True
    then have "vinv ctx g st0 s" using 1 by (simp add: vpost_running)
    then show ?thesis
      using True 1 step_ok [of ctx g st0 env]
      by (auto simp: hoare_def loop_result_ok_def split: prod.splits outcome.splits) fastforce+
  qed
qed

lemma run_loop_terminates:
  assumes "gas_safe ctx" and "vpost ctx g st0 s" and "g \<le> unat (vm_gasUsed s)"
  shows "\<exists>r. run_loop env ctx s = Some r"
  using assms(2,3)
proof (induction "unat (gasLimit ctx) - unat (vm_gasUsed s)" arbitrary: s g rule: less_induct)
  case less
  show ?case
  proof (cases "running ctx s")
    case False
    then show ?thesis by (subst run_loop.simps) simp
  next
    case True
    have v: "vinv ctx (unat (vm_gasUsed s)) st0 s"
      using vpost_running [OF less.prems(1) True] by (simp add: vinv_defs)
    have post: "vpost ctx (unat (vm_gasUsed s) + 3) st0 s'" if "step env ctx s = (Ret x, s')" for x s'
      using step_ok [of ctx "unat (vm_gasUsed s)" st0 env] v that by (auto simp: hoare_def)
    show ?thesis
    proof (cases "step env ctx s")
      case (Pair o' s')
      show ?thesis
      proof (cases o')
        case (Ret x)
        have p: "vpost ctx (unat (vm_gasUsed s) + 3) st0 s'" using post Pair Ret by simp
        then have "unat (vm_gasUsed s) + 3 \<le> unat (vm_gasUsed s')" "unat (vm_gasUsed s') \<le> unat (gasLimit ctx)"
          using assms(1) by (auto simp: vinv_defs)
        then have "\<exists>r. run_loop env ctx s' = Some r"
          using less.hyps [OF _ p] by simp
        then show ?thesis using True Pair Ret by (subst run_loop.simps) simp
      qed (use True Pair in \<open>(subst run_loop.simps, simp)+\<close>)
    qed
  qed
qed

subsection \<open>Reachable machine states\<close>

inductive vm_reach :: "vm_env \<Rightarrow> 'st vm_context \<Rightarrow> 'st \<Rightarrow> 'st vm_state \<Rightarrow> bool"
  for env :: vm_env and ctx :: "'st vm_context" and st :: 'st where
  init: "vm_reach env ctx st (init_vm st)"
| step: "vm_reach env ctx st s \<Longrightarrow> running ctx s \<Longrightarrow> step env ctx s = (Ret (), s') \<Longrightarrow> vm_reach env ctx st s'"

lemma vpost_init: "vpost ctx 0 st (init_vm st)"
  by (simp add: vinv_defs init_vm_def ExecutionResult_def MAX_STACK_SIZE_def MAX_MEMORY_SIZE_def)

lemma vpost_mono: "vpost ctx g st s \<Longrightarrow> g' \<le> g \<Longrightarrow> vpost ctx g' st s"
  by (auto simp: vinv_defs)

lemma vm_reach_inv: "vm_reach env ctx st s \<Longrightarrow> vpost ctx 0 st s"
proof (induction rule: vm_reach.induct)
  case init
  show ?case by (rule vpost_init)
next
  case (step s s')
  then have "vpost ctx 3 st s'"
    using step_ok [of ctx 0 st env] vpost_running [of ctx 0 st s] by (auto simp: hoare_def)
  then show ?case by (rule vpost_mono) simp
qed

lemmas vm_eval = Execute_def run_loop.simps running_def step_def vbind_def vget_def vmodify_def vret_def vthrow_def
  useGas_def dispatch_def op_table_def Let_def init_vm_def op2_def op1_def pop_def push_def
  MAX_STACK_SIZE_def op_default_def op_PUSHn_def push_loop.simps Word256_0_def ExecutionResult_def

subsection \<open>A concrete machine\<close>

abbreviation demo_env :: vm_env where
  "demo_env \<equiv> \<lparr>keccak = (\<lambda>_. replicate 32 0), alloc_ok = (\<lambda>n. n < 2 ^ 32),
     what_length_error = ''vector'', what_bad_alloc = ''std::bad_alloc''\<rparr>"

abbreviation demo_ctx :: "bytes \<Rightarrow> u64 \<Rightarrow> bool \<Rightarrow> unit vm_context" where
  "demo_ctx code limit ro \<equiv> \<lparr>contractAddress = [], callerAddress = [], originAddress = [], callData = [],
     ctx_code = code, gasLimit = limit, ctx_value = 0, blockNumber = 0, timestamp = 0, gasPrice = 0,
     ctx_storage = None, readOnly = ro\<rparr>"

text \<open>A context with a storage of one cell.\<close>

abbreviation demo_io_ctx :: "bytes \<Rightarrow> u64 \<Rightarrow> bool \<Rightarrow> bytes vm_context" where
  "demo_io_ctx code limit ro \<equiv> \<lparr>contractAddress = [], callerAddress = [], originAddress = [], callData = [],
     ctx_code = code, gasLimit = limit, ctx_value = 0, blockNumber = 0, timestamp = 0, gasPrice = 0,
     ctx_storage = Some \<lparr>getStorage = (\<lambda>k st. Inr st), setStorage = (\<lambda>k v st. Inr v)\<rparr>, readOnly = ro\<rparr>"

subsection \<open>Properties\<close>

text \<open>C5. Every state the interpreter reaches from the initial one keeps at most 1024 words on the
  stack, each of exactly 32 bytes, at most 1 MB of memory, and a gas counter within the limit.\<close>

theorem vm_reach_bounds:
  assumes "vm_reach env ctx st s"
  shows "length (vm_stack s) \<le> 1024 \<and> list_all wf256 (vm_stack s) \<and>
    length (vm_memory s) \<le> 1048576 \<and> vm_gasUsed s \<le> gasLimit ctx"
  using vm_reach_inv [OF assms]
  by (simp_all add: vinv_defs MAX_STACK_SIZE_def MAX_MEMORY_SIZE_def list_all_iff word_le_nat_alt)

theorem vm_reach_bounds_witness:
  "vm_reach demo_env (demo_ctx [0x5b, 0x00] 100 True) () ((init_vm ())\<lparr>vm_pc := 1, vm_gasUsed := 3\<rparr>) \<and>
   vm_gasUsed ((init_vm ())\<lparr>vm_pc := 1, vm_gasUsed := 3\<rparr>) \<le> gasLimit (demo_ctx [0x5b, 0x00] 100 True)"
proof -
  have r: "vm_reach demo_env (demo_ctx [0x5b, 0x00] 100 True) () ((init_vm ())\<lparr>vm_pc := 1, vm_gasUsed := 3\<rparr>)"
    by (rule vm_reach.step [OF vm_reach.init]) (simp_all add: vm_eval op_JUMPDEST_def)
  from r vm_reach_bounds [OF r] show ?thesis by blast
qed

text \<open>C4. With a gas limit that leaves room for one memory expansion below \<open>2 ^ 64\<close>, the
  interpreter loop ends on every program: \<open>Execute\<close> returns.\<close>

theorem Execute_terminates:
  assumes "unat (gasLimit ctx) + 2195456 < 2 ^ 64"
  shows "\<exists>r st'. Execute env ctx st = Some (r, st')"
proof -
  have "gas_safe ctx" using assms by (simp add: gas_safe_def MAX_MEMORY_COST_def)
  then have "\<exists>r. run_loop env ctx (init_vm st) = Some r"
    by (rule run_loop_terminates [OF _ vpost_init]) simp
  then show ?thesis by (auto simp: Execute_def)
qed

theorem Execute_terminates_witness:
  "\<exists>r st'. Execute demo_env (demo_ctx [0x5b, 0x60, 0x00, 0x56] 1000000 True) () = Some (r, st')"
  by (rule Execute_terminates) simp

lemma run_loop_diverges:
  assumes "run_loop env ctx s = Some r"
    and "\<forall>s. I s \<longrightarrow> (\<exists>s'. running ctx s \<and> step env ctx s = (Ret (), s') \<and> I s')"
  shows "\<not> I s"
  using assms
proof (induction rule: run_loop.raw_induct [rotated, consumes 1])
  case (1 run env ctx s r)
  show ?case
  proof
    assume "I s"
    then obtain s' where s': "running ctx s" "step env ctx s = (Ret (), s')" "I s'" using "1.prems" by blast
    then have "run env ctx s' = Some r" using "1.hyps" by simp
    then show False using "1.IH" [of env ctx s' r] "1.prems" s'(3) by simp
  qed
qed

definition loop_program :: bytes where
  "loop_program = [0x5b, 0x60, 0x00, 0x56]"

definition loop_states :: "'st vm_state \<Rightarrow> bool" where
  "loop_states s \<longleftrightarrow> \<not> vm_stopped s \<and> (vm_pc s, vm_stack s) \<in> {(0, []), (1, []), (3, [Word256_0])}"

lemma loop_program_step:
  assumes "loop_states s" and ctx: "ctx_code ctx = loop_program" "gasLimit ctx = - 1"
  shows "\<exists>s'. running ctx s \<and> step env ctx s = (Ret (), s') \<and> loop_states s'"
proof -
  consider "vm_pc s = 0" "vm_stack s = []" | "vm_pc s = 1" "vm_stack s = []" | "vm_pc s = 3" "vm_stack s = [Word256_0]"
    using assms(1) by (auto simp: loop_states_def)
  then show ?thesis
  proof cases
    case 1
    with assms(1) ctx show ?thesis by (simp add: vm_eval loop_program_def op_JUMPDEST_def loop_states_def)
  next
    case 2
    with assms(1) ctx show ?thesis by (simp add: vm_eval loop_program_def loop_states_def list_update_same_conv)
  next
    case 3
    have "toUint64 Word256_0 = 0" by (simp add: toUint64_def Word256_0_def)
    with 3 assms(1) ctx show ?thesis
      by (simp add: vm_eval loop_program_def op_JUMP_def jump_to_def loop_states_def)
  qed
qed

lemma loop_program_diverges:
  assumes "ctx_code ctx = loop_program" and "gasLimit ctx = - 1"
  shows "Execute env ctx st = None"
proof -
  have "loop_states (init_vm st)" by (simp add: loop_states_def init_vm_def)
  then have "run_loop env ctx (init_vm st) \<noteq> Some r" for r
    using run_loop_diverges [where I = loop_states] loop_program_step assms by blast
  then show ?thesis by (cases "run_loop env ctx (init_vm st)") (auto simp: Execute_def)
qed

text \<open>C21. The hypothesis of the termination theorem is needed: with the gas limit
  \<open>2 ^ 64 - 1\<close> the 64-bit gas counter wraps before it exceeds the limit, and the four-byte program
  \<open>JUMPDEST PUSH1 0 JUMP\<close> never leaves the loop, in any context.\<close>

theorem Execute_gas_wrap_diverges:
  assumes "ctx_code ctx = [0x5b, 0x60, 0x00, 0x56]" and "gasLimit ctx = - 1"
  shows "Execute env ctx st = None"
  using loop_program_diverges assms by (simp add: loop_program_def)

theorem Execute_gas_wrap_diverges_witness:
  "Execute demo_env (demo_ctx [0x5b, 0x60, 0x00, 0x56] (- 1) True) () = None"
  by (rule Execute_gas_wrap_diverges) simp_all

lemma Execute_output_size:
  assumes "Execute env ctx st = Some (Ret r, st')"
  shows "length (er_output r) \<le> 1048576"
proof -
  obtain q s where q: "run_loop env ctx (init_vm st) = Some (q, s)" "run_finish env (q, s) = (Ret r, st')"
    using assms by (auto simp: Execute_def)
  have "loop_result_ok ctx st (q, s)" using run_loop_ok [OF q(1) vpost_init] .
  then show ?thesis
    using q(2) by (cases q) (auto simp: loop_result_ok_def vinv_defs stop_result_def ExecutionResult_def
        MAX_MEMORY_SIZE_def split: if_splits)
qed

text \<open>C22. What a returned execution reports: on success no error text and at most the gas limit
  used; on failure an empty output unless the program reverted; never more than 1 MB of output.\<close>

theorem Execute_result:
  assumes "Execute env ctx st = Some (Ret r, st')"
  shows "(er_success r \<longrightarrow> er_error r = [] \<and> er_gasUsed r \<le> gasLimit ctx) \<and>
    (\<not> er_success r \<and> er_output r \<noteq> [] \<longrightarrow> er_error r = ''Reverted'') \<and>
    length (er_output r) \<le> 1048576"
proof -
  obtain q s where q: "run_loop env ctx (init_vm st) = Some (q, s)" "run_finish env (q, s) = (Ret r, st')"
    using assms by (auto simp: Execute_def)
  have "loop_result_ok ctx st (q, s)" using run_loop_ok [OF q(1) vpost_init] .
  then show ?thesis
    using q(2) by (cases q) (auto simp: loop_result_ok_def vinv_defs stop_result_def ExecutionResult_def
        MAX_MEMORY_SIZE_def word_le_nat_alt split: if_splits)
qed

theorem Execute_result_witness:
  "Execute demo_env (demo_ctx [0x60, 5, 0x60, 3, 0x01, 0x00] 100 True) () =
     Some (Ret \<lparr>er_success = True, er_output = [], er_gasUsed = 12, er_error = []\<rparr>, ()) \<and>
   (12 :: u64) \<le> gasLimit (demo_ctx [0x60, 5, 0x60, 3, 0x01, 0x00] 100 True)"
proof -
  have e: "Execute demo_env (demo_ctx [0x60, 5, 0x60, 3, 0x01, 0x00] 100 True) () =
      Some (Ret \<lparr>er_success = True, er_output = [], er_gasUsed = 12, er_error = []\<rparr>, ())"
    by (simp add: vm_eval op_STOP_def op_ADD_def)
  from e Execute_result [OF e] show ?thesis by simp
qed

lemma Execute_store:
  assumes "Execute env ctx st = Some (Ret r, st')"
  shows "store_reach ctx st st'"
proof -
  obtain q s where q: "run_loop env ctx (init_vm st) = Some (q, s)" "run_finish env (q, s) = (Ret r, st')"
    using assms by (auto simp: Execute_def)
  have "loop_result_ok ctx st (q, s)" using run_loop_ok [OF q(1) vpost_init] .
  then show ?thesis using q(2) by (cases q) (auto simp: loop_result_ok_def vinv_defs)
qed

text \<open>C23. A read-only execution leaves the storage as it was.\<close>

theorem Execute_read_only:
  assumes "readOnly ctx" and "Execute env ctx st = Some (Ret r, st')"
  shows "st' = st"
  using Execute_store [OF assms(2)] assms(1) by (rule store_reach_read_only)

theorem Execute_read_only_witness:
  "\<exists>r. Execute demo_env (demo_io_ctx [0x60, 1, 0x60, 2, 0x55] 10000 True) [7] = Some (Ret r, [7])"
proof -
  let ?r = "\<lparr>er_success = False, er_output = [], er_gasUsed = 9,
    er_error = ''SSTORE not allowed in read-only call''\<rparr>"
  have "Execute demo_env (demo_io_ctx [0x60, 1, 0x60, 2, 0x55] 10000 True) [7] = Some (Ret ?r, [7])"
    by (simp add: vm_eval op_SSTORE_def)
  moreover from Execute_read_only [OF _ this] have "[7 :: byte] = [7]" by simp
  ultimately show ?thesis by blast
qed


text \<open>C27. A jump that does not throw continues at a \<open>JUMPDEST\<close> byte inside the code, and changes
  nothing else but the stack.\<close>

theorem jump_lands_on_jumpdest:
  assumes "op_JUMP ctx s = (Ret (), s') \<or> op_JUMPI ctx s = (Ret (), s') \<and> vm_pc s' \<noteq> vm_pc s"
  shows "vm_pc s' < length (ctx_code ctx) \<and> ctx_code ctx ! vm_pc s' = 0x5b \<and>
    s' = s\<lparr>vm_stack := vm_stack s', vm_pc := vm_pc s'\<rparr>"
  using assms
  by (auto simp: op_JUMP_def op_JUMPI_def jump_to_def vbind_def pop_def vthrow_def vmodify_def vret_def Let_def
      split: list.splits if_splits)

theorem jump_lands_on_jumpdest_witness:
  "op_JUMP (demo_ctx [0x00, 0x5b] 100 True) ((init_vm ())\<lparr>vm_stack := [Word256_u64 1]\<rparr>) = (Ret (), (init_vm ())\<lparr>vm_pc := 1\<rparr>) \<and>
   ctx_code (demo_ctx [0x00, 0x5b] 100 True) ! 1 = 0x5b"
proof -
  have j: "op_JUMP (demo_ctx [0x00, 0x5b] 100 True) ((init_vm ())\<lparr>vm_stack := [Word256_u64 1]\<rparr>) = (Ret (), (init_vm ())\<lparr>vm_pc := 1\<rparr>)"
    by (simp add: vm_eval op_JUMP_def jump_to_def toUint64_eq abs256_Word256_u64)
  from j jump_lands_on_jumpdest [OF disjI1 [OF j]] show ?thesis by simp
qed

lemma expandMemory_defined: "expandMemory ctx sz s \<noteq> (Undefined u, s')"
  by (auto simp: expandMemory_def useGas_def vbind_def vret_def vmodify_def Let_def split: if_splits)

lemma expandMemory_covers:
  "expandMemory ctx sz s = (Ret (), s') \<Longrightarrow> unat sz \<le> length (vm_memory s')"
  by (auto simp: expandMemory_def useGas_def vbind_def vret_def vmodify_def Let_def split: if_splits)

lemma expandMemory_bind_undefined:
  assumes "vbind (expandMemory ctx (off + sz)) f s = (Undefined u, s')"
    and "\<And>t. unat (off + sz) \<le> length (vm_memory t) \<Longrightarrow> f () t = (Undefined u, s') \<Longrightarrow> length (vm_memory t) < unat off + unat sz"
  shows "18446744073709551616 \<le> unat off + unat sz"
proof (rule ccontr)
  assume "\<not> ?thesis"
  then have e: "unat (off + sz) = unat off + unat sz" by (intro unat_add_u64) simp
  obtain o' t where x: "expandMemory ctx (off + sz) s = (o', t)" by force
  with assms(1) obtain y where "o' = Ret y" "f y t = (Undefined u, s')"
    by (cases o') (auto simp: vbind_def expandMemory_defined)
  then have o: "o' = Ret ()" "f () t = (Undefined u, s')" by simp_all
  then show False using assms(2) [of t] expandMemory_covers x e by fastforce
qed

text \<open>C24. The memory helpers reach outside the memory vector only for an offset so large that the
  end of the accessed range wraps around \<open>2 ^ 64\<close>.\<close>

theorem memory_access_in_bounds:
  assumes "mstore ctx off w s = (Undefined u, s') \<and> sz = 32 \<or> mload ctx off s = (Undefined u, s') \<and> sz = 32 \<or>
    mstore8 ctx off b s = (Undefined u, s') \<and> sz = 1 \<or>
    getMemorySlice ctx off sz s = (Undefined u, s') \<or>
    setMemorySlice ctx off d s = (Undefined u, s') \<and> sz = of_nat (length d) \<and> length d < 2 ^ 64"
  shows "2 ^ 64 \<le> unat off + unat sz"
  using assms
proof (elim disjE conjE)
  assume "mstore ctx off w s = (Undefined u, s')" "sz = 32"
  from this(1) have "18446744073709551616 \<le> unat off + unat (32 :: u64)" unfolding mstore_def
    by (rule expandMemory_bind_undefined) (auto split: if_splits)
  with \<open>sz = 32\<close> show ?thesis by simp
next
  assume "mload ctx off s = (Undefined u, s')" "sz = 32"
  from this(1) have "18446744073709551616 \<le> unat off + unat (32 :: u64)" unfolding mload_def
    by (rule expandMemory_bind_undefined) (auto split: if_splits)
  with \<open>sz = 32\<close> show ?thesis by simp
next
  assume "mstore8 ctx off b s = (Undefined u, s')" "sz = 1"
  from this(1) have "18446744073709551616 \<le> unat off + unat (1 :: u64)" unfolding mstore8_def
    by (rule expandMemory_bind_undefined) (auto split: if_splits)
  with \<open>sz = 1\<close> show ?thesis by simp
next
  assume "getMemorySlice ctx off sz s = (Undefined u, s')"
  then show ?thesis unfolding getMemorySlice_def
    by (auto simp: vret_def split: if_splits elim!: expandMemory_bind_undefined)
next
  assume "setMemorySlice ctx off d s = (Undefined u, s')" "sz = of_nat (length d)" "length d < 2 ^ 64"
  then have l: "unat (of_nat (length d) :: u64) = length d" by (simp add: unat_of_nat)
  have "d \<noteq> []" using \<open>setMemorySlice ctx off d s = _\<close> by (auto simp: setMemorySlice_def vret_def)
  with \<open>setMemorySlice ctx off d s = _\<close>
  have "18446744073709551616 \<le> unat off + unat (of_nat (length d) :: u64)"
    unfolding setMemorySlice_def if_not_P [OF \<open>d \<noteq> []\<close>]
    by (elim expandMemory_bind_undefined) (auto simp: l split: if_splits)
  then show ?thesis using \<open>sz = _\<close> by simp
qed

theorem memory_access_in_bounds_witness:
  "\<exists>s'. mstore (demo_ctx [] 100 True) (- 1) Word256_0 (init_vm ()) = (Undefined Out_of_bounds, s') \<and>
     2 ^ 64 \<le> unat (- 1 :: u64) + unat (32 :: u64)"
proof -
  have "mstore (demo_ctx [] 100 True) (- 1) Word256_0 (init_vm ()) =
      (Undefined Out_of_bounds, (init_vm ())\<lparr>vm_gasUsed := 3, vm_memory := replicate 31 0\<rparr>)"
    by (simp add: mstore_def expandMemory_def vm_eval MAX_MEMORY_SIZE_def)
  with memory_access_in_bounds show ?thesis by blast
qed

end
