(* ===== verification/SimpleVM_Semantics.thy ===== *)
theory SimpleVM_Semantics
  imports SimpleVM_Safety "HOL-Library.Signed_Division"
begin

text \<open>
  What the two-operand opcodes compute.  \<open>evm_binop\<close> is the meaning of an opcode on 256-bit words;
  the handlers of \<open>SimpleVM\<close> work on arrays of 32 bytes and, in several cases, only on the low 64
  bits of an operand.  \<open>fits64\<close> says for which operands the two agree.
\<close>

unbundle bit_operations_syntax

definition evm_binop :: "byte \<Rightarrow> (256 word \<Rightarrow> 256 word \<Rightarrow> 256 word) option" where
  "evm_binop = map_of
    [(0x01, \<lambda>a b. a + b), (0x02, \<lambda>a b. a * b), (0x03, \<lambda>a b. a - b),
     (0x04, \<lambda>a b. if b = 0 then 0 else a div b), (0x06, \<lambda>a b. if b = 0 then 0 else a mod b),
     (0x0b, \<lambda>k v. if k < 31 then signed_take_bit (8 * unat k + 7) v else v),
     (0x10, \<lambda>a b. of_bool (a < b)), (0x11, \<lambda>a b. of_bool (a > b)),
     (0x12, \<lambda>a b. of_bool (sint a < sint b)), (0x13, \<lambda>a b. of_bool (sint a > sint b)),
     (0x14, \<lambda>a b. of_bool (a = b)), (0x16, \<lambda>a b. a AND b), (0x17, \<lambda>a b. a OR b), (0x18, \<lambda>a b. a XOR b),
     (0x1a, \<lambda>i x. if i < 32 then take_bit 8 (drop_bit (8 * (31 - unat i)) x) else 0),
     (0x1b, \<lambda>s v. push_bit (unat s) v), (0x1c, \<lambda>s v. drop_bit (unat s) v),
     (0x1d, \<lambda>s v. signed_drop_bit (unat s) v)]"

definition fits64 :: "byte \<Rightarrow> 256 word \<Rightarrow> 256 word \<Rightarrow> bool" where
  "fits64 opc a b \<longleftrightarrow>
     (opc = 0x02 \<longrightarrow> unat a * unat b < 2 ^ 64) \<and>
     (opc \<in> {0x04, 0x06} \<longrightarrow> unat a < 2 ^ 64 \<and> unat b < 2 ^ 64) \<and>
     (opc \<in> {0x0b, 0x1a, 0x1b, 0x1c, 0x1d} \<longrightarrow> unat a < 2 ^ 64)"

subsection \<open>Helper facts\<close>

abbreviation demo_state :: "word256 list \<Rightarrow> unit vm_state" where
  "demo_state st \<equiv> (init_vm ())\<lparr>vm_stack := st\<rparr>"


lemma op2_eval:
  "vm_stack s = a # b # st \<Longrightarrow> length (vm_stack s) \<le> MAX_STACK_SIZE
   \<Longrightarrow> op2 f s = (Ret (), s\<lparr>vm_stack := f a b # st\<rparr>)"
  by (simp add: op2_def vbind_def pop_def push_def)

lemma op1_eval:
  "vm_stack s = a # st \<Longrightarrow> length (vm_stack s) \<le> MAX_STACK_SIZE
   \<Longrightarrow> op1 f s = (Ret (), s\<lparr>vm_stack := f a # st\<rparr>)"
  by (simp add: op1_def vbind_def pop_def push_def)

lemma abs256_bool_word [simp]: "abs256 (bool_word b) = of_bool b"
  by (simp add: bool_word_def abs256_Word256_u64)

lemma unat_toUint64: "wf256 w \<Longrightarrow> unat (abs256 w) < 2 ^ 64 \<Longrightarrow> unat (toUint64 w) = unat (abs256 w)"
  by (simp add: toUint64_eq unsigned_ucast_eq take_bit_nat_eq_self)

lemma unat_toUint64_mod: "wf256 w \<Longrightarrow> unat (toUint64 w) = unat (abs256 w) mod 2 ^ 64"
  by (simp add: toUint64_eq unsigned_ucast_eq take_bit_eq_mod)

lemma unat_abs256_u64 [simp]: "unat (abs256 (Word256_u64 v)) = unat v"
  using unat_u64_less [of v] by (simp add: abs256_Word256_u64 unsigned_ucast_eq take_bit_nat_eq_self)

lemma mul_u64:
  assumes "wf256 a" and "wf256 b" and "unat (abs256 a) * unat (abs256 b) < 2 ^ 64"
  shows "abs256 (Word256_u64 (toUint64 a * toUint64 b)) = abs256 a * abs256 b"
proof -
  let ?a = "unat (abs256 a)" and ?b = "unat (abs256 b)"
  have "unat (toUint64 a * toUint64 b) = (?a mod 2 ^ 64) * (?b mod 2 ^ 64) mod 2 ^ 64"
    using assms by (simp add: unat_word_ariths unat_toUint64_mod)
  also have "\<dots> = ?a * ?b" using assms(3) by (simp add: mod_mult_eq)
  also have "\<dots> = unat (abs256 a * abs256 b)"
    using assms(3) by (subst unat_mult_lem [THEN iffD1]) simp_all
  finally show ?thesis by (simp add: word_unat_eq_iff)
qed

lemma small_operand:
  assumes "wf256 a" and "unat (abs256 a) < 2 ^ 64"
  shows "toUint64 a < 31 \<longleftrightarrow> abs256 a < 31" and "toUint64 a < 32 \<longleftrightarrow> abs256 a < 32"
  by (simp_all add: word_less_nat_alt unat_toUint64 [OF assms])

lemma bytes_eq_iff: "wf256 a \<Longrightarrow> wf256 b \<Longrightarrow> bytes a = bytes b \<longleftrightarrow> abs256 a = abs256 b"
  by (auto simp: abs256_inject)

lemma div_eval:
  assumes "vm_stack s = a # b # st" "length (vm_stack s) \<le> MAX_STACK_SIZE" "wf256 a" "wf256 b"
    "unat (abs256 a) < 2 ^ 64" "unat (abs256 b) < 2 ^ 64"
  shows "\<exists>w. op_DIV s = (Ret (), s\<lparr>vm_stack := w # st\<rparr>) \<and> wf256 w \<and>
      abs256 w = (if abs256 b = 0 then 0 else abs256 a div abs256 b)"
    and "\<exists>w. op_MOD s = (Ret (), s\<lparr>vm_stack := w # st\<rparr>) \<and> wf256 w \<and>
      abs256 w = (if abs256 b = 0 then 0 else abs256 a mod abs256 b)"
proof -
  have z: "toUint64 b = 0 \<longleftrightarrow> abs256 b = 0"
    using unat_toUint64 [of b] assms by (simp add: word_unat_eq_iff)
  have "abs256 (Word256_u64 (toUint64 a div toUint64 b)) = abs256 a div abs256 b"
    "abs256 (Word256_u64 (toUint64 a mod toUint64 b)) = abs256 a mod abs256 b"
    using assms by (simp_all add: word_unat_eq_iff unat_div unat_mod unat_toUint64)
  then show "\<exists>w. op_DIV s = (Ret (), s\<lparr>vm_stack := w # st\<rparr>) \<and> wf256 w \<and>
      abs256 w = (if abs256 b = 0 then 0 else abs256 a div abs256 b)"
    and "\<exists>w. op_MOD s = (Ret (), s\<lparr>vm_stack := w # st\<rparr>) \<and> wf256 w \<and>
      abs256 w = (if abs256 b = 0 then 0 else abs256 a mod abs256 b)"
    using assms z
    by (auto simp: op_DIV_def op_MOD_def div_u64_def mod_u64_def vbind_def pop_def push_def vret_def isZero_eq
        abs256_Word256_u64)
qed

lemma dispatch_handler:
  "(opc, h) \<in> set (op_table env ctx) \<Longrightarrow> dispatch env ctx opc = h"
proof -
  assume "(opc, h) \<in> set (op_table env ctx)"
  moreover have "distinct (map fst (op_table env ctx))" by (simp add: op_table_def)
  ultimately show ?thesis by (simp add: dispatch_def)
qed

text \<open>C3. Refinement of the two-operand opcodes ADD, MUL, SUB, DIV, MOD, SIGNEXTEND, LT, GT, SLT,
  SGT, EQ, AND, OR, XOR, BYTE, SHL, SHR and SAR: on operands for which the opcode does not truncate,
  the byte loops replace the two top words by the 256-bit result of the opcode and change nothing
  else.\<close>

theorem binop_refines:
  assumes spec: "evm_binop opc = Some f" and fit: "fits64 opc (abs256 a) (abs256 b)"
    and s: "vm_stack s = a # b # st" "length (vm_stack s) \<le> 1024" and wf: "wf256 a" "wf256 b"
  shows "\<exists>w. dispatch env ctx opc s = (Ret (), s\<lparr>vm_stack := w # st\<rparr>) \<and> wf256 w \<and> abs256 w = f (abs256 a) (abs256 b)"
proof -
  have l: "length (vm_stack s) \<le> MAX_STACK_SIZE" using s by (simp add: MAX_STACK_SIZE_def)
  note ev = op2_eval [OF s(1) l]
  have d: "opc = 0x04 \<or> opc = 0x06 \<Longrightarrow> ?thesis"
    using div_eval [OF s(1) l wf] fit spec
    by (elim disjE) (auto simp: fits64_def evm_binop_def dispatch_def op_table_def)
  have o: "opc \<notin> {0x04, 0x06} \<Longrightarrow> ?thesis"
    using spec fit wf unfolding evm_binop_def
    by (simp split: if_splits) (auto simp: dispatch_def op_table_def fits64_def ev
      op_ADD_def op_MUL_def op_SUB_def op_SIGNEXTEND_def op_LT_def op_GT_def op_SLT_def op_SGT_def op_EQ_def op_AND_def
      op_OR_def op_XOR_def op_BYTE_def op_SHL_def op_SHR_def op_SAR_def mul_u64 bytes_eq_iff small_operand unat_toUint64
      abs256_add256 abs256_sub256 abs256_signextend256 signextend256_ge lt256_eq gt256_eq slt256_eq sgt256_eq
      abs256_and256 abs256_or256 abs256_xor256 abs256_byte256 abs256_shl256 abs256_shr256 abs256_sar256)
  show ?thesis using d o by blast
qed



theorem binop_refines_witness:
  "\<exists>w. dispatch demo_env (demo_ctx [] 0 True) 0x1b (demo_state [Word256_u64 4, Word256_u64 3]) =
       (Ret (), demo_state [w]) \<and> wf256 w \<and> abs256 w = 48"
  using binop_refines [of "0x1b" "\<lambda>s v. push_bit (unat s) v" "Word256_u64 4" "Word256_u64 3"
      "demo_state [Word256_u64 4, Word256_u64 3]" "[]" demo_env "demo_ctx [] 0 True"]
  by (simp add: evm_binop_def fits64_def abs256_Word256_u64)

subsection \<open>Signed division\<close>

lemma signBit256_sint: "wf256 w \<Longrightarrow> signBit256 w \<longleftrightarrow> sint (abs256 w) < 0"
proof -
  assume wf: "wf256 w"
  define X where "X = uint (abs256 w)"
  have "0 \<le> X" "X < 2 ^ 256" using uint_lt2p [of "abs256 w"] by (simp_all add: X_def)
  then show ?thesis
    unfolding signBit256_eq [OF wf] sint_256 bit_255_iff X_def [symmetric] by auto
qed

definition mag256 :: "word256 \<Rightarrow> word256" where
  "mag256 w = (if signBit256 w then neg256 w else w)"

lemma wf256_mag [simp]: "wf256 w \<Longrightarrow> wf256 (mag256 w)"
  by (simp add: mag256_def)

lemma uint_mag256: "wf256 w \<Longrightarrow> uint (abs256 (mag256 w)) = \<bar>sint (abs256 w)\<bar>"
proof -
  assume wf: "wf256 w"
  define X where "X = uint (abs256 w)"
  have b: "0 \<le> X" "X < 2 ^ 256" using uint_lt2p [of "abs256 w"] by (simp_all add: X_def)
  show ?thesis
  proof (cases "2 ^ 255 \<le> X")
    case True
    have "uint (- abs256 w) = (- X) mod 2 ^ 256" by (simp add: uint_word_ariths X_def)
    also have "\<dots> = 2 ^ 256 - X" using b True by (simp add: zmod_zminus1_eq_if)
    finally show ?thesis
      using True b wf by (simp add: mag256_def signBit256_eq bit_255_iff sint_256 abs256_neg256 flip: X_def)
  next
    case False
    then show ?thesis
      using b wf by (simp add: mag256_def signBit256_eq bit_255_iff sint_256 flip: X_def)
  qed
qed

lemma uint_toUint64_mag:
  assumes "wf256 w" and "\<bar>sint (abs256 w)\<bar> < 2 ^ 64"
  shows "uint (toUint64 (mag256 w)) = \<bar>sint (abs256 w)\<bar>"
  using assms uint_mag256 [OF assms(1)]
  by (simp add: toUint64_eq unsigned_ucast_eq take_bit_int_eq_self)

lemma sint_u64_word: "sint (abs256 (Word256_u64 v)) = uint v"
proof -
  have u: "uint (abs256 (Word256_u64 v)) = uint v" using uint_lt2p [of v]
    by (simp add: abs256_Word256_u64 unsigned_ucast_eq take_bit_int_eq_self)
  then show ?thesis using uint_lt2p [of v] by (simp add: sint_256 bit_255_iff)
qed

lemma sint_neg_u64_word: "sint (abs256 (neg256 (Word256_u64 v))) = - uint v"
proof -
  define X where "X = uint v"
  have b: "0 \<le> X" "X < 2 ^ 64" using uint_lt2p [of v] by (simp_all add: X_def)
  have u: "uint (abs256 (Word256_u64 v)) = X" using uint_lt2p [of v]
    by (simp add: abs256_Word256_u64 unsigned_ucast_eq take_bit_int_eq_self X_def)
  then have "uint (- abs256 (Word256_u64 v)) = (- X) mod 2 ^ 256" by (simp add: uint_word_ariths)
  also have "\<dots> = (if X = 0 then 0 else 2 ^ 256 - X)" using b by (simp add: zmod_zminus1_eq_if)
  finally show ?thesis using b by (simp add: sint_256 bit_255_iff abs256_neg256 flip: X_def)
qed

lemma op_SDIV_mag:
  "op_SDIV = vbind pop (\<lambda>a. vbind pop (\<lambda>b. if isZero b then push (Word256_u64 0)
     else vbind (div_u64 (toUint64 (mag256 a)) (toUint64 (mag256 b))) (\<lambda>q.
       push (if signBit256 a \<noteq> signBit256 b \<and> q \<noteq> 0 then neg256 (Word256_u64 q) else Word256_u64 q))))"
  unfolding op_SDIV_def mag256_def Let_def by (rule refl)

lemma op_SMOD_mag:
  "op_SMOD = vbind pop (\<lambda>a. vbind pop (\<lambda>b. if isZero b then push (Word256_u64 0)
     else vbind (mod_u64 (toUint64 (mag256 a)) (toUint64 (mag256 b))) (\<lambda>r.
       push (if signBit256 a \<and> r \<noteq> 0 then neg256 (Word256_u64 r) else Word256_u64 r))))"
  unfolding op_SMOD_def mag256_def Let_def by (rule refl)

lemma sdiv_cases: "(x :: int) sdiv y = (if (x < 0) \<noteq> (y < 0) then - (\<bar>x\<bar> div \<bar>y\<bar>) else \<bar>x\<bar> div \<bar>y\<bar>)"
  by (cases "x = 0"; cases "y = 0") (simp_all add: signed_divide_int_def sgn_if)

lemma smod_cases: "(x :: int) smod y = (if x < 0 then - (\<bar>x\<bar> mod \<bar>y\<bar>) else \<bar>x\<bar> mod \<bar>y\<bar>)"
  by (cases "x = 0") (simp_all add: signed_modulo_int_def sgn_if)

text \<open>C25. SDIV and SMOD are the truncating division and remainder of the signed operands, for
  operands of magnitude below \<open>2 ^ 64\<close>; a zero divisor gives zero.\<close>

theorem signed_division:
  assumes s: "vm_stack s = a # b # st" "length (vm_stack s) \<le> 1024" and wf: "wf256 a" "wf256 b"
    and a: "\<bar>sint (abs256 a)\<bar> < 2 ^ 64" and b: "\<bar>sint (abs256 b)\<bar> < 2 ^ 64"
  shows "(\<exists>w. op_SDIV s = (Ret (), s\<lparr>vm_stack := w # st\<rparr>) \<and> wf256 w \<and>
      sint (abs256 w) = sint (abs256 a) sdiv sint (abs256 b)) \<and>
    (\<exists>w. op_SMOD s = (Ret (), s\<lparr>vm_stack := w # st\<rparr>) \<and> wf256 w \<and>
      sint (abs256 w) = (if sint (abs256 b) = 0 then 0 else sint (abs256 a) smod sint (abs256 b)))"
proof -
  let ?x = "sint (abs256 a)" and ?y = "sint (abs256 b)"
  have l: "length (vm_stack s) \<le> MAX_STACK_SIZE" using s by (simp add: MAX_STACK_SIZE_def)
  have z: "isZero b \<longleftrightarrow> ?y = 0" using wf by (simp add: isZero_eq signed_eq_0_iff)
  have v: "toUint64 (mag256 b) = 0 \<longleftrightarrow> ?y = 0"
    using uint_toUint64_mag [OF wf(2) b] by (metis abs_eq_0_iff uint_0_iff)
  define q r where "q = toUint64 (mag256 a) div toUint64 (mag256 b)" and "r = toUint64 (mag256 a) mod toUint64 (mag256 b)"
  have q: "uint q = \<bar>?x\<bar> div \<bar>?y\<bar>" and r: "uint r = \<bar>?x\<bar> mod \<bar>?y\<bar>"
    using uint_toUint64_mag [OF wf(1) a] uint_toUint64_mag [OF wf(2) b] by (simp_all add: q_def r_def uint_div uint_mod)
  show ?thesis
  proof (cases "?y = 0")
    case True
    then show ?thesis using z l s
      by (intro conjI exI [of _ "Word256_u64 0"])
        (simp_all add: op_SDIV_def op_SMOD_def vbind_def pop_def push_def sint_u64_word signed_divide_int_def)
  next
    case False
    have D: "op_SDIV s = (Ret (), s\<lparr>vm_stack :=
        (if (?x < 0) \<noteq> (?y < 0) \<and> q \<noteq> 0 then neg256 (Word256_u64 q) else Word256_u64 q) # st\<rparr>)"
      using False z v l s wf
      by (simp add: op_SDIV_mag vbind_def pop_def push_def div_u64_def vret_def q_def signBit256_sint)
    have M: "op_SMOD s = (Ret (), s\<lparr>vm_stack :=
        (if ?x < 0 \<and> r \<noteq> 0 then neg256 (Word256_u64 r) else Word256_u64 r) # st\<rparr>)"
      using False z v l s wf
      by (simp add: op_SMOD_mag vbind_def pop_def push_def mod_u64_def vret_def r_def signBit256_sint)
    have "q = 0 \<longleftrightarrow> \<bar>?x\<bar> div \<bar>?y\<bar> = 0" "r = 0 \<longleftrightarrow> \<bar>?x\<bar> mod \<bar>?y\<bar> = 0" 
      using q r uint_0_iff [of q] uint_0_iff [of r] by auto
    then show ?thesis
      unfolding D M sdiv_cases smod_cases using False wf
      by (intro conjI exI [of _ "if (?x < 0) \<noteq> (?y < 0) \<and> q \<noteq> 0 then neg256 (Word256_u64 q) else Word256_u64 q"]
          exI [of _ "if ?x < 0 \<and> r \<noteq> 0 then neg256 (Word256_u64 r) else Word256_u64 r"])
        (simp_all add: sint_u64_word sint_neg_u64_word q r)
  qed
qed

theorem signed_division_witness:
  "\<exists>w. op_SDIV (demo_state [neg256 (Word256_u64 7), Word256_u64 2]) = (Ret (), demo_state [w]) \<and> sint (abs256 w) = - 3"
  using signed_division [of "demo_state [neg256 (Word256_u64 7), Word256_u64 2]" "neg256 (Word256_u64 7)" "Word256_u64 2" "[]"]
  by (auto simp: sint_u64_word sint_neg_u64_word sdiv_cases)

text \<open>C26. DIV tests the whole divisor for zero but divides by its low 64 bits: the division by
  zero is undefined behaviour exactly for the non-zero divisors that are multiples of \<open>2 ^ 64\<close>.\<close>

theorem division_undefined:
  assumes s: "vm_stack s = a # b # st" and wf: "wf256 a" "wf256 b"
  shows "op_DIV s = (Undefined Division_by_zero, s\<lparr>vm_stack := st\<rparr>) \<longleftrightarrow>
      abs256 b \<noteq> 0 \<and> take_bit 64 (abs256 b) = 0"
proof -
  have "toUint64 b = 0 \<longleftrightarrow> take_bit 64 (abs256 b) = 0"
    using wf by (simp add: toUint64_eq word_unat_eq_iff unsigned_ucast_eq unsigned_take_bit_eq)
  then show ?thesis
    using s wf by (auto simp: op_DIV_def vbind_def pop_def push_def div_u64_def vundefined_def vret_def isZero_eq)
qed

theorem division_undefined_witness:
  "op_DIV (demo_state [Word256_u64 1, shl256 64 (Word256_u64 1)]) = (Undefined Division_by_zero, demo_state [])"
  using division_undefined [of "demo_state [Word256_u64 1, shl256 64 (Word256_u64 1)]" "Word256_u64 1" "shl256 64 (Word256_u64 1)" "[]"]
  by (simp add: abs256_shl256 abs256_Word256_u64 push_bit_eq_mult)

text \<open>ISZERO and NOT on 256-bit words.\<close>

theorem unop_refines:
  assumes s: "vm_stack s = a # st" "length (vm_stack s) \<le> 1024" and wf: "wf256 a"
  shows "(\<exists>w. dispatch env ctx 0x15 s = (Ret (), s\<lparr>vm_stack := w # st\<rparr>) \<and> wf256 w \<and> abs256 w = of_bool (abs256 a = 0)) \<and>
    (\<exists>w. dispatch env ctx 0x19 s = (Ret (), s\<lparr>vm_stack := w # st\<rparr>) \<and> wf256 w \<and> abs256 w = NOT (abs256 a))"
proof -
  have l: "length (vm_stack s) \<le> MAX_STACK_SIZE" using s by (simp add: MAX_STACK_SIZE_def)
  show ?thesis
    using wf by (auto simp: dispatch_def op_table_def op_ISZERO_def op_NOT_def op1_eval [OF s(1) l] isZero_eq abs256_not256)
qed

theorem unop_refines_witness:
  "\<exists>w. dispatch demo_env (demo_ctx [] 0 True) 0x19 (demo_state [Word256_u64 0]) = (Ret (), demo_state [w]) \<and> abs256 w = - 1"
  using unop_refines [of "demo_state [Word256_u64 0]" "Word256_u64 0" "[]" demo_env "demo_ctx [] 0 True"]
  by (auto simp: abs256_Word256_u64)

text \<open>EXP by repeated squaring yields the power of the low 64 bits modulo \<open>2 ^ 64\<close>, and the
  exact power when it and the operands fit in 64 bits.\<close>

theorem exp_value:
  assumes s: "vm_stack s = a # b # st" "length (vm_stack s) \<le> 1024" and wf: "wf256 a" "wf256 b"
    and r: "op_EXP ctx s = (Ret (), s')"
  shows "vm_stack s' = Word256_u64 (toUint64 a ^ unat (toUint64 b)) # st \<and>
    (unat (abs256 a) ^ unat (abs256 b) < 2 ^ 64 \<and> unat (abs256 a) < 2 ^ 64 \<and> unat (abs256 b) < 2 ^ 64 \<longrightarrow>
      unat (abs256 (hd (vm_stack s'))) = unat (abs256 a) ^ unat (abs256 b))"
proof -
  have e: "vm_stack s' = Word256_u64 (toUint64 a ^ unat (toUint64 b)) # st"
    using r s by (auto simp: op_EXP_def vbind_def useGas_def pop_def push_def Let_def pow_loop_eq split: if_splits)
  have "unat (x ^ n :: u64) = unat x ^ n mod 2 ^ 64" for x n
    by (induction n) (simp_all add: unat_word_ariths mod_mult_right_eq)
  then show ?thesis using e wf by (auto simp: unat_toUint64)
qed


theorem exp_value_witness:
  "\<exists>s'. op_EXP (demo_ctx [] 1000 True) (demo_state [Word256_u64 3, Word256_u64 5]) = (Ret (), s') \<and>
     unat (abs256 (hd (vm_stack s'))) = 243"
proof -
  have e: "expBytes_from 0 (bytes (Word256_u64 5)) = 1"
    by (simp add: expBytes_from.simps Word256_u64_def u64_loop.simps nth_list_update)
  obtain s' where s': "op_EXP (demo_ctx [] 1000 True) (demo_state [Word256_u64 3, Word256_u64 5]) = (Ret (), s')"
    using e by (auto simp: op_EXP_def vbind_def useGas_def pop_def push_def Let_def init_vm_def MAX_STACK_SIZE_def)
  from exp_value [OF _ _ _ _ this, of "Word256_u64 3" "Word256_u64 5" "[]"] s' show ?thesis
    by auto
qed

subsection \<open>Memory\<close>

lemma expandMemory_noop: "unat sz \<le> length (vm_memory s) \<Longrightarrow> expandMemory ctx sz s = (Ret (), s)"
  by (simp add: expandMemory_def)

text \<open>A word stored in memory is read back from the same offset, at no further memory cost.\<close>

theorem mload_mstore:
  assumes "mstore ctx off w s = (Ret (), s')" and "wf256 w"
  shows "mload ctx off s' = (Ret w, s')"
proof -
  obtain t where t: "expandMemory ctx (off + 32) s = (Ret (), t)" "unat off + 32 \<le> length (vm_memory t)"
    "s' = t\<lparr>vm_memory := memcpy (vm_memory t) (unat off) (bytes w) 32\<rparr>"
    using assms(1) by (auto simp: mstore_def vbind_def split: prod.splits outcome.splits if_splits)
  have l: "length (vm_memory s') = length (vm_memory t)" using t assms(2) by (simp add: wf256_def)
  have "take 32 (drop (unat off) (vm_memory s')) = bytes w"
    using t assms(2) memcpy_window [of "unat off" 32 "vm_memory t" "bytes w"] by (simp add: wf256_def)
  moreover have "unat (off + 32) \<le> length (vm_memory s')" using expandMemory_covers [OF t(1)] l by simp
  ultimately show ?thesis using t(2) l by (simp add: mload_def vbind_def expandMemory_noop)
qed

theorem mload_mstore_witness:
  "\<exists>s'. mstore (demo_ctx [] 100 True) 0 (Word256_u64 7) (demo_state []) = (Ret (), s') \<and>
     mload (demo_ctx [] 100 True) 0 s' = (Ret (Word256_u64 7), s')"
proof -
  obtain s' where "mstore (demo_ctx [] 100 True) 0 (Word256_u64 7) (demo_state []) = (Ret (), s')"
    by (auto simp: mstore_def expandMemory_def vbind_def useGas_def vmodify_def init_vm_def MAX_MEMORY_SIZE_def Let_def)
  with mload_mstore [OF this] show ?thesis by auto
qed

end
