(* ===== verification/Streams.thy ===== *)
theory Streams
  imports HTH_Prelude
begin

text \<open>
  The double-ended buffer \<open>CDataStream\<close> of \<open>src/src/streams.h\<close>: a byte vector and a 32-bit read
  position.  \<open>content\<close> is the part not yet read.  The locale \<open>byte_stream\<close> is what the serialization
  templates need of a stream, and \<open>CDataStream\<close> is an interpretation of it for buffers below 2 GB.
\<close>

unbundle bit_operations_syntax

datatype ser_error = Ios_failure string | Read_out_of_bounds

record data_stream =
  vch :: bytes
  nReadPos :: u32

definition content :: "data_stream \<Rightarrow> bytes" where
  "content s = drop (unat (nReadPos s)) (vch s)"

definition ds_wf :: "data_stream \<Rightarrow> bool" where
  "ds_wf s \<longleftrightarrow> unat (nReadPos s) \<le> length (vch s) \<and> length (vch s) < 2 ^ 31"

definition ds_new :: "bytes \<Rightarrow> data_stream" where
  "ds_new d = \<lparr>vch = d, nReadPos = 0\<rparr>"

definition ds_size :: "data_stream \<Rightarrow> nat" where
  "ds_size s = length (vch s) - unat (nReadPos s)"

definition ds_eof :: "data_stream \<Rightarrow> bool" where
  "ds_eof s \<longleftrightarrow> ds_size s = 0"

definition ds_clear :: "data_stream \<Rightarrow> data_stream" where
  "ds_clear s = s\<lparr>vch := [], nReadPos := 0\<rparr>"

text \<open>\<open>read(pch, nSize)\<close>: the bytes copied to \<open>pch\<close> and the stream afterwards.\<close>

definition ds_read :: "nat \<Rightarrow> data_stream \<Rightarrow> ser_error + (bytes \<times> data_stream)" where
  "ds_read nSize s =
     (if nSize = 0 then Inr ([], s)
      else let pos = unat (nReadPos s);
               nReadPosNext = of_nat (pos + nSize) :: u32;
               out = take nSize (drop pos (vch s))
           in if length (vch s) \<le> unat nReadPosNext
              then if length (vch s) < unat nReadPosNext
                   then Inl (Ios_failure ''CDataStream::read(): end of data'')
                   else if length out < nSize then Inl Read_out_of_bounds
                   else Inr (out, s\<lparr>vch := [], nReadPos := 0\<rparr>)
              else if length out < nSize then Inl Read_out_of_bounds
              else Inr (out, s\<lparr>nReadPos := nReadPosNext\<rparr>))"

definition ds_ignore :: "int \<Rightarrow> data_stream \<Rightarrow> ser_error + data_stream" where
  "ds_ignore nSize s =
     (if nSize < 0 then Inl (Ios_failure ''CDataStream::ignore(): nSize negative'')
      else let nReadPosNext = of_nat (unat (nReadPos s) + nat nSize) :: u32
           in if length (vch s) \<le> unat nReadPosNext
              then if length (vch s) < unat nReadPosNext
                   then Inl (Ios_failure ''CDataStream::ignore(): end of data'')
                   else Inr (s\<lparr>nReadPos := 0, vch := []\<rparr>)
              else Inr (s\<lparr>nReadPos := nReadPosNext\<rparr>))"

definition ds_write :: "bytes \<Rightarrow> data_stream \<Rightarrow> data_stream" where
  "ds_write d s = s\<lparr>vch := vch s @ d\<rparr>"

text \<open>\<open>insert(it, first, last)\<close>; the iterator is an index into \<open>vch\<close>.\<close>

definition ds_insert :: "nat \<Rightarrow> bytes \<Rightarrow> data_stream \<Rightarrow> data_stream" where
  "ds_insert it d s =
     (if d = [] then s
      else if it = unat (nReadPos s) \<and> of_nat (length d) \<le> nReadPos s
      then let p = nReadPos s - of_nat (length d)
           in s\<lparr>nReadPos := p, vch := memcpy (vch s) (unat p) d (length d)\<rparr>
      else s\<lparr>vch := take it (vch s) @ d @ drop it (vch s)\<rparr>)"

text \<open>\<open>erase(first, last)\<close>.\<close>

definition ds_erase :: "nat \<Rightarrow> nat \<Rightarrow> data_stream \<Rightarrow> data_stream" where
  "ds_erase first last' s =
     (if first = unat (nReadPos s)
      then if last' = length (vch s) then s\<lparr>nReadPos := 0, vch := []\<rparr>
           else s\<lparr>nReadPos := of_nat last'\<rparr>
      else s\<lparr>vch := take first (vch s) @ drop last' (vch s)\<rparr>)"

definition ds_Compact :: "data_stream \<Rightarrow> data_stream" where
  "ds_Compact s = s\<lparr>vch := drop (unat (nReadPos s)) (vch s), nReadPos := 0\<rparr>"

definition ds_Rewind :: "nat \<Rightarrow> data_stream \<Rightarrow> bool \<times> data_stream" where
  "ds_Rewind n s =
     (if unat (nReadPos s) < n then (False, s)
      else (True, s\<lparr>nReadPos := nReadPos s - of_nat n\<rparr>))"

text \<open>\<open>Xor(key)\<close>: the loop runs over \<open>size()\<close> bytes from the start of \<open>vch\<close>, with the key index kept
  by wrapping instead of a remainder.\<close>

fun xor_loop :: "nat \<Rightarrow> nat \<Rightarrow> nat \<Rightarrow> bytes \<Rightarrow> bytes \<Rightarrow> bytes" where
  "xor_loop 0 i j key v = v"
| "xor_loop (Suc n) i j key v =
     (let v' = v[i := (v ! i) XOR (key ! j)];
          j' = (if j + 1 = length key then 0 else j + 1)
      in xor_loop n (i + 1) j' key v')"

definition ds_Xor :: "bytes \<Rightarrow> data_stream \<Rightarrow> data_stream" where
  "ds_Xor key s = (if key = [] then s else s\<lparr>vch := xor_loop (ds_size s) 0 0 key (vch s)\<rparr>)"

subsection \<open>The stream interface\<close>

locale byte_stream =
  fixes rd :: "nat \<Rightarrow> 's \<Rightarrow> ser_error + (bytes \<times> 's)"
    and wr :: "bytes \<Rightarrow> 's \<Rightarrow> 's"
    and left :: "'s \<Rightarrow> bytes"
    and ok :: "'s \<Rightarrow> bool"
    and end_of_data :: ser_error
    and room :: "'s \<Rightarrow> nat \<Rightarrow> bool"
  assumes rd_enough: "ok s \<Longrightarrow> n \<le> length (left s) \<Longrightarrow>
      \<exists>s'. rd n s = Inr (take n (left s), s') \<and> left s' = drop n (left s) \<and> ok s'"
    and rd_short: "ok s \<Longrightarrow> length (left s) < n \<Longrightarrow> n < 2 ^ 31 \<Longrightarrow> rd n s = Inl end_of_data"
    and wr_left: "ok s \<Longrightarrow> room s (length d) \<Longrightarrow> left (wr d s) = left s @ d"
    and wr_ok: "ok s \<Longrightarrow> room s (length d) \<Longrightarrow> ok (wr d s)"
begin

lemma rd_back:
  assumes "ok s" and "left s = d @ rest"
  shows "\<exists>s'. rd (length d) s = Inr (d, s') \<and> left s' = rest \<and> ok s'"
  using rd_enough [of s "length d"] assms by simp

lemma rd_twice:
  assumes "ok s" and "n + m \<le> length (left s)"
  shows "\<exists>s' s''. rd n s = Inr (take n (left s), s') \<and> rd m s' = Inr (take m (drop n (left s)), s'') \<and>
    left s'' = drop (n + m) (left s)"
proof -
  obtain s' where s': "rd n s = Inr (take n (left s), s')" "left s' = drop n (left s)" "ok s'"
    using rd_enough [of s n] assms by auto
  moreover obtain s'' where "rd m s' = Inr (take m (left s'), s'')" "left s'' = drop m (left s')"
    using rd_enough [of s' m] s' assms by fastforce
  ultimately show ?thesis by (auto simp: add.commute)
qed

lemma wr_rd:
  assumes "ok s" and "left s = []" and "room s (length d)"
  shows "\<exists>s'. rd (length d) (wr d s) = Inr (d, s') \<and> left s' = []"
  using rd_back [of "wr d s" d "[]"] wr_left [of s d] wr_ok [of s d] assms by auto

end


lemma unat_u32_of_nat: "n < 2 ^ 32 \<Longrightarrow> unat (of_nat n :: u32) = n"
  by (simp add: unat_of_nat)

lemma length_content: "ds_wf s \<Longrightarrow> length (content s) = ds_size s"
  by (simp add: content_def ds_size_def)

interpretation cds: byte_stream ds_read ds_write content ds_wf
  "Ios_failure ''CDataStream::read(): end of data''" "\<lambda>s n. length (vch s) + n < 2 ^ 31"
proof
  fix s :: data_stream and n :: nat
  assume ok: "ds_wf s" and n: "n \<le> length (content s)"
  then have "unat (of_nat (unat (nReadPos s) + n) :: u32) = unat (nReadPos s) + n"
    by (intro unat_u32_of_nat) (auto simp: ds_wf_def content_def)
  then show "\<exists>s'. ds_read n s = Inr (take n (content s), s') \<and> content s' = drop n (content s) \<and> ds_wf s'"
    using ok n by (auto simp: ds_read_def content_def ds_wf_def Let_def add.commute)
next
  fix s :: data_stream and n :: nat
  assume ok: "ds_wf s" and n: "length (content s) < n" "n < 2 ^ 31"
  then have "unat (of_nat (unat (nReadPos s) + n) :: u32) = unat (nReadPos s) + n"
    by (intro unat_u32_of_nat) (simp add: ds_wf_def content_def)
  then show "ds_read n s = Inl (Ios_failure ''CDataStream::read(): end of data'')"
    using ok n by (auto simp: ds_read_def content_def ds_wf_def Let_def)
qed (auto simp: ds_write_def content_def ds_wf_def)

subsection \<open>Front insertion, erasure, rewinding\<close>

lemma content_ds_insert:
  assumes "ds_wf s" and "length d < 2 ^ 32"
  shows "content (ds_insert (unat (nReadPos s)) d s) = d @ content s"
proof (cases "d = [] \<or> \<not> of_nat (length d) \<le> nReadPos s")
  case True
  then show ?thesis using assms by (auto simp: ds_insert_def content_def ds_wf_def)
next
  case False
  then have le: "length d \<le> unat (nReadPos s)" and l: "unat (of_nat (length d) :: u32) = length d"
    using assms by (simp_all add: word_le_nat_alt unat_of_nat)
  then have "unat (nReadPos s - of_nat (length d)) = unat (nReadPos s) - length d"
    using False by (simp add: unat_sub word_le_nat_alt)
  moreover have "min (length (vch s)) (unat (nReadPos s) - length d) = unat (nReadPos s) - length d"
    using assms by (auto simp: ds_wf_def)
  ultimately show ?thesis using False le by (simp add: ds_insert_def content_def Let_def memcpy_def)
qed

lemma content_ds_erase:
  assumes "ds_wf s" and "unat (nReadPos s) \<le> l" and "l \<le> length (vch s)"
  shows "content (ds_erase (unat (nReadPos s)) l s) = drop l (vch s)"
proof -
  have "unat (of_nat l :: u32) = l" using assms by (intro unat_u32_of_nat) (simp add: ds_wf_def)
  then show ?thesis by (simp add: ds_erase_def content_def)
qed

lemma content_ds_Compact: "content (ds_Compact s) = content s"
  by (simp add: ds_Compact_def content_def)

lemma ds_read_Rewind:
  assumes "ds_wf s" and "ds_read n s = Inr (d, s')" and "vch s' \<noteq> []"
  shows "ds_Rewind n s' = (True, s)"
proof -
  have "n = 0 \<or> unat (nReadPos s) + n \<le> length (vch s)"
    using assms by (auto simp: ds_read_def Let_def ds_wf_def split: if_splits)
  then have n: "unat (of_nat (unat (nReadPos s) + n) :: u32) = unat (nReadPos s) + n \<or> n = 0"
    using assms(1) by (auto simp: ds_wf_def intro!: unat_u32_of_nat simp del: of_nat_add)
  show ?thesis
    using assms n by (auto simp: ds_read_def ds_Rewind_def Let_def split: if_splits)
qed


subsection \<open>Obfuscation\<close>

lemma length_xor_loop [simp]: "length (xor_loop n i j key v) = length v"
  by (induction n i j key v rule: xor_loop.induct) (auto simp: Let_def)

lemma nth_xor_loop:
  "key \<noteq> [] \<Longrightarrow> j = i mod length key \<Longrightarrow> i + n \<le> length v \<Longrightarrow> k < length v \<Longrightarrow>
   xor_loop n i j key v ! k = (if i \<le> k \<and> k < i + n then v ! k XOR key ! (k mod length key) else v ! k)"
proof (induction n i j key v rule: xor_loop.induct)
  case (1 i j key v)
  then show ?case by auto
next
  case (2 n i j key v)
  have "(if j + 1 = length key then 0 else j + 1) = (i + 1) mod length key"
    using 2(2,3) by (auto simp: mod_Suc)
  then show ?case
    using 2 by (cases "k = i") (auto simp: Let_def nth_list_update)
qed

text \<open>The key schedule is the remainder, and obfuscating twice gives the data back.\<close>

lemma xor_loop_eq:
  assumes "key \<noteq> []"
  shows "xor_loop (length v) 0 0 key v = map (\<lambda>k. v ! k XOR key ! (k mod length key)) [0..<length v]"
  by (rule nth_equalityI) (simp_all add: nth_xor_loop assms)

lemma ds_Xor_twice:
  assumes "nReadPos s = 0"
  shows "ds_Xor key (ds_Xor key s) = s"
proof (cases "key = []")
  case True
  then show ?thesis by (simp add: ds_Xor_def)
next
  case False
  have "map (\<lambda>k. map (\<lambda>k. vch s ! k XOR key ! (k mod length key)) [0..<length (vch s)] ! k XOR key ! (k mod length key))
      [0..<length (vch s)] = vch s"
    by (rule nth_equalityI) (simp_all add: xor.assoc)
  then show ?thesis
    using False assms xor_loop_eq [OF False, of "vch s"]
      xor_loop_eq [OF False, of "xor_loop (length (vch s)) 0 0 key (vch s)"]
    by (simp add: ds_Xor_def ds_size_def)
qed

text \<open>\<open>CDataStream\<close> is a queue of bytes: what is written is read back, reading two blocks in a
  row reads consecutive bytes, data put back at the front is read next, and obfuscating an unread
  stream twice with the same key restores it.\<close>

theorem data_stream_queue:
  assumes "ds_wf s" and "length (vch s) + length d < 2 ^ 31"
  shows "(\<exists>t t'. ds_read (length (content s)) (ds_write d s) = Inr (content s, t) \<and>
       ds_read (length d) t = Inr (d, t') \<and> content t' = []) \<and>
    content (ds_insert (unat (nReadPos s)) d s) = d @ content s \<and>
    (nReadPos s = 0 \<longrightarrow> ds_Xor key (ds_Xor key s) = s)"
proof -
  have l: "content (ds_write d s) = content s @ d" "ds_wf (ds_write d s)"
    using cds.wr_left [of s d] cds.wr_ok [of s d] assms by auto
  then obtain t where t: "ds_read (length (content s)) (ds_write d s) = Inr (content s, t)" "content t = d" "ds_wf t"
    using cds.rd_back [of "ds_write d s" "content s" d] by auto
  then obtain t' where "ds_read (length d) t = Inr (d, t')" "content t' = []"
    using cds.rd_back [of t d "[]"] by auto
  with t show ?thesis using content_ds_insert [of s d] assms ds_Xor_twice [of s key] by auto
qed

theorem data_stream_queue_witness:
  "content (ds_insert 1 [7] \<lparr>vch = [1, 2, 3], nReadPos = 1\<rparr>) = [7, 2, 3]"
  using data_stream_queue [of "\<lparr>vch = [1, 2, 3], nReadPos = 1\<rparr>" "[7]" "[]"]
  by (simp add: ds_wf_def content_def)

end
