(* ===== verification/Serialize.thy ===== *)
theory Serialize
  imports Streams
begin

text \<open>
  The serialization templates of \<open>src/src/serialize.h\<close>: fixed-width little-endian integers, compact
  sizes, variable-length integers, byte vectors, generic vectors, strings, pairs and the bit-set
  wrappers.  A writer is the list of bytes it appends to the stream, a reader consumes the bytes
  that are left of a stream and fails with the exception the C++ code throws.
\<close>

unbundle bit_operations_syntax

type_synonym 'a reader = "bytes \<Rightarrow> ser_error + ('a \<times> bytes)"

definition rbind :: "'a reader \<Rightarrow> ('a \<Rightarrow> 'b reader) \<Rightarrow> 'b reader" where
  "rbind m f s = (case m s of Inl e \<Rightarrow> Inl e | Inr (x, s') \<Rightarrow> f x s')"

definition rret :: "'a \<Rightarrow> 'a reader" where
  "rret x s = Inr (x, s)"

definition rfail :: "string \<Rightarrow> 'a reader" where
  "rfail msg s = Inl (Ios_failure msg)"

lemma rbind_Inr [simp]: "m s = Inr (x, s') \<Longrightarrow> rbind m f s = f x s'"
  by (simp add: rbind_def)

lemma rbind_Inl [simp]: "m s = Inl e \<Longrightarrow> rbind m f s = Inl e"
  by (simp add: rbind_def)

definition MAX_SIZE :: nat where
  "MAX_SIZE = 0x02000000"

subsection \<open>Fixed-width integers\<close>

definition le_bytes :: "nat \<Rightarrow> 'a::len word \<Rightarrow> bytes" where
  "le_bytes n w = map (\<lambda>i. ucast (drop_bit (8 * i) w)) [0..<n]"

definition read_bytes :: "nat \<Rightarrow> bytes reader" where
  "read_bytes n s =
     (if length s < n then Inl (Ios_failure ''CDataStream::read(): end of data'')
      else Inr (take n s, drop n s))"

definition ser_writedata8 :: "byte \<Rightarrow> bytes" where
  "ser_writedata8 obj = [obj]"

definition ser_writedata16 :: "u16 \<Rightarrow> bytes" where
  "ser_writedata16 obj = le_bytes 2 obj"

definition ser_writedata32 :: "u32 \<Rightarrow> bytes" where
  "ser_writedata32 obj = le_bytes 4 obj"

definition ser_writedata32be :: "u32 \<Rightarrow> bytes" where
  "ser_writedata32be obj = rev (le_bytes 4 obj)"

definition ser_writedata64 :: "u64 \<Rightarrow> bytes" where
  "ser_writedata64 obj = le_bytes 8 obj"

definition ser_readdata8 :: "byte reader" where
  "ser_readdata8 = rbind (read_bytes 1) (\<lambda>b. rret (hd b))"

definition ser_readdata16 :: "u16 reader" where
  "ser_readdata16 = rbind (read_bytes 2) (\<lambda>b. rret (of_nat (le_val b)))"

definition ser_readdata32 :: "u32 reader" where
  "ser_readdata32 = rbind (read_bytes 4) (\<lambda>b. rret (of_nat (le_val b)))"

definition ser_readdata32be :: "u32 reader" where
  "ser_readdata32be = rbind (read_bytes 4) (\<lambda>b. rret (of_nat (be_val b)))"

definition ser_readdata64 :: "u64 reader" where
  "ser_readdata64 = rbind (read_bytes 8) (\<lambda>b. rret (of_nat (le_val b)))"

subsection \<open>Compact sizes\<close>

definition GetSizeOfCompactSize :: "u64 \<Rightarrow> nat" where
  "GetSizeOfCompactSize nSize =
     (if nSize < 253 then 1 else if nSize \<le> 0xFFFF then 1 + 2
      else if nSize \<le> 0xFFFFFFFF then 1 + 4 else 1 + 8)"

definition WriteCompactSize :: "u64 \<Rightarrow> bytes" where
  "WriteCompactSize nSize =
     (if nSize < 253 then ser_writedata8 (ucast nSize)
      else if nSize \<le> 0xFFFF then ser_writedata8 253 @ ser_writedata16 (ucast nSize)
      else if nSize \<le> 0xFFFFFFFF then ser_writedata8 254 @ ser_writedata32 (ucast nSize)
      else ser_writedata8 255 @ ser_writedata64 nSize)"

definition check_canonical :: "u64 \<Rightarrow> u64 \<Rightarrow> u64 reader" where
  "check_canonical bound n =
     (if n < bound then rfail ''non-canonical ReadCompactSize()''
      else if MAX_SIZE < unat n then rfail ''ReadCompactSize(): size too large'' else rret n)"

definition ReadCompactSize :: "u64 reader" where
  "ReadCompactSize = rbind ser_readdata8 (\<lambda>chSize.
     if chSize < 253 then check_canonical 0 (ucast chSize)
     else if chSize = 253 then rbind ser_readdata16 (\<lambda>n. check_canonical 253 (ucast n))
     else if chSize = 254 then rbind ser_readdata32 (\<lambda>n. check_canonical 0x10000 (ucast n))
     else rbind ser_readdata64 (\<lambda>n. check_canonical 0x100000000 n))"

subsection \<open>Variable-length integers\<close>

lemma varint_decreases:
  assumes "\<not> (n :: 'a::len word) \<le> 0x7F"
  shows "unat (drop_bit 7 n - 1) = unat n div 128 - 1" and "127 < unat n"
proof -
  have n: "unat (0x7F :: 'a word) < unat n" using assms by (simp add: word_le_nat_alt)
  show "127 < unat n"
  proof (cases "7 \<le> LENGTH('a)")
    case True
    then have "(2 :: nat) ^ 7 \<le> 2 ^ LENGTH('a)" by (rule power_increasing) simp
    then have "unat (0x7F :: 'a word) = 127" by (simp add: unsigned_numeral take_bit_nat_eq_self)
    then show ?thesis using n by simp
  next
    case False
    have "bit (0x7F :: int) k \<longleftrightarrow> k < 7" for k
    proof -
      have "(0x7F :: int) = mask 7" by (simp add: mask_eq_exp_minus_1)
      then show ?thesis by (simp only: bit_mask_iff) simp
    qed
    then have "(0x7F :: 'a word) = - 1"
      using False by (intro bit_word_eqI) (simp add: bit_simps)
    with assms have "\<not> n \<le> - 1" by (simp only: not_False_eq_True)
    then show ?thesis by simp
  qed
  then have "1 \<le> drop_bit 7 n"
    by (simp add: word_le_nat_alt unat_drop_bit_div)
  then show "unat (drop_bit 7 n - 1) = unat n div 128 - 1"
    by (simp add: unat_sub unat_drop_bit_div)
qed


function varint_loop :: "'a::len word \<Rightarrow> bytes \<Rightarrow> bytes" where
  "varint_loop n tmp =
     (let tmp' = tmp @ [ucast (n AND 0x7F) OR (if tmp \<noteq> [] then 0x80 else 0x00)]
      in if n \<le> 0x7F then tmp' else varint_loop (drop_bit 7 n - 1) tmp')"
  by pat_completeness auto
termination
proof (relation "measure (\<lambda>(n, tmp). unat n)")
  fix n :: "'a::len word" and tmp tmp' :: bytes
  assume "\<not> n \<le> 0x7F"
  from varint_decreases [OF this]
  show "((drop_bit 7 n - 1, tmp'), n, tmp) \<in> measure (\<lambda>(n, tmp). unat n)" by simp
qed simp

declare varint_loop.simps [simp del]

definition WriteVarInt :: "'a::len word \<Rightarrow> bytes" where
  "WriteVarInt n = rev (varint_loop n [])"

fun ReadVarInt_from :: "'a::len word \<Rightarrow> 'a word reader" where
  "ReadVarInt_from n [] = Inl (Ios_failure ''CDataStream::read(): end of data'')"
| "ReadVarInt_from n (chData # s) =
     (let n' = push_bit 7 n OR ucast (chData AND 0x7F)
      in if chData AND 0x80 \<noteq> 0 then ReadVarInt_from (n' + 1) s else Inr (n', s))"

definition ReadVarInt :: "'a::len word reader" where
  "ReadVarInt = ReadVarInt_from 0"

function GetSizeOfVarInt_from :: "nat \<Rightarrow> 'a::len word \<Rightarrow> nat" where
  "GetSizeOfVarInt_from nRet n =
     (if n \<le> 0x7F then nRet + 1 else GetSizeOfVarInt_from (nRet + 1) (drop_bit 7 n - 1))"
  by pat_completeness auto
termination
  by (relation "measure (\<lambda>(nRet, n). unat n)") (auto simp: varint_decreases dest: varint_decreases(2))

declare GetSizeOfVarInt_from.simps [simp del]

definition GetSizeOfVarInt :: "'a::len word \<Rightarrow> nat" where
  "GetSizeOfVarInt n = GetSizeOfVarInt_from 0 n"

subsection \<open>Vectors, strings, pairs\<close>

definition Serialize_bytes :: "bytes \<Rightarrow> bytes" where
  "Serialize_bytes v = WriteCompactSize (of_nat (length v)) @ v"

text \<open>The bytes of a vector are read in blocks of at most 5000000.\<close>

function read_blocks :: "nat \<Rightarrow> bytes \<Rightarrow> bytes reader" where
  "read_blocks nSize v s =
     (if length v < nSize
      then let blk = min (nSize - length v) (1 + 4999999)
           in (case read_bytes blk s of
                 Inl e \<Rightarrow> Inl e
               | Inr (d, s') \<Rightarrow> read_blocks nSize (v @ d) s')
      else Inr (v, s))"
  by pat_completeness auto
termination
  by (relation "measure (\<lambda>(nSize, v, s). nSize - length v)") (auto simp: read_bytes_def split: if_splits)

declare read_blocks.simps [simp del]

definition Unserialize_bytes :: "bytes reader" where
  "Unserialize_bytes = rbind ReadCompactSize (\<lambda>nSize. read_blocks (unat nSize) [])"

definition Serialize_string :: "bytes \<Rightarrow> bytes" where
  "Serialize_string str = WriteCompactSize (of_nat (length str)) @ (if str \<noteq> [] then str else [])"

definition Unserialize_string :: "bytes reader" where
  "Unserialize_string = rbind ReadCompactSize (\<lambda>nSize.
     if unat nSize \<noteq> 0 then read_bytes (unat nSize) else rret [])"

definition Unserialize_limited :: "nat \<Rightarrow> bytes reader" where
  "Unserialize_limited limit = rbind ReadCompactSize (\<lambda>size'.
     if limit < unat size' then rfail ''String length limit exceeded''
     else if unat size' \<noteq> 0 then read_bytes (unat size') else rret [])"

definition Serialize_pair :: "('a \<Rightarrow> bytes) \<Rightarrow> ('b \<Rightarrow> bytes) \<Rightarrow> 'a \<times> 'b \<Rightarrow> bytes" where
  "Serialize_pair f g item = f (fst item) @ g (snd item)"

definition Unserialize_pair :: "'a reader \<Rightarrow> 'b reader \<Rightarrow> ('a \<times> 'b) reader" where
  "Unserialize_pair f g = rbind f (\<lambda>a. rbind g (\<lambda>b. rret (a, b)))"

definition Serialize_vector :: "('a \<Rightarrow> bytes) \<Rightarrow> 'a list \<Rightarrow> bytes" where
  "Serialize_vector f v = WriteCompactSize (of_nat (length v)) @ concat (map f v)"

fun read_items :: "nat \<Rightarrow> 'a reader \<Rightarrow> 'a list reader" where
  "read_items 0 f = rret []"
| "read_items (Suc n) f = rbind f (\<lambda>x. rbind (read_items n f) (\<lambda>xs. rret (x # xs)))"

text \<open>
  The generic vector reader grows the vector to \<open>nMid\<close> elements at a time, \<open>5000000 / sizeof(T)\<close> more
  in every round; \<open>None\<close> is the loop that never ends when that quotient is zero.
\<close>

partial_function (option) read_vector_loop ::
    "nat \<Rightarrow> 'a reader \<Rightarrow> nat \<Rightarrow> nat \<Rightarrow> 'a list \<Rightarrow> bytes \<Rightarrow> (ser_error + ('a list \<times> bytes)) option" where
  "read_vector_loop chunk f nSize nMid v s =
     (if nMid < nSize
      then let nMid' = (if nSize < nMid + chunk then nSize else nMid + chunk)
           in (case read_items (nMid' - length v) f s of
                 Inl e \<Rightarrow> Some (Inl e)
               | Inr (xs, s') \<Rightarrow> read_vector_loop chunk f nSize nMid' (v @ xs) s')
      else Some (Inr (v, s)))"

definition Unserialize_vector :: "nat \<Rightarrow> 'a reader \<Rightarrow> bytes \<Rightarrow> (ser_error + ('a list \<times> bytes)) option" where
  "Unserialize_vector sizeof_T f s = (case ReadCompactSize s of
       Inl e \<Rightarrow> Some (Inl e)
     | Inr (nSize, s') \<Rightarrow> read_vector_loop (5000000 div sizeof_T) f (unat nSize) 0 [] s')"


subsection \<open>Round trips\<close>

named_theorems ser_simps \<open>readers applied to the output of writers\<close>

lemma length_le_bytes [simp]: "length (le_bytes n w) = n"
  by (simp add: le_bytes_def)

lemma le_val_le_bytes: "le_val (le_bytes n w) = unat w mod 256 ^ n"
proof (induction n)
  case 0
  show ?case by (simp add: le_bytes_def)
next
  case (Suc n)
  have "le_bytes (Suc n) w = le_bytes n w @ [ucast (drop_bit (8 * n) w)]" by (simp add: le_bytes_def)
  moreover have "unat (ucast (drop_bit (8 * n) w) :: byte) = unat w div 256 ^ n mod 256"
    by (simp add: unsigned_ucast_eq unat_drop_bit_div take_bit_eq_mod power_mult)
  ultimately show ?case
    using Suc.IH mod_mult2_eq [of "unat w" "256 ^ n" 256] by (simp add: le_val_append mult.commute)
qed

lemma le_bytes_le_val:
  assumes "length bs = n" and "LENGTH('a::len) = 8 * n"
  shows "le_bytes n (of_nat (le_val bs) :: 'a word) = bs"
proof (rule le_val_inject)
  have "(2 :: nat) ^ LENGTH('a) = 256 ^ n" using assms by (simp add: power_mult)
  then show "le_val (le_bytes n (of_nat (le_val bs) :: 'a word)) = le_val bs"
    using le_val_less [of bs] assms by (simp add: le_val_le_bytes unat_of_nat)
qed (simp add: assms)

lemma le_val_le_bytes_word:
  assumes "LENGTH('a::len) = 8 * n"
  shows "of_nat (le_val (le_bytes n (w :: 'a word))) = w"
proof -
  have "(2 :: nat) ^ LENGTH('a) = 256 ^ n" using assms by (simp add: power_mult)
  then have "unat w mod 256 ^ n = unat w" using unsigned_less [of w, where 'a = nat] by simp
  then show ?thesis by (simp add: le_val_le_bytes)
qed

lemma read_bytes_append [ser_simps]: "n = length d \<Longrightarrow> read_bytes n (d @ rest) = Inr (d, rest)"
  by (simp add: read_bytes_def)

lemma read_bytes_InrD: "read_bytes n s = Inr (d, s') \<Longrightarrow> s = d @ s' \<and> length d = n"
  by (auto simp: read_bytes_def split: if_splits)

lemma ser_readdata_write [ser_simps]:
  "ser_readdata8 (ser_writedata8 b @ rest) = Inr (b, rest)"
  "ser_readdata16 (ser_writedata16 x @ rest) = Inr (x, rest)"
  "ser_readdata32 (ser_writedata32 y @ rest) = Inr (y, rest)"
  "ser_readdata32be (ser_writedata32be y @ rest) = Inr (y, rest)"
  "ser_readdata64 (ser_writedata64 z @ rest) = Inr (z, rest)"
  by (simp_all add: ser_readdata8_def ser_readdata16_def ser_readdata32_def ser_readdata32be_def ser_readdata64_def
      ser_writedata8_def ser_writedata16_def ser_writedata32_def ser_writedata32be_def ser_writedata64_def
      rbind_def rret_def read_bytes_append be_val_def le_val_le_bytes_word del: append_Cons append_Nil)

lemma ser_readdata_InrD:
  "ser_readdata8 s = Inr (b, s') \<Longrightarrow> s = ser_writedata8 b @ s'"
  "ser_readdata16 s = Inr (x, s') \<Longrightarrow> s = ser_writedata16 x @ s'"
  "ser_readdata32 s = Inr (y, s') \<Longrightarrow> s = ser_writedata32 y @ s'"
  "ser_readdata64 s = Inr (z, s') \<Longrightarrow> s = ser_writedata64 z @ s'"
  by (auto simp: ser_readdata8_def ser_readdata16_def ser_readdata32_def ser_readdata64_def ser_writedata8_def
      ser_writedata16_def ser_writedata32_def ser_writedata64_def rbind_def rret_def
      length_Suc_conv le_bytes_le_val split: sum.splits dest!: read_bytes_InrD)


subsection \<open>Compact sizes: one encoding per size\<close>

lemma unat_ucast_less:
  fixes w :: "'a::len word"
  assumes "unat w < 2 ^ LENGTH('b::len)"
  shows "unat (ucast w :: 'b word) = unat w"
  using assms by (simp add: unsigned_ucast_eq take_bit_nat_eq_self)

lemma ucast_ucast_id:
  fixes w :: "'a::len word"
  assumes "unat w < 2 ^ LENGTH('b::len)"
  shows "(ucast (ucast w :: 'b word) :: 'a word) = w"
proof -
  have "unat (ucast w :: 'b word) < 2 ^ LENGTH('a)"
    using unsigned_less [of w, where 'a = nat] by (simp add: unat_ucast_less [OF assms])
  then show ?thesis by (simp add: word_unat_eq_iff unat_ucast_less [OF assms] unat_ucast_less)
qed

lemma ucast_up_id:
  fixes w :: "'b::len word"
  assumes "LENGTH('b) \<le> LENGTH('a::len)"
  shows "unat (ucast w :: 'a word) = unat w" and "(ucast (ucast w :: 'a word) :: 'b word) = w"
proof -
  have "unat w < 2 ^ LENGTH('a)"
    using unsigned_less [of w, where 'a = nat] assms by (meson less_le_trans one_le_numeral power_increasing)
  then show u: "unat (ucast w :: 'a word) = unat w" by (rule unat_ucast_less)
  show "(ucast (ucast w :: 'a word) :: 'b word) = w"
    using u unsigned_less [of w, where 'a = nat] by (simp add: word_unat_eq_iff unat_ucast_less)
qed

lemma length_WriteCompactSize: "length (WriteCompactSize n) = GetSizeOfCompactSize n"
  by (simp add: WriteCompactSize_def GetSizeOfCompactSize_def ser_writedata8_def ser_writedata16_def
      ser_writedata32_def ser_writedata64_def)

lemma ReadCompactSize_Write:
  assumes "unat n \<le> MAX_SIZE"
  shows "ReadCompactSize (WriteCompactSize n @ rest) = Inr (n, rest)"
proof -
  have n: "unat n \<le> 0x02000000" using assms by (simp add: MAX_SIZE_def)
  consider "n < 253" | "\<not> n < 253" "n \<le> 0xFFFF" | "\<not> n \<le> 0xFFFF" by blast
  then show ?thesis
  proof cases
    case 1
    then have u: "unat n < 253" by (simp add: word_less_nat_alt)
    then have "unat (ucast n :: byte) = unat n" "(ucast (ucast n :: byte) :: u64) = n"
      by (simp_all add: unat_ucast_less ucast_ucast_id)
    then show ?thesis
      using 1 u assms
      by (simp add: WriteCompactSize_def ReadCompactSize_def ser_readdata_write check_canonical_def rret_def
          word_less_nat_alt)
  next
    case 2
    then have "(ucast (ucast n :: u16) :: u64) = n" by (simp add: word_le_nat_alt ucast_ucast_id)
    then show ?thesis
      using 2 assms
      by (simp add: WriteCompactSize_def ReadCompactSize_def ser_readdata_write check_canonical_def rret_def)
  next
    case 3
    then have "n \<le> 0xFFFFFFFF" "\<not> n < 253" "\<not> n < 0x10000" "(ucast (ucast n :: u32) :: u64) = n"
      using n by (simp_all add: word_le_nat_alt word_less_nat_alt ucast_ucast_id)
    then show ?thesis
      using 3 assms
      by (simp add: WriteCompactSize_def ReadCompactSize_def ser_readdata_write check_canonical_def rret_def)
  qed
qed

lemma check_canonical_InrD: "check_canonical b m s = Inr (n, s') \<Longrightarrow> n = m \<and> s' = s \<and> b \<le> n \<and> unat n \<le> MAX_SIZE"
  by (auto simp: check_canonical_def rfail_def rret_def split: if_splits)

lemma rbind_InrD: "rbind m f s = Inr (y, s'') \<Longrightarrow> \<exists>x s'. m s = Inr (x, s') \<and> f x s' = Inr (y, s'')"
  by (auto simp: rbind_def split: sum.splits)

lemma ReadCompactSize_unique:
  assumes "ReadCompactSize s = Inr (n, rest)"
  shows "s = WriteCompactSize n @ rest \<and> unat n \<le> MAX_SIZE"
proof -
  obtain c s1 where c: "s = ser_writedata8 c @ s1"
    and f: "(if c < 253 then check_canonical 0 (ucast c)
     else if c = 253 then rbind ser_readdata16 (\<lambda>n. check_canonical 253 (ucast n))
     else if c = 254 then rbind ser_readdata32 (\<lambda>n. check_canonical 0x10000 (ucast n))
     else rbind ser_readdata64 (\<lambda>n. check_canonical 0x100000000 n)) s1 = Inr (n, rest)"
    using assms unfolding ReadCompactSize_def by (blast dest: rbind_InrD ser_readdata_InrD)
  consider "c < 253" | "c = 253" | "c = 254" | "c = 255"
    using unat_byte_less [of c] by (auto simp: word_less_nat_alt word_unat_eq_iff) linarith
  then show ?thesis
  proof cases
    case 1
    then have "n = ucast c" "rest = s1" "unat n \<le> MAX_SIZE" using f by (auto dest: check_canonical_InrD)
    moreover from this 1 have "n < 253" by (simp add: word_less_nat_alt)
    ultimately show ?thesis using c by (simp add: WriteCompactSize_def ucast_up_id)
  next
    case 2
    then obtain x where x: "s1 = ser_writedata16 x @ rest" "n = ucast x" "253 \<le> n" "unat n \<le> MAX_SIZE"
      using f by (auto dest!: rbind_InrD ser_readdata_InrD check_canonical_InrD)
    moreover have "n \<le> 0xFFFF"
      using unsigned_less [of x, where 'a = nat] x(2) by (simp add: word_le_nat_alt ucast_up_id)
    ultimately show ?thesis using c 2 by (auto simp: WriteCompactSize_def ucast_up_id)
  next
    case 3
    then obtain x where x: "s1 = ser_writedata32 x @ rest" "n = ucast x" "0x10000 \<le> n" "unat n \<le> MAX_SIZE"
      using f by (auto dest!: rbind_InrD ser_readdata_InrD check_canonical_InrD)
    moreover have "n \<le> 0xFFFFFFFF" "\<not> n < 253" "\<not> n \<le> 0xFFFF"
      using unsigned_less [of x, where 'a = nat] x(2,3) by (simp_all add: word_le_nat_alt word_less_nat_alt ucast_up_id)
    ultimately show ?thesis using c 3 by (auto simp: WriteCompactSize_def ucast_up_id)
  next
    case 4
    then obtain x where x: "s1 = ser_writedata64 x @ rest" "n = x" "0x100000000 \<le> n" "unat n \<le> MAX_SIZE"
      using f by (auto dest!: rbind_InrD ser_readdata_InrD check_canonical_InrD)
    then show ?thesis by (simp add: word_le_nat_alt MAX_SIZE_def)
  qed
qed

text \<open>C30. Compact sizes up to \<open>MAX_SIZE\<close> have exactly one accepted encoding: the reader accepts a
  byte sequence with result \<open>n\<close> if and only if it starts with what the writer produces for \<open>n\<close>, of
  the length \<open>GetSizeOfCompactSize\<close> predicts.\<close>

theorem CompactSize_bijective:
  "ReadCompactSize s = Inr (n, rest) \<longleftrightarrow> s = WriteCompactSize n @ rest \<and> unat n \<le> 0x02000000 \<and>
     length s - length rest = GetSizeOfCompactSize n"
  using ReadCompactSize_Write [of n rest] ReadCompactSize_unique [of s n rest] length_WriteCompactSize [of n]
  by (auto simp: MAX_SIZE_def)


subsection \<open>Variable-length integers\<close>

text \<open>The digits the loop appends after the first one, each with the continuation bit.\<close>

function varint_digits :: "'a::len word \<Rightarrow> bytes" where
  "varint_digits n = (ucast (n AND 0x7F) OR 0x80) # (if n \<le> 0x7F then [] else varint_digits (drop_bit 7 n - 1))"
  by pat_completeness auto
termination
  by (relation "measure unat") (auto simp: varint_decreases dest: varint_decreases(2))

declare varint_digits.simps [simp del]

lemma varint_loop_digits: "tmp \<noteq> [] \<Longrightarrow> varint_loop n tmp = tmp @ varint_digits n"
proof (induction n tmp rule: varint_loop.induct)
  case (1 n tmp)
  then show ?case
    by (simp add: varint_loop.simps [of n tmp] varint_digits.simps [of n] Let_def)
qed

lemma WriteVarInt_digits:
  "WriteVarInt n = (if n \<le> 0x7F then [ucast (n AND 0x7F)]
     else rev (varint_digits (drop_bit 7 n - 1)) @ [ucast (n AND 0x7F)])"
  by (simp add: WriteVarInt_def varint_loop.simps [of n "[]"] varint_loop_digits)

lemma and_7F: "x AND 0x7F = take_bit 7 (x :: 'a::len word)"
  by (simp add: take_bit_eq_mask mask_eq_exp_minus_1)

lemma byte_80: "(0x80 :: byte) = 2 ^ 7"
  by simp

lemma varint_digit_value:
  fixes n :: "'a::len word"
  shows "(ucast ((ucast (n AND 0x7F) OR (0x80 :: byte)) AND 0x7F) :: 'a word) = n AND 0x7F"
    and "(ucast ((ucast (n AND 0x7F) :: byte) AND 0x7F) :: 'a word) = n AND 0x7F"
  unfolding and_7F byte_80
  by (rule bit_word_eqI; auto simp: bit_simps)+

lemma varint_digit_flag:
  fixes n :: "'a::len word"
  shows "(ucast (n AND 0x7F) OR (0x80 :: byte)) AND 0x80 \<noteq> 0" and "(ucast (n AND 0x7F) :: byte) AND 0x80 = 0"
  unfolding and_7F byte_80 and_exp_eq_0_iff_not_bit by (simp_all add: bit_simps)

lemma varint_recombine: "push_bit 7 (drop_bit 7 n) OR (n AND 0x7F) = (n :: 'a::len word)"
  unfolding and_7F by (rule bit_word_eqI) (auto simp: bit_simps)

lemma varint_last_digit:
  assumes "(n :: 'a::len word) \<le> 0x7F"
  shows "n AND 0x7F = n"
proof -
  have "unat (0x7F :: 'a word) \<le> 127" by (simp only: unsigned_numeral) (simp add: take_bit_nat_less_eq_self)
  moreover have "unat n \<le> unat (0x7F :: 'a word)" using assms by (simp only: word_le_nat_alt)
  ultimately have "unat n < 128" by linarith
  then show ?thesis
    unfolding and_7F by (simp add: word_unat_eq_iff unsigned_take_bit_eq take_bit_nat_eq_self)
qed

lemma ReadVarInt_digits: "ReadVarInt_from 0 (rev (varint_digits n) @ rest) = ReadVarInt_from (n + 1) rest"
proof (induction n arbitrary: rest rule: varint_digits.induct)
  case (1 n)
  show ?case
  proof (cases "n \<le> 0x7F")
    case True
    then have "n AND 0x7F = n" by (rule varint_last_digit)
    then show ?thesis
      using True varint_digit_value(1) [of n] varint_digit_flag(1) [of n]
      by (simp add: varint_digits.simps [of n])
  next
    case False
    then show ?thesis
      using 1 [OF False] varint_digit_value(1) [of n] varint_digit_flag(1) [of n]
      by (simp add: varint_digits.simps [of n] varint_recombine)
  qed
qed

lemma ReadVarInt_Write: "ReadVarInt (WriteVarInt n @ rest) = Inr (n, rest)"
proof (cases "n \<le> 0x7F")
  case True
  then have "n AND 0x7F = n" by (rule varint_last_digit)
  then show ?thesis
    using True varint_digit_value(2) [of n] varint_digit_flag(2) [of n]
    by (simp add: WriteVarInt_digits ReadVarInt_def)
next
  case False
  then show ?thesis
    using varint_digit_value(2) [of n] varint_digit_flag(2) [of n]
    by (simp add: WriteVarInt_digits ReadVarInt_def ReadVarInt_digits varint_recombine)
qed


lemma GetSizeOfVarInt_digits: "GetSizeOfVarInt_from k n = k + length (varint_digits n)"
proof (induction k n rule: GetSizeOfVarInt_from.induct)
  case (1 k n)
  then show ?case by (simp add: GetSizeOfVarInt_from.simps [of k n] varint_digits.simps [of n])
qed

lemma length_WriteVarInt: "length (WriteVarInt n) = GetSizeOfVarInt n"
  by (simp add: GetSizeOfVarInt_def GetSizeOfVarInt_digits WriteVarInt_digits varint_digits.simps [of n])

text \<open>Reading a variable-length integer back gives the number written, for every machine word
  type, and the size computed beforehand is the number of bytes written.\<close>

theorem VarInt_roundtrip:
  "ReadVarInt (WriteVarInt (n :: 'a::len word) @ rest) = Inr (n, rest) \<and>
     length (WriteVarInt n) = GetSizeOfVarInt n"
  by (simp add: ReadVarInt_Write length_WriteVarInt)

text \<open>The reader has no overflow check: the ten-byte encoding of \<open>2 ^ 64\<close> is accepted as the
  64-bit number 0, whose own encoding is a single zero byte.\<close>

theorem VarInt_overlong_accepted:
  "ReadVarInt [0x80, 0xfe, 0xfe, 0xfe, 0xfe, 0xfe, 0xfe, 0xfe, 0xff, 0x00] = Inr (0 :: u64, []) \<and>
   WriteVarInt (0 :: u64) = [0x00]"
  by (simp add: ReadVarInt_def WriteVarInt_digits)

end
