(* ===== verification/Codecs.thy ===== *)
theory Codecs
  imports Serialize
begin

text \<open>
  The contract every serializable type keeps: the reader inverts the writer and leaves the rest of
  the stream alone.  The locale \<open>codec\<close> states it; vectors, pairs, keys and values built from codecs
  are codecs again.  The bit-set wrappers of \<open>src/src/serialize.h\<close> are modelled here as well.
\<close>

unbundle bit_operations_syntax

locale codec =
  fixes wr :: "'a \<Rightarrow> bytes" and rd :: "'a reader" and valid :: "'a \<Rightarrow> bool"
  assumes round: "valid x \<Longrightarrow> rd (wr x @ rest) = Inr (x, rest)"
begin

lemma prefix_free: "valid x \<Longrightarrow> valid y \<Longrightarrow> wr x @ r = wr y @ r' \<Longrightarrow> x = y \<and> r = r'"
  using round [of x r] round [of y r'] by (metis Inr_inject Pair_inject)

lemma inj: "valid x \<Longrightarrow> valid y \<Longrightarrow> wr x = wr y \<longleftrightarrow> x = y"
  using prefix_free [of x y "[]" "[]"] by auto

lemma read_items_round:
  "\<forall>x \<in> set v. valid x \<Longrightarrow> read_items (length v) rd (concat (map wr v) @ rest) = Inr (v, rest)"
proof (induction v)
  case Nil
  show ?case by (simp add: rret_def)
next
  case (Cons x v)
  then have "rd (wr x @ concat (map wr v) @ rest) = Inr (x, concat (map wr v) @ rest)" by (intro round) simp
  then show ?case using Cons by (simp add: rret_def)
qed

end

locale codec_pair = A: codec wr1 rd1 valid1 + B: codec wr2 rd2 valid2
  for wr1 :: "'a \<Rightarrow> bytes" and rd1 :: "'a reader" and valid1 and wr2 :: "'b \<Rightarrow> bytes" and rd2 :: "'b reader" and valid2
begin

lemma pair_round:
  "valid1 (fst p) \<Longrightarrow> valid2 (snd p) \<Longrightarrow>
   Unserialize_pair rd1 rd2 (Serialize_pair wr1 wr2 p @ rest) = Inr (p, rest)"
  by (simp add: Unserialize_pair_def Serialize_pair_def rret_def A.round B.round)

end

sublocale codec_pair \<subseteq> pair: codec "Serialize_pair wr1 wr2" "Unserialize_pair rd1 rd2"
  "\<lambda>p. valid1 (fst p) \<and> valid2 (snd p)"
  by unfold_locales (simp add: pair_round)

subsection \<open>Byte vectors and strings\<close>

lemma read_blocks_eq:
  "length v \<le> nSize \<Longrightarrow> read_blocks nSize v s =
     (if length s < nSize - length v then Inl (Ios_failure ''CDataStream::read(): end of data'')
      else Inr (v @ take (nSize - length v) s, drop (nSize - length v) s))"
proof (induction nSize v s rule: read_blocks.induct)
  case (1 nSize v s)
  define blk where "blk = min (nSize - length v) (1 + 4999999)"
  show ?case
  proof (cases "length v < nSize")
    case False
    then show ?thesis using 1(2) by (simp add: read_blocks.simps [of nSize v s])
  next
    case True
    then have b: "0 < blk" "blk \<le> nSize - length v" by (auto simp: blk_def)
    have u: "read_blocks nSize v s = (case read_bytes blk s of Inl e \<Rightarrow> Inl e
        | Inr (d, s') \<Rightarrow> read_blocks nSize (v @ d) s')"
      using True by (subst read_blocks.simps) (simp only: Let_def blk_def if_True)
    show ?thesis
    proof (cases "length s < blk")
      case True
      then show ?thesis unfolding u using b by (simp add: read_bytes_def)
    next
      case False
      define k where "k = nSize - length v - blk"
      have k: "nSize - length v = blk + k" using b by (simp add: k_def)
      have r: "read_bytes blk s = Inr (take blk s, drop blk s)" using False by (simp add: read_bytes_def)
      have "read_blocks nSize (v @ take blk s) (drop blk s) =
         (if length (drop blk s) < k then Inl (Ios_failure ''CDataStream::read(): end of data'')
          else Inr ((v @ take blk s) @ take k (drop blk s), drop k (drop blk s)))"
        using 1(1) [OF True blk_def r refl] b False by (simp add: k_def)
      moreover have "length s < blk + k \<longleftrightarrow> length (drop blk s) < k" using False by auto
      ultimately show ?thesis unfolding u r k by (simp add: take_add add.commute [of k blk])
    qed
  qed
qed

lemma unat_u64_of_nat: "n \<le> MAX_SIZE \<Longrightarrow> unat (of_nat n :: u64) = n"
  by (simp add: unat_of_nat MAX_SIZE_def)

interpretation compact: codec WriteCompactSize ReadCompactSize "\<lambda>n. unat n \<le> MAX_SIZE"
  by unfold_locales (rule ReadCompactSize_Write)

interpretation byte_vector: codec Serialize_bytes Unserialize_bytes "\<lambda>v. length v \<le> MAX_SIZE"
  by unfold_locales
    (simp add: Serialize_bytes_def Unserialize_bytes_def ReadCompactSize_Write unat_u64_of_nat read_blocks_eq)

interpretation str: codec Serialize_string Unserialize_string "\<lambda>v. length v \<le> MAX_SIZE"
proof
  fix x rest :: bytes assume l: "length x \<le> MAX_SIZE"
  then show "Unserialize_string (Serialize_string x @ rest) = Inr (x, rest)"
    by (cases "x = []") (simp_all add: Serialize_string_def Unserialize_string_def ReadCompactSize_Write unat_u64_of_nat
        read_bytes_append rret_def)
qed

interpretation char8: codec ser_writedata8 ser_readdata8 "\<lambda>_. True"
  by unfold_locales (rule ser_readdata_write)

interpretation word16: codec ser_writedata16 ser_readdata16 "\<lambda>_. True"
  by unfold_locales (rule ser_readdata_write)

interpretation word32: codec ser_writedata32 ser_readdata32 "\<lambda>_. True"
  by unfold_locales (rule ser_readdata_write)

interpretation word64: codec ser_writedata64 ser_readdata64 "\<lambda>_. True"
  by unfold_locales (rule ser_readdata_write)

interpretation varint: codec "WriteVarInt :: 'a::len word \<Rightarrow> bytes" ReadVarInt "\<lambda>_. True"
  by unfold_locales (rule ReadVarInt_Write)

interpretation char_key: codec_pair ser_writedata8 ser_readdata8 "\<lambda>_. True" Serialize_bytes Unserialize_bytes
  "\<lambda>v. length v \<le> MAX_SIZE"
  by unfold_locales


subsection \<open>Vectors\<close>

lemma read_items_add:
  "read_items (m + n) f s = (case read_items m f s of
       Inl e \<Rightarrow> Inl e
     | Inr (xs, s') \<Rightarrow> (case read_items n f s' of Inl e \<Rightarrow> Inl e | Inr (ys, s'') \<Rightarrow> Inr (xs @ ys, s'')))"
proof (induction m arbitrary: s)
  case 0
  show ?case by (simp add: rret_def split: sum.splits)
next
  case (Suc m)
  show ?case by (auto simp: rbind_def rret_def Suc split: sum.splits)
qed

lemma length_read_items: "read_items n f s = Inr (xs, s') \<Longrightarrow> length xs = n"
  by (induction n arbitrary: s xs) (auto simp: rret_def rbind_def split: sum.splits)

lemma read_vector_loop_eq:
  assumes "0 < chunk" and "length v = nMid" and "nMid \<le> nSize"
  shows "read_vector_loop chunk f nSize nMid v s =
    Some (case read_items (nSize - nMid) f s of Inl e \<Rightarrow> Inl e | Inr (xs, s') \<Rightarrow> Inr (v @ xs, s'))"
  using assms(2,3)
proof (induction "nSize - nMid" arbitrary: nMid v s rule: less_induct)
  case less
  show ?case
  proof (cases "nMid < nSize")
    case False
    then show ?thesis using less.prems by (simp add: read_vector_loop.simps rret_def)
  next
    case True
    define nMid' where "nMid' = (if nSize < nMid + chunk then nSize else nMid + chunk)"
    have m: "nMid < nMid'" "nMid' \<le> nSize" using True assms(1) by (auto simp: nMid'_def)
    have u: "read_vector_loop chunk f nSize nMid v s = (case read_items (nMid' - nMid) f s of
         Inl e \<Rightarrow> Some (Inl e) | Inr (xs, s') \<Rightarrow> read_vector_loop chunk f nSize nMid' (v @ xs) s')"
      using True less.prems(1) by (subst read_vector_loop.simps) (simp only: Let_def nMid'_def if_True)
    have IH: "read_items (nMid' - nMid) f s = Inr (xs, s') \<Longrightarrow> read_vector_loop chunk f nSize nMid' (v @ xs) s' =
       Some (case read_items (nSize - nMid') f s' of Inl e \<Rightarrow> Inl e | Inr (ys, s'') \<Rightarrow> Inr ((v @ xs) @ ys, s''))" for xs s'
      using m less.prems length_read_items [of "nMid' - nMid" f s xs s'] by (intro less.hyps) auto
    have "nSize - nMid = (nMid' - nMid) + (nSize - nMid')" using m by simp
    then show ?thesis
      unfolding u by (simp only: read_items_add) (auto simp: IH split: sum.splits)
  qed
qed

context codec
begin

lemma vector_round:
  assumes "\<forall>x \<in> set v. valid x" and "length v \<le> MAX_SIZE" and "0 < sizeof_T" and "sizeof_T \<le> 5000000"
  shows "Unserialize_vector sizeof_T rd (Serialize_vector wr v @ rest) = Some (Inr (v, rest))"
proof -
  have "0 < 5000000 div sizeof_T" using assms(3,4) by (simp add: div_greater_zero_iff)
  then show ?thesis
    using assms(1,2) read_items_round [of v rest]
    by (simp add: Unserialize_vector_def Serialize_vector_def ReadCompactSize_Write unat_u64_of_nat read_vector_loop_eq)
qed

end

subsection \<open>Bit sets\<close>

definition FixedBitSet_write :: "nat \<Rightarrow> bool list \<Rightarrow> bytes" where
  "FixedBitSet_write size' vec =
     (let ms = min size' (length vec)
      in fold (\<lambda>p vBytes. vBytes[p div 8 := vBytes ! (p div 8) OR push_bit (p mod 8) (of_bool (vec ! p))])
           [0..<ms] (replicate ((size' + 7) div 8) 0))"

definition FixedBitSet_read :: "nat \<Rightarrow> bool list reader" where
  "FixedBitSet_read size' = rbind (read_bytes ((size' + 7) div 8)) (\<lambda>vBytes.
     let vec = map (\<lambda>p. vBytes ! (p div 8) AND push_bit (p mod 8) 1 \<noteq> 0) [0..<size'];
         rem = length vBytes * 8 - size';
         m = NOT (drop_bit rem 0xff)
     in if length vBytes * 8 \<noteq> size' \<and> vBytes ! (length vBytes - 1) AND m \<noteq> 0
        then rfail ''Out-of-range bits set'' else rret vec)"

definition DynamicBitSet_write :: "bool list \<Rightarrow> bytes" where
  "DynamicBitSet_write vec = WriteCompactSize (of_nat (length vec)) @ FixedBitSet_write (length vec) vec"

definition DynamicBitSet_read :: "bool list reader" where
  "DynamicBitSet_read = rbind ReadCompactSize (\<lambda>n. FixedBitSet_read (unat n))"

text \<open>\<open>CFixedVarIntsBitSet\<close>: the distances between set bits, ended by a zero.\<close>

fun FixedVarInts_loop :: "int \<Rightarrow> int \<Rightarrow> bool list \<Rightarrow> bytes" where
  "FixedVarInts_loop i last' [] = WriteVarInt (0 :: u32)"
| "FixedVarInts_loop i last' (b # vec) =
     (if b then WriteVarInt (word_of_int (i - last') :: u32) @ FixedVarInts_loop (i + 1) i vec
      else FixedVarInts_loop (i + 1) last' vec)"

definition FixedVarInts_write :: "bool list \<Rightarrow> bytes" where
  "FixedVarInts_write vec = FixedVarInts_loop 0 (- 1) vec"

lemma ReadVarInt_consumes: "ReadVarInt_from n s = Inr (m, s') \<Longrightarrow> length s' < length s"
  by (induction n s rule: ReadVarInt_from.induct) (auto simp: Let_def split: if_splits)

function FixedVarInts_read_loop :: "nat \<Rightarrow> int \<Rightarrow> bool list \<Rightarrow> bool list reader" where
  "FixedVarInts_read_loop size' last' vec s = (case ReadVarInt s of
       Inl e \<Rightarrow> Inl e
     | Inr (offset, s') \<Rightarrow>
         if offset = (0 :: u32) then Inr (vec, s')
         else let idx = sint (word_of_int last' + offset)
              in if idx < 0 \<or> int size' \<le> idx then Inl (Ios_failure ''out of bounds index'')
                 else if last' \<noteq> - 1 \<and> idx \<le> last' then Inl (Ios_failure ''offset overflow'')
                 else FixedVarInts_read_loop size' idx (vec[nat idx := True]) s')"
  by pat_completeness auto
termination
  by (relation "measure (\<lambda>(size', last', vec, s). length s)") (auto simp: ReadVarInt_def dest: ReadVarInt_consumes)

declare FixedVarInts_read_loop.simps [simp del]

definition FixedVarInts_read :: "nat \<Rightarrow> bool list reader" where
  "FixedVarInts_read size' = FixedVarInts_read_loop size' (- 1) (replicate size' False)"

definition AutoBitSet_write :: "bool list \<Rightarrow> bytes" where
  "AutoBitSet_write vec =
     (if length (FixedBitSet_write (length vec) vec) < length (FixedVarInts_write vec)
      then ser_writedata8 0 @ FixedBitSet_write (length vec) vec
      else ser_writedata8 1 @ FixedVarInts_write vec)"

definition AutoBitSet_read :: "nat \<Rightarrow> bool list reader" where
  "AutoBitSet_read size' = rbind ser_readdata8 (\<lambda>isVarInts.
     if isVarInts \<noteq> 0 \<and> isVarInts \<noteq> 1 then rfail ''invalid value for isVarInts byte''
     else if isVarInts = 0 then FixedBitSet_read size' else FixedVarInts_read size')"


subsubsection \<open>Round trips of the bit sets\<close>

lemma length_fold_div_upd [simp]: "length (fold (\<lambda>p v. v[h p := f p v]) ps v) = length v"
  by (induction ps arbitrary: v) auto

lemma bit_FixedBitSet_fold:
  assumes "ms \<le> 8 * n" and "j < n" and "b < 8"
  shows "bit (fold (\<lambda>p vBytes. vBytes[p div 8 := vBytes ! (p div 8) OR push_bit (p mod 8) (of_bool (vec ! p))])
      [0..<ms] (replicate n (0 :: byte)) ! j) b \<longleftrightarrow> 8 * j + b < ms \<and> vec ! (8 * j + b)"
  using assms(1)
proof (induction ms)
  case 0
  then show ?case using assms(2) by simp
next
  case (Suc p)
  define F where "F = fold (\<lambda>p vBytes. vBytes[p div 8 := vBytes ! (p div 8) OR push_bit (p mod 8) (of_bool (vec ! p))])
      [0..<p] (replicate n (0 :: byte))"
  have l: "length F = n" by (simp add: F_def)
  have IH: "bit (F ! j) b \<longleftrightarrow> 8 * j + b < p \<and> vec ! (8 * j + b)" using Suc unfolding F_def by simp
  have p: "p div 8 < n" using Suc.prems by auto
  show ?case
  proof (cases "8 * j + b = p")
    case True
    then have "p div 8 = j" "p mod 8 = b" using assms(3) by auto
    then show ?thesis using True l p assms(3) IH by (auto simp: F_def [symmetric] bit_simps)
  next
    case False
    then have "j \<noteq> p div 8 \<or> b \<noteq> p mod 8" by auto
    then show ?thesis using False l p assms(3) IH by (auto simp: F_def [symmetric] bit_simps nth_list_update less_Suc_eq)
  qed
qed

lemma length_FixedBitSet_write [simp]: "length (FixedBitSet_write n vec) = (n + 7) div 8"
  by (simp add: FixedBitSet_write_def)

lemma bit_FixedBitSet_write:
  assumes "j < (length vec + 7) div 8" and "b < 8"
  shows "bit (FixedBitSet_write (length vec) vec ! j) b \<longleftrightarrow> 8 * j + b < length vec \<and> vec ! (8 * j + b)"
  unfolding FixedBitSet_write_def Let_def min.idem using assms by (intro bit_FixedBitSet_fold) auto

lemma and_push_bit_one: "(x :: byte) AND push_bit n 1 \<noteq> 0 \<longleftrightarrow> bit x n"
  unfolding push_bit_of_1 and_exp_eq_0_iff_not_bit by simp

lemma FixedBitSet_round: "FixedBitSet_read (length vec) (FixedBitSet_write (length vec) vec @ rest) = Inr (vec, rest)"
proof -
  define vB n where "vB = FixedBitSet_write (length vec) vec" and "n = (length vec + 7) div 8"
  have l: "length vB = n" by (simp add: vB_def n_def)
  have v: "map (\<lambda>p. vB ! (p div 8) AND push_bit (p mod 8) 1 \<noteq> 0) [0..<length vec] = vec"
  proof (rule nth_equalityI)
    fix i assume "i < length (map (\<lambda>p. vB ! (p div 8) AND push_bit (p mod 8) 1 \<noteq> 0) [0..<length vec])"
    then have "i < length vec" by simp
    then show "map (\<lambda>p. vB ! (p div 8) AND push_bit (p mod 8) 1 \<noteq> 0) [0..<length vec] ! i = vec ! i"
      by (simp add: and_push_bit_one vB_def bit_FixedBitSet_write del: push_bit_of_1)
  qed simp
  have out: "vB ! (n - 1) AND NOT (drop_bit (n * 8 - length vec) 0xff) = 0" if "n * 8 \<noteq> length vec"
  proof (rule bit_word_eqI)
    fix b assume "b < LENGTH(8)"
    then have b: "b < 8" by simp
    have n: "0 < n" "length vec < n * 8" "n * 8 - length vec < 8" using that by (auto simp: n_def)
    have "bit (0xff :: byte) k \<longleftrightarrow> k < 8" for k
    proof -
      have "(0xff :: byte) = mask 8" by (simp add: mask_eq_exp_minus_1)
      then show ?thesis by (simp only: bit_mask_iff) simp
    qed
    then have "bit (drop_bit (n * 8 - length vec) (0xff :: byte)) b \<longleftrightarrow> n * 8 - length vec + b < 8"
      by (simp only: bit_drop_bit_eq o_apply)
    moreover have "bit (vB ! (n - 1)) b \<longleftrightarrow> 8 * (n - 1) + b < length vec \<and> vec ! (8 * (n - 1) + b)"
      using n b unfolding vB_def n_def by (intro bit_FixedBitSet_write) auto
    ultimately show "bit (vB ! (n - 1) AND NOT (drop_bit (n * 8 - length vec) 0xff)) b = bit 0 b"
      using n b by (auto simp: bit_and_iff bit_not_iff)
  qed
  have "read_bytes n (vB @ rest) = Inr (vB, rest)" by (rule read_bytes_append) (simp add: l)
  then show ?thesis
    using v out l by (auto simp: FixedBitSet_read_def rret_def simp flip: vB_def n_def)
qed

lemma FixedVarInts_round:
  assumes "size' = length pre + length vec" and "size' < 2 ^ 31" and "- 1 \<le> l" and "l < int (length pre)"
  shows "FixedVarInts_read_loop size' l (pre @ replicate (length vec) False)
    (FixedVarInts_loop (int (length pre)) l vec @ rest) = Inr (pre @ vec, rest)"
  using assms
proof (induction vec arbitrary: pre l)
  case Nil
  then show ?case by (simp add: FixedVarInts_read_loop.simps ReadVarInt_Write)
next
  case (Cons b vec)
  show ?case
  proof (cases b)
    case False
    then show ?thesis using Cons.IH [of "pre @ [False]" l] Cons.prems by (simp add: add.commute)
  next
    case True
    let ?i = "int (length pre)"
    have "word_of_int (?i - l) \<noteq> (0 :: u32)"
    proof
      assume "word_of_int (?i - l) = (0 :: u32)"
      then have "uint (word_of_int (?i - l) :: u32) = 0" by (simp only: unsigned_0)
      moreover have "take_bit 32 (?i - l) = ?i - l" using Cons.prems by (intro take_bit_int_eq_self) auto
      ultimately show False using Cons.prems by (simp only: uint_word_of_int) simp
    qed
    moreover have "sint (word_of_int l + word_of_int (?i - l) :: u32) = ?i"
    proof -
      have "word_of_int l + word_of_int (?i - l) = (word_of_int ?i :: u32)" by simp
      moreover have "(?i + 2 ^ (LENGTH(32) - 1)) mod 2 ^ LENGTH(32) - 2 ^ (LENGTH(32) - 1) = ?i"
        using Cons.prems by simp
      ultimately show ?thesis by (simp only: int_word_sint)
    qed
    ultimately have "FixedVarInts_read_loop size' l (pre @ replicate (Suc (length vec)) False)
      (WriteVarInt (word_of_int (?i - l) :: u32) @ FixedVarInts_loop (?i + 1) ?i vec @ rest) =
      FixedVarInts_read_loop size' ?i ((pre @ replicate (Suc (length vec)) False)[length pre := True])
        (FixedVarInts_loop (?i + 1) ?i vec @ rest)"
      using Cons.prems by (subst FixedVarInts_read_loop.simps) (simp add: ReadVarInt_Write Let_def)
    then show ?thesis
      using True Cons.IH [of "pre @ [True]" ?i] Cons.prems by (simp add: list_update_append add.commute)
  qed
qed


lemma length_ser_writedata8 [simp]: "length (ser_writedata8 b) = 1"
  by (simp add: ser_writedata8_def)

interpretation dynamic_bits: codec DynamicBitSet_write DynamicBitSet_read "\<lambda>v. length v \<le> MAX_SIZE"
  by unfold_locales
    (simp add: DynamicBitSet_write_def DynamicBitSet_read_def ReadCompactSize_Write unat_u64_of_nat FixedBitSet_round)

lemma FixedVarInts_write_round:
  "length vec < 2 ^ 31 \<Longrightarrow> FixedVarInts_read (length vec) (FixedVarInts_write vec @ rest) = Inr (vec, rest)"
  using FixedVarInts_round [of "length vec" "[]" vec "- 1" rest]
  by (simp add: FixedVarInts_read_def FixedVarInts_write_def)

text \<open>The three bit-set encodings are read back: the packed one with its padding check, the
  list of distances, and the automatic choice between them, which takes the distance list whenever
  it is not longer.\<close>

theorem BitSet_roundtrip:
  assumes "length vec < 2 ^ 31"
  shows "FixedBitSet_read (length vec) (FixedBitSet_write (length vec) vec @ rest) = Inr (vec, rest) \<and>
    FixedVarInts_read (length vec) (FixedVarInts_write vec @ rest) = Inr (vec, rest) \<and>
    AutoBitSet_read (length vec) (AutoBitSet_write vec @ rest) = Inr (vec, rest) \<and>
    length (AutoBitSet_write vec) \<le> 1 + (length vec + 7) div 8"
  using FixedBitSet_round [of vec rest] FixedVarInts_write_round [OF assms, of rest]
  by (auto simp: AutoBitSet_read_def AutoBitSet_write_def ser_readdata_write)

theorem BitSet_roundtrip_witness:
  "AutoBitSet_read 3 (AutoBitSet_write [True, False, True] @ [9]) = Inr ([True, False, True], [9])"
  using BitSet_roundtrip [of "[True, False, True]" "[9]"] by (simp add: numeral_3_eq_3)

text \<open>A generic vector is read back when its element type is, if one element takes at most
  5000000 bytes of memory (otherwise the reader's chunk size is zero and its loop never ends).\<close>

theorem vector_roundtrip:
  assumes "\<And>x rest. x \<in> set v \<Longrightarrow> rd (wr x @ rest) = Inr (x, rest)"
    and "length v \<le> 0x02000000" and "0 < sizeof_T" and "sizeof_T \<le> 5000000"
  shows "Unserialize_vector sizeof_T rd (Serialize_vector wr v @ rest) = Some (Inr (v, rest))"
proof (rule codec.vector_round)
  show "codec wr rd (\<lambda>x. x \<in> set v)" using assms(1) by unfold_locales
qed (use assms in \<open>auto simp: MAX_SIZE_def\<close>)

theorem vector_roundtrip_witness:
  "Unserialize_vector 4 ser_readdata32 (Serialize_vector ser_writedata32 [5, 6] @ [9]) = Some (Inr ([5, 6], [9]))"
  by (rule vector_roundtrip) (simp_all add: ser_readdata_write)

end
