(* ===== verification/DBWrapper.thy ===== *)
theory DBWrapper
  imports Codecs
begin

text \<open>
  The database wrapper \<open>src/src/dbwrapper.h\<close>, \<open>src/src/dbwrapper.cpp\<close>: batches, reads and writes of
  serialized and obfuscated entries, and the error translation.  LevelDB itself is a parameter: a
  record of its \<open>Get\<close> and \<open>Write\<close> operations.  The locale \<open>leveldb_backend\<close> states what its
  documentation promises, and under it \<open>CDBWrapper\<close> keeps the contract \<open>kv_store\<close> of a key-value store.
\<close>

unbundle bit_operations_syntax

subsection \<open>LevelDB\<close>

datatype ldb_status = NotFound | Corruption | IOError | OtherError

datatype batch_op = BPut bytes bytes | BDelete bytes

record 'db leveldb =
  ldb_Get :: "'db \<Rightarrow> bytes \<Rightarrow> ldb_status + bytes"
  ldb_Write :: "'db \<Rightarrow> batch_op list \<Rightarrow> ldb_status + 'db"

fun HandleError :: "ldb_status \<Rightarrow> exn" where
  "HandleError Corruption = Runtime_error ''Database corrupted''"
| "HandleError IOError = Runtime_error ''Database I/O error''"
| "HandleError NotFound = Runtime_error ''Database entry missing''"
| "HandleError OtherError = Runtime_error ''Unknown database error''"

subsection \<open>Batches\<close>

record db_batch =
  batch :: "batch_op list"
  size_estimate :: nat

definition CDBBatch :: db_batch where
  "CDBBatch = \<lparr>batch = [], size_estimate = 0\<rparr>"

definition Batch_Clear :: "db_batch \<Rightarrow> db_batch" where
  "Batch_Clear b = b\<lparr>batch := [], size_estimate := 0\<rparr>"

definition Batch_Write :: "bytes \<Rightarrow> bytes \<Rightarrow> bytes \<Rightarrow> db_batch \<Rightarrow> db_batch" where
  "Batch_Write obf ssKey ssValue b =
     (let slValue = vch (ds_Xor obf (ds_new ssValue))
      in b\<lparr>batch := batch b @ [BPut ssKey slValue],
           size_estimate := size_estimate b + (3 + of_bool (127 < length ssKey) + length ssKey +
             of_bool (127 < length slValue) + length slValue)\<rparr>)"

definition Batch_Erase :: "bytes \<Rightarrow> db_batch \<Rightarrow> db_batch" where
  "Batch_Erase ssKey b =
     b\<lparr>batch := batch b @ [BDelete ssKey],
       size_estimate := size_estimate b + (2 + of_bool (127 < length ssKey) + length ssKey)\<rparr>"

subsection \<open>The wrapper\<close>

record 'db cdb_wrapper =
  pdb :: 'db
  obfuscate_key :: bytes

definition WriteBatch :: "'db leveldb \<Rightarrow> db_batch \<Rightarrow> 'db cdb_wrapper \<Rightarrow> exn + 'db cdb_wrapper" where
  "WriteBatch ldb b w = (case ldb_Write ldb (pdb w) (batch b) of
       Inl st \<Rightarrow> Inl (HandleError st)
     | Inr db \<Rightarrow> Inr (w\<lparr>pdb := db\<rparr>))"

definition ReadDataStream :: "'db leveldb \<Rightarrow> 'db cdb_wrapper \<Rightarrow> bytes \<Rightarrow> exn + bytes option" where
  "ReadDataStream ldb w ssKey = (case ldb_Get ldb (pdb w) ssKey of
       Inl st \<Rightarrow> if st = NotFound then Inr None else Inl (HandleError st)
     | Inr strValue \<Rightarrow> Inr (Some (content (ds_Xor (obfuscate_key w) (ds_new strValue)))))"

text \<open>\<open>Read\<close> answers \<open>false\<close> (\<open>None\<close>) when the key is absent or the value cannot be deserialized.\<close>

definition DB_Read :: "'db leveldb \<Rightarrow> 'v reader \<Rightarrow> 'db cdb_wrapper \<Rightarrow> bytes \<Rightarrow> exn + 'v option" where
  "DB_Read ldb rd w ssKey = (case ReadDataStream ldb w ssKey of
       Inl e \<Rightarrow> Inl e
     | Inr None \<Rightarrow> Inr None
     | Inr (Some ssValue) \<Rightarrow> (case rd ssValue of Inl _ \<Rightarrow> Inr None | Inr (v, _) \<Rightarrow> Inr (Some v)))"

definition DB_Write :: "'db leveldb \<Rightarrow> bytes \<Rightarrow> bytes \<Rightarrow> 'db cdb_wrapper \<Rightarrow> exn + 'db cdb_wrapper" where
  "DB_Write ldb ssKey ssValue w = WriteBatch ldb (Batch_Write (obfuscate_key w) ssKey ssValue CDBBatch) w"

definition DB_Exists :: "'db leveldb \<Rightarrow> 'db cdb_wrapper \<Rightarrow> bytes \<Rightarrow> exn + bool" where
  "DB_Exists ldb w key = (case ldb_Get ldb (pdb w) key of
       Inl st \<Rightarrow> if st = NotFound then Inr False else Inl (HandleError st)
     | Inr _ \<Rightarrow> Inr True)"

definition DB_Erase :: "'db leveldb \<Rightarrow> bytes \<Rightarrow> 'db cdb_wrapper \<Rightarrow> exn + 'db cdb_wrapper" where
  "DB_Erase ldb key w = WriteBatch ldb (Batch_Erase key CDBBatch) w"

definition DB_Sync :: "'db leveldb \<Rightarrow> 'db cdb_wrapper \<Rightarrow> exn + 'db cdb_wrapper" where
  "DB_Sync ldb w = WriteBatch ldb CDBBatch w"

subsection \<open>The contract of a key-value store\<close>

locale kv_store =
  fixes look :: "'s \<Rightarrow> 'k \<Rightarrow> 'v option" and put :: "'k \<Rightarrow> 'v \<Rightarrow> 's \<Rightarrow> 's" and del :: "'k \<Rightarrow> 's \<Rightarrow> 's"
    and inv :: "'s \<Rightarrow> bool" and okv :: "'v \<Rightarrow> bool"
  assumes look_put: "inv s \<Longrightarrow> okv v \<Longrightarrow> look (put k v s) = (look s)(k \<mapsto> v)"
    and look_del: "inv s \<Longrightarrow> look (del k s) = (look s)(k := None)"
    and inv_put: "inv s \<Longrightarrow> okv v \<Longrightarrow> inv (put k v s)"
    and inv_del: "inv s \<Longrightarrow> inv (del k s)"
begin

lemma fold_put:
  "inv s \<Longrightarrow> \<forall>(k, v) \<in> set kvs. okv v \<Longrightarrow>
   inv (fold (\<lambda>(k, v). put k v) kvs s) \<and> look (fold (\<lambda>(k, v). put k v) kvs s) = look s ++ map_of (rev kvs)"
proof (induction kvs arbitrary: s)
  case Nil
  then show ?case by simp
next
  case (Cons kv kvs)
  obtain k v where kv: "kv = (k, v)" by force
  then have "inv (put k v s)" "look (put k v s) = (look s)(k \<mapsto> v)"
    using Cons.prems by (auto simp: look_put inv_put)
  then show ?case
    using Cons.IH [of "put k v s"] Cons.prems kv by (simp add: map_add_upd_left) (simp add: map_add_def fun_eq_iff split: option.splits)
qed

lemma fold_del:
  "inv s \<Longrightarrow> inv (fold del ks s) \<and> look (fold del ks s) = (\<lambda>k. if k \<in> set ks then None else look s k)"
  by (induction ks arbitrary: s) (auto simp: look_del inv_del fun_eq_iff)

end


subsection \<open>What LevelDB promises\<close>

fun apply_op :: "batch_op \<Rightarrow> (bytes \<rightharpoonup> bytes) \<Rightarrow> (bytes \<rightharpoonup> bytes)" where
  "apply_op (BPut k v) m = m(k \<mapsto> v)"
| "apply_op (BDelete k) m = m(k := None)"

text \<open>The serialized value stored under a key.\<close>

definition raw_value :: "'db leveldb \<Rightarrow> 'db cdb_wrapper \<Rightarrow> bytes \<Rightarrow> bytes option" where
  "raw_value ldb w k = (case ReadDataStream ldb w k of Inl _ \<Rightarrow> None | Inr r \<Rightarrow> r)"

locale leveldb_backend =
  fixes ldb :: "'db leveldb" and entries :: "'db \<Rightarrow> bytes \<rightharpoonup> bytes" and healthy :: "'db \<Rightarrow> bool"
  assumes Get: "healthy db \<Longrightarrow> ldb_Get ldb db k = (case entries db k of None \<Rightarrow> Inl NotFound | Some v \<Rightarrow> Inr v)"
    and Write: "healthy db \<Longrightarrow>
      \<exists>db'. ldb_Write ldb db ops = Inr db' \<and> healthy db' \<and> entries db' = fold apply_op ops (entries db)"
begin

lemma content_Xor_twice: "content (ds_Xor key (ds_new (vch (ds_Xor key (ds_new v))))) = v"
proof -
  have "ds_new (vch (ds_Xor key (ds_new v))) = ds_Xor key (ds_new v)"
    by (simp add: ds_new_def ds_Xor_def)
  then show ?thesis using ds_Xor_twice [of "ds_new v" key] by (simp add: ds_new_def content_def)
qed

lemma ReadDataStream_healthy:
  "healthy (pdb w) \<Longrightarrow> ReadDataStream ldb w k = Inr (raw_value ldb w k) \<and>
     raw_value ldb w k = map_option (\<lambda>v. content (ds_Xor (obfuscate_key w) (ds_new v))) (entries (pdb w) k)"
  by (simp add: raw_value_def ReadDataStream_def Get split: option.splits)

lemma DB_Write_healthy:
  assumes "healthy (pdb w)"
  shows "\<exists>w'. DB_Write ldb k v w = Inr w' \<and> healthy (pdb w') \<and> raw_value ldb w' = (raw_value ldb w)(k \<mapsto> v) \<and>
    obfuscate_key w' = obfuscate_key w"
proof -
  let ?x = "vch (ds_Xor (obfuscate_key w) (ds_new v))"
  obtain db' where db': "ldb_Write ldb (pdb w) [BPut k ?x] = Inr db'" "healthy db'"
    "entries db' = (entries (pdb w))(k \<mapsto> ?x)"
    using Write [OF assms, of "[BPut k ?x]"] by auto
  then have "DB_Write ldb k v w = Inr (w\<lparr>pdb := db'\<rparr>)"
    by (simp add: DB_Write_def WriteBatch_def Batch_Write_def CDBBatch_def Let_def)
  moreover have "raw_value ldb (w\<lparr>pdb := db'\<rparr>) = (raw_value ldb w)(k \<mapsto> v)"
    using ReadDataStream_healthy [of w] ReadDataStream_healthy [of "w\<lparr>pdb := db'\<rparr>"] assms db'
    by (auto simp: fun_eq_iff content_Xor_twice)
  ultimately show ?thesis using db' by auto
qed

lemma DB_Erase_healthy:
  assumes "healthy (pdb w)"
  shows "\<exists>w'. DB_Erase ldb k w = Inr w' \<and> healthy (pdb w') \<and> raw_value ldb w' = (raw_value ldb w)(k := None) \<and>
    obfuscate_key w' = obfuscate_key w"
proof -
  obtain db' where db': "ldb_Write ldb (pdb w) [BDelete k] = Inr db'" "healthy db'"
    "entries db' = (entries (pdb w))(k := None)"
    using Write [OF assms, of "[BDelete k]"] by auto
  then have "DB_Erase ldb k w = Inr (w\<lparr>pdb := db'\<rparr>)"
    by (simp add: DB_Erase_def WriteBatch_def Batch_Erase_def CDBBatch_def)
  moreover have "raw_value ldb (w\<lparr>pdb := db'\<rparr>) = (raw_value ldb w)(k := None)"
    using ReadDataStream_healthy [of w] ReadDataStream_healthy [of "w\<lparr>pdb := db'\<rparr>"] assms db'
    by (auto simp: fun_eq_iff)
  ultimately show ?thesis using db' by auto
qed

lemma DB_Exists_healthy: "healthy (pdb w) \<Longrightarrow> DB_Exists ldb w k = Inr (raw_value ldb w k \<noteq> None)"
  using ReadDataStream_healthy [of w k] by (simp add: DB_Exists_def Get split: option.splits)

lemma DB_Sync_healthy:
  "healthy (pdb w) \<Longrightarrow> \<exists>w'. DB_Sync ldb w = Inr w' \<and> healthy (pdb w') \<and> raw_value ldb w' = raw_value ldb w \<and> obfuscate_key w' = obfuscate_key w"
  using Write [of "pdb w" "[]"] ReadDataStream_healthy [of w] ReadDataStream_healthy [of "w\<lparr>pdb := db'\<rparr>" for db']
  by (fastforce simp: DB_Sync_def WriteBatch_def CDBBatch_def fun_eq_iff)

lemma DB_Read_healthy:
  "healthy (pdb w) \<Longrightarrow> DB_Read ldb rd w k = Inr (case raw_value ldb w k of None \<Rightarrow> None
     | Some s \<Rightarrow> (case rd s of Inl _ \<Rightarrow> None | Inr (v, _) \<Rightarrow> Some v))"
  by (simp add: DB_Read_def ReadDataStream_healthy split: option.splits sum.splits)

end

sublocale leveldb_backend \<subseteq> wrapper: kv_store "raw_value ldb"
  "\<lambda>k v w. case DB_Write ldb k v w of Inl _ \<Rightarrow> w | Inr w' \<Rightarrow> w'"
  "\<lambda>k w. case DB_Erase ldb k w of Inl _ \<Rightarrow> w | Inr w' \<Rightarrow> w'" "\<lambda>w. healthy (pdb w)" "\<lambda>_. True"
proof
  fix s :: "'db cdb_wrapper" and k v :: bytes
  assume "healthy (pdb s)"
  from DB_Write_healthy [OF this, of k v] DB_Erase_healthy [OF this, of k]
  show "raw_value ldb (case DB_Write ldb k v s of Inl _ \<Rightarrow> s | Inr w' \<Rightarrow> w') = (raw_value ldb s)(k \<mapsto> v)"
    and "raw_value ldb (case DB_Erase ldb k s of Inl _ \<Rightarrow> s | Inr w' \<Rightarrow> w') = (raw_value ldb s)(k := None)"
    and "healthy (pdb (case DB_Write ldb k v s of Inl _ \<Rightarrow> s | Inr w' \<Rightarrow> w'))"
    and "healthy (pdb (case DB_Erase ldb k s of Inl _ \<Rightarrow> s | Inr w' \<Rightarrow> w'))"
    by auto
qed

text \<open>A database that keeps its entries in memory and never fails.\<close>

definition mem_leveldb :: "(bytes \<rightharpoonup> bytes) leveldb" where
  "mem_leveldb = \<lparr>ldb_Get = (\<lambda>db k. case db k of None \<Rightarrow> Inl NotFound | Some v \<Rightarrow> Inr v),
     ldb_Write = (\<lambda>db ops. Inr (fold apply_op ops db))\<rparr>"

interpretation mem: leveldb_backend mem_leveldb "\<lambda>db. db" "\<lambda>_. True"
  by unfold_locales (auto simp: mem_leveldb_def)

text \<open>An entry written to the database is read back under its key and no other entry changes,
  whatever the obfuscation key, if LevelDB stores what it is given and the value type's reader
  inverts its writer.\<close>

theorem DB_Write_Read:
  assumes "leveldb_backend ldb entries healthy" and "healthy (pdb w)" and "rd (wr v) = Inr (v, rest)"
  shows "\<exists>w'. DB_Write ldb key (wr v) w = Inr w' \<and> DB_Read ldb rd w' key = Inr (Some v) \<and>
    (\<forall>key'. key' \<noteq> key \<longrightarrow> DB_Read ldb rd w' key' = DB_Read ldb rd w key') \<and>
    DB_Exists ldb w' key = Inr True"
proof -
  obtain w' where w': "DB_Write ldb key (wr v) w = Inr w'" "healthy (pdb w')"
    "raw_value ldb w' = (raw_value ldb w)(key \<mapsto> wr v)"
    using leveldb_backend.DB_Write_healthy [OF assms(1,2), of key "wr v"] by auto
  then show ?thesis
    using assms(2,3)
    by (auto simp: leveldb_backend.DB_Read_healthy [OF assms(1)] leveldb_backend.DB_Exists_healthy [OF assms(1)])
qed

theorem DB_Write_Read_witness:
  "\<exists>w'. DB_Write mem_leveldb [1] (Serialize_bytes [7, 8]) \<lparr>pdb = Map.empty, obfuscate_key = [3, 5]\<rparr> = Inr w' \<and>
     DB_Read mem_leveldb Unserialize_bytes w' [1] = Inr (Some [7, 8])"
proof -
  have "Unserialize_bytes (Serialize_bytes [7, 8]) = Inr ([7, 8], [])"
    using byte_vector.round [of "[7, 8]" "[]"] by (simp add: MAX_SIZE_def)
  from DB_Write_Read [where rd = Unserialize_bytes and wr = Serialize_bytes and key = "[1]" and
      w = "\<lparr>pdb = Map.empty, obfuscate_key = [3, 5]\<rparr>", OF mem.leveldb_backend_axioms _ this]
  show ?thesis by auto
qed

end
