(* ===== verification/DBTransaction.thy ===== *)
theory DBTransaction
  imports DBWrapper "HOL-Library.List_Lexorder"
begin

text \<open>
  The transaction layer of \<open>src/src/dbwrapper.h\<close>: \<open>CDBTransaction\<close> collects writes and deletes over a
  parent store, \<open>CDBTransactionIterator\<close> walks the merged keys in order.  The ordered containers
  \<open>std::map\<close> and \<open>std::set\<close> are lists kept sorted by the key (lexicographically on bytes, the order
  of \<open>DataStreamCmp\<close>).  The type of a value is recorded in its holder, so that the dynamic cast of
  \<open>Read\<close> can fail as in the code.
\<close>

subsection \<open>Ordered containers\<close>

text \<open>\<open>std::map\<close>: assignment to a key and removal of a key.\<close>

fun map_put :: "'k::linorder \<Rightarrow> 'v \<Rightarrow> ('k \<times> 'v) list \<Rightarrow> ('k \<times> 'v) list" where
  "map_put k v [] = [(k, v)]"
| "map_put k v ((k', v') # m) =
     (if k < k' then (k, v) # (k', v') # m
      else if k = k' then (k, v) # m else (k', v') # map_put k v m)"

definition map_del :: "'k \<Rightarrow> ('k \<times> 'v) list \<Rightarrow> ('k \<times> 'v) list" where
  "map_del k m = filter (\<lambda>(k', _). k' \<noteq> k) m"

definition map_wf :: "('k::linorder \<times> 'v) list \<Rightarrow> bool" where
  "map_wf m \<longleftrightarrow> sorted (map fst m) \<and> distinct (map fst m)"

fun set_put :: "'k::linorder \<Rightarrow> 'k list \<Rightarrow> 'k list" where
  "set_put k [] = [k]"
| "set_put k (k' # s) = (if k < k' then k # k' # s else if k = k' then k' # s else k' # set_put k s)"

lemma map_of_map_put: "map_of (map_put k v m) = (map_of m)(k \<mapsto> v)"
  by (induction m) (auto simp: fun_eq_iff)

lemma set_map_put: "fst ` set (map_put k v m) = insert k (fst ` set m)"
  by (induction k v m rule: map_put.induct) (simp_all add: insert_commute)

lemma map_wf_Cons: "map_wf ((k, v) # m) \<longleftrightarrow> map_wf m \<and> (\<forall>k' \<in> fst ` set m. k < k')"
  by (auto simp: map_wf_def less_le)

lemma map_wf_put: "map_wf m \<Longrightarrow> map_wf (map_put k v m)"
proof (induction m)
  case Nil
  show ?case by (simp add: map_wf_def)
next
  case (Cons kv m)
  then show ?case
    by (cases kv) (auto simp: map_wf_Cons set_map_put)
qed

lemma map_of_map_del: "map_of (map_del k m) = (map_of m)(k := None)"
  by (induction m) (auto simp: map_del_def fun_eq_iff)

lemma map_wf_del: "map_wf m \<Longrightarrow> map_wf (map_del k m)"
proof -
  have "map fst (map_del k m) = filter (\<lambda>x. x \<noteq> k) (map fst m)"
    by (induction m) (auto simp: map_del_def)
  then show "map_wf m \<Longrightarrow> map_wf (map_del k m)" by (simp add: map_wf_def sorted_wrt_filter)
qed

lemma set_set_put [simp]: "set (set_put k s) = insert k (set s)"
  by (induction s) auto

lemma sorted_set_put: "sorted s \<Longrightarrow> distinct s \<Longrightarrow> sorted (set_put k s) \<and> distinct (set_put k s)"
  by (induction s) auto

subsection \<open>Transactions\<close>

record 'v holder =
  h_type :: nat
  h_value :: 'v
  h_memoryUsage :: nat

record 'v db_tx =
  tx_writes :: "(bytes \<times> 'v holder) list"
  tx_deletes :: "bytes list"
  tx_memoryUsage :: int

definition CDBTransaction :: "'v db_tx" where
  "CDBTransaction = \<lparr>tx_writes = [], tx_deletes = [], tx_memoryUsage = 0\<rparr>"

text \<open>\<open>Write(ssKey, v)\<close>; \<open>usage\<close> is the serialized size of the value, \<open>t\<close> its type.\<close>

definition tx_Write :: "nat \<Rightarrow> nat \<Rightarrow> bytes \<Rightarrow> 'v \<Rightarrow> 'v db_tx \<Rightarrow> 'v db_tx" where
  "tx_Write t usage ssKey v x =
     (let x1 = (if ssKey \<in> set (tx_deletes x)
                then x\<lparr>tx_deletes := remove1 ssKey (tx_deletes x), tx_memoryUsage := tx_memoryUsage x - int (length ssKey)\<rparr>
                else x);
          x2 = (case map_of (tx_writes x1) ssKey of
                  Some h \<Rightarrow> x1\<lparr>tx_memoryUsage := tx_memoryUsage x1 - int (length ssKey + h_memoryUsage h)\<rparr>
                | None \<Rightarrow> x1)
      in x2\<lparr>tx_writes := map_put ssKey \<lparr>h_type = t, h_value = v, h_memoryUsage = usage\<rparr> (tx_writes x2),
            tx_memoryUsage := tx_memoryUsage x2 + int (length ssKey + usage)\<rparr>)"

definition tx_Read :: "('p \<Rightarrow> bytes \<Rightarrow> exn + 'v option) \<Rightarrow> 'p \<Rightarrow> nat \<Rightarrow> 'v db_tx \<Rightarrow> bytes \<Rightarrow> exn + 'v option" where
  "tx_Read pRead parent t x ssKey =
     (if ssKey \<in> set (tx_deletes x) then Inr None
      else case map_of (tx_writes x) ssKey of
             Some h \<Rightarrow> if h_type h \<noteq> t then Inl (Runtime_error ''Read called with V != previously written type'')
                       else Inr (Some (h_value h))
           | None \<Rightarrow> pRead parent ssKey)"

definition tx_Exists :: "('p \<Rightarrow> bytes \<Rightarrow> exn + bool) \<Rightarrow> 'p \<Rightarrow> 'v db_tx \<Rightarrow> bytes \<Rightarrow> exn + bool" where
  "tx_Exists pExists parent x ssKey =
     (if ssKey \<in> set (tx_deletes x) then Inr False
      else if map_of (tx_writes x) ssKey \<noteq> None then Inr True
      else pExists parent ssKey)"

definition tx_Erase :: "bytes \<Rightarrow> 'v db_tx \<Rightarrow> 'v db_tx" where
  "tx_Erase ssKey x =
     (let x1 = (case map_of (tx_writes x) ssKey of
                  Some h \<Rightarrow> x\<lparr>tx_memoryUsage := tx_memoryUsage x - int (length ssKey + h_memoryUsage h),
                               tx_writes := map_del ssKey (tx_writes x)\<rparr>
                | None \<Rightarrow> x)
      in if ssKey \<in> set (tx_deletes x1) then x1
         else x1\<lparr>tx_deletes := set_put ssKey (tx_deletes x1), tx_memoryUsage := tx_memoryUsage x1 + int (length ssKey)\<rparr>)"

definition tx_Clear :: "'v db_tx \<Rightarrow> 'v db_tx" where
  "tx_Clear x = x\<lparr>tx_writes := [], tx_deletes := [], tx_memoryUsage := 0\<rparr>"

text \<open>\<open>Commit\<close> sends the deletes and then the writes, in key order, to the commit target.\<close>

definition tx_Commit :: "(bytes \<Rightarrow> 'c \<Rightarrow> 'c) \<Rightarrow> (bytes \<Rightarrow> 'v \<Rightarrow> 'c \<Rightarrow> 'c) \<Rightarrow> 'v db_tx \<Rightarrow> 'c \<Rightarrow> 'v db_tx \<times> 'c" where
  "tx_Commit cErase cWrite x target =
     (let target1 = fold cErase (tx_deletes x) target;
          target2 = fold (\<lambda>(k, h). cWrite k (h_value h)) (tx_writes x) target1
      in (tx_Clear x, target2))"

definition tx_IsClean :: "'v db_tx \<Rightarrow> bool" where
  "tx_IsClean x \<longleftrightarrow> tx_writes x = [] \<and> tx_deletes x = []"

definition tx_GetMemoryUsage :: "'v db_tx \<Rightarrow> nat" where
  "tx_GetMemoryUsage x = (if tx_memoryUsage x < 0 then 0 else nat (tx_memoryUsage x))"


subsection \<open>The view a transaction gives\<close>

definition tx_view :: "(bytes \<rightharpoonup> 'v) \<Rightarrow> 'v db_tx \<Rightarrow> bytes \<rightharpoonup> 'v" where
  "tx_view base x k =
     (if k \<in> set (tx_deletes x) then None
      else case map_of (tx_writes x) k of Some h \<Rightarrow> Some (h_value h) | None \<Rightarrow> base k)"

definition tx_usage :: "'v db_tx \<Rightarrow> nat" where
  "tx_usage x = (\<Sum>(k, h) \<leftarrow> tx_writes x. length k + h_memoryUsage h) + (\<Sum>k \<leftarrow> tx_deletes x. length k)"

definition tx_inv :: "'v db_tx \<Rightarrow> bool" where
  "tx_inv x \<longleftrightarrow> map_wf (tx_writes x) \<and> sorted (tx_deletes x) \<and> distinct (tx_deletes x) \<and>
     fst ` set (tx_writes x) \<inter> set (tx_deletes x) = {} \<and> tx_memoryUsage x = int (tx_usage x)"

lemma sum_map_put:
  "map_wf m \<Longrightarrow> (\<Sum>(k, h) \<leftarrow> map_put k v m. f k h) + (case map_of m k of Some h \<Rightarrow> f k h | None \<Rightarrow> 0) =
     (\<Sum>(k, h) \<leftarrow> m. f k h) + (f k v :: nat)"
proof (induction k v m rule: map_put.induct)
  case (2 k v k' v' m)
  have "k < k' \<Longrightarrow> map_of m k = None"
    using 2(2) by (auto simp: map_wf_Cons map_of_eq_None_iff)
  then show ?case using 2 by (auto simp: map_wf_Cons)
qed simp

lemma sum_map_del:
  "map_wf m \<Longrightarrow> (\<Sum>(k, h) \<leftarrow> map_del k m. f k h) + (case map_of m k of Some h \<Rightarrow> f k h | None \<Rightarrow> (0 :: nat)) =
     (\<Sum>(k, h) \<leftarrow> m. f k h)"
proof (induction m)
  case (Cons kv m)
  obtain k' v' where kv: "kv = (k', v')" by force
  have "k = k' \<Longrightarrow> map_of m k = None"
    using Cons(2) by (auto simp: kv map_wf_Cons map_of_eq_None_iff)
  then show ?case using Cons by (auto simp: kv map_wf_Cons map_del_def)
qed (simp add: map_del_def)

lemma sum_set_put: "k \<notin> set s \<Longrightarrow> sum_list (map f (set_put k s)) = sum_list (map f s) + (f k :: nat)"
  by (induction s) auto

lemma sum_remove1: "k \<in> set s \<Longrightarrow> sum_list (map f (remove1 k s)) + f k = (sum_list (map f s) :: nat)"
  by (induction s) auto

lemma fst_set_map_del: "fst ` set (map_del k m) = fst ` set m - {k}"
  by (force simp: map_del_def)

lemma tx_inv_Write: "tx_inv x \<Longrightarrow> tx_inv (tx_Write t u k v x)"
proof -
  assume inv: "tx_inv x"
  note sum = sum_map_put [where m = "tx_writes x" and k = k and v = "\<lparr>h_type = t, h_value = v, h_memoryUsage = u\<rparr>" and
      f = "\<lambda>k h. length k + h_memoryUsage h"]
  show ?thesis
  proof (cases "k \<in> set (tx_deletes x)")
    case True
    then have "k \<notin> fst ` set (tx_writes x)" using inv by (auto simp: tx_inv_def)
    then have "map_of (tx_writes x) k = None" by (simp add: map_of_eq_None_iff)
    then show ?thesis
      using True inv sum sum_remove1 [OF True, of length]
      by (auto simp: tx_inv_def tx_Write_def tx_usage_def Let_def map_wf_put set_map_put sorted_remove1
          simp flip: of_nat_add)
  next
    case False
    then show ?thesis
      using inv sum
      by (auto simp: tx_inv_def tx_Write_def tx_usage_def Let_def map_wf_put set_map_put
          split: option.splits simp flip: of_nat_add)
  qed
qed

lemma tx_inv_Erase: "tx_inv x \<Longrightarrow> tx_inv (tx_Erase k x)"
proof -
  assume inv: "tx_inv x"
  note sum = sum_map_del [where m = "tx_writes x" and f = "\<lambda>k h. length k + h_memoryUsage h" and k = k]
  show ?thesis
  proof (cases "k \<in> set (tx_deletes x)")
    case True
    then have "k \<notin> fst ` set (tx_writes x)" using inv by (auto simp: tx_inv_def)
    then have "map_of (tx_writes x) k = None" by (simp add: map_of_eq_None_iff)
    then show ?thesis using True inv by (simp add: tx_Erase_def Let_def)
  next
    case False
    then show ?thesis
      using inv sum sum_set_put [OF False, of length] sorted_set_put [of "tx_deletes x" k]
      by (cases "map_of (tx_writes x) k")
        (auto simp: tx_inv_def tx_Erase_def tx_usage_def Let_def map_wf_del fst_set_map_del
          simp flip: of_nat_add dest: map_of_SomeD simp: map_of_eq_None_iff [THEN iffD1])
  qed
qed

lemma tx_view_Write: "tx_inv x \<Longrightarrow> tx_view base (tx_Write t u k v x) = (tx_view base x)(k \<mapsto> v)"
  by (auto simp: tx_view_def tx_Write_def Let_def map_of_map_put fun_eq_iff tx_inv_def split: option.splits)

lemma tx_view_Erase: "tx_view base (tx_Erase k x) = (tx_view base x)(k := None)"
  by (auto simp: tx_view_def tx_Erase_def Let_def map_of_map_del fun_eq_iff split: option.splits)

interpretation tx: kv_store "tx_view base" "\<lambda>k v. tx_Write t (u v) k v" tx_Erase tx_inv "\<lambda>_. True"
  by unfold_locales (simp_all add: tx_view_Write tx_view_Erase tx_inv_Write tx_inv_Erase)

subsection \<open>Committing\<close>

text \<open>Committing a transaction to a store that keeps the contract gives the store the transaction's
  view of it.\<close>

lemma commit_view:
  assumes kv: "kv_store look put del cinv okv" and c: "cinv c" and x: "tx_inv x"
    and ok: "\<forall>(k, h) \<in> set (tx_writes x). okv (h_value h)"
  shows "cinv (snd (tx_Commit del put x c)) \<and> look (snd (tx_Commit del put x c)) = tx_view (look c) x"
proof -
  let ?kvs = "map (\<lambda>(k, h). (k, h_value h)) (tx_writes x)"
  define c1 where "c1 = fold del (tx_deletes x) c"
  have 1: "cinv c1" "look c1 = (\<lambda>k. if k \<in> set (tx_deletes x) then None else look c k)"
    using kv_store.fold_del [OF kv c] by (auto simp: c1_def)
  have f: "fold (\<lambda>(k, h). put k (h_value h)) (tx_writes x) c1 = fold (\<lambda>(k, v). put k v) ?kvs c1"
    by (simp add: fold_map comp_def case_prod_unfold)
  have "cinv (fold (\<lambda>(k, v). put k v) ?kvs c1) \<and>
      look (fold (\<lambda>(k, v). put k v) ?kvs c1) = look c1 ++ map_of (rev ?kvs)"
    using ok by (intro kv_store.fold_put [OF kv 1(1)]) auto
  moreover have "map_of (rev ?kvs) = (\<lambda>k. map_option h_value (map_of (tx_writes x) k))"
  proof -
    have "map_of (rev ?kvs) = map_of ?kvs"
      using x by (subst map_of_inject_set) (simp_all add: tx_inv_def map_wf_def comp_def split_beta rev_map [symmetric])
    then show ?thesis by (simp add: fun_eq_iff map_of_map)
  qed
  moreover have "look c1 ++ (\<lambda>k. map_option h_value (map_of (tx_writes x) k)) = tx_view (look c) x"
  proof
    fix k
    show "(look c1 ++ (\<lambda>k. map_option h_value (map_of (tx_writes x) k))) k = tx_view (look c) x k"
      using x 1(2) by (auto simp: tx_view_def map_add_def tx_inv_def split: option.splits dest!: map_of_SomeD)
  qed
  ultimately show ?thesis by (simp add: tx_Commit_def Let_def f flip: c1_def)
qed


subsection \<open>The iterator\<close>

text \<open>The iterators into the writes and into the parent are the entries still ahead of them.\<close>

record 'v tx_iter =
  it_tx :: "(bytes \<times> 'v holder) list"
  it_parent :: "bytes list"
  it_parentKey :: bytes
  it_curIsParent :: bool

fun SkipDeletedAndOverwritten :: "'v db_tx \<Rightarrow> bytes list \<Rightarrow> bytes \<Rightarrow> bytes list \<times> bytes" where
  "SkipDeletedAndOverwritten x [] parentKey = ([], parentKey)"
| "SkipDeletedAndOverwritten x (k # ks) parentKey =
     (if k \<notin> set (tx_deletes x) \<and> map_of (tx_writes x) k = None then (k # ks, k)
      else SkipDeletedAndOverwritten x ks k)"

definition it_skip :: "'v db_tx \<Rightarrow> 'v tx_iter \<Rightarrow> 'v tx_iter" where
  "it_skip x it = (let (ks, k) = SkipDeletedAndOverwritten x (it_parent it) (it_parentKey it)
     in it\<lparr>it_parent := ks, it_parentKey := k\<rparr>)"

definition DecideCur :: "'v tx_iter \<Rightarrow> 'v tx_iter" where
  "DecideCur it =
     (if it_tx it \<noteq> [] \<and> it_parent it = [] then it\<lparr>it_curIsParent := False\<rparr>
      else if it_tx it = [] \<and> it_parent it \<noteq> [] then it\<lparr>it_curIsParent := True\<rparr>
      else if it_tx it \<noteq> [] \<and> it_parent it \<noteq> []
      then it\<lparr>it_curIsParent := \<not> fst (hd (it_tx it)) < it_parentKey it\<rparr>
      else it)"

definition NewIterator :: "'v tx_iter" where
  "NewIterator = \<lparr>it_tx = [], it_parent = [], it_parentKey = [], it_curIsParent = False\<rparr>"

definition SeekToFirst :: "'v db_tx \<Rightarrow> bytes list \<Rightarrow> 'v tx_iter \<Rightarrow> 'v tx_iter" where
  "SeekToFirst x pkeys it = DecideCur (it_skip x (it\<lparr>it_tx := tx_writes x, it_parent := pkeys\<rparr>))"

definition Seek :: "'v db_tx \<Rightarrow> bytes list \<Rightarrow> bytes \<Rightarrow> 'v tx_iter \<Rightarrow> 'v tx_iter" where
  "Seek x pkeys ssKey it =
     DecideCur (it_skip x (it\<lparr>it_tx := dropWhile (\<lambda>(k, _). k < ssKey) (tx_writes x),
       it_parent := dropWhile (\<lambda>k. k < ssKey) pkeys\<rparr>))"

definition it_Valid :: "'v tx_iter \<Rightarrow> bool" where
  "it_Valid it \<longleftrightarrow> it_tx it \<noteq> [] \<or> it_parent it \<noteq> []"

text \<open>\<open>Next\<close>; \<open>None\<close> is a failed assertion.\<close>

definition it_Next :: "'v db_tx \<Rightarrow> 'v tx_iter \<Rightarrow> 'v tx_iter option" where
  "it_Next x it =
     (if it_tx it = [] \<and> it_parent it = [] then Some it
      else if it_curIsParent it
      then if it_parent it = [] then None
           else Some (DecideCur (it_skip x (it\<lparr>it_parent := tl (it_parent it)\<rparr>)))
      else if it_tx it = [] then None
           else Some (DecideCur (it\<lparr>it_tx := tl (it_tx it)\<rparr>)))"

definition it_GetKey :: "'v tx_iter \<Rightarrow> bytes option" where
  "it_GetKey it = (if \<not> it_Valid it then None
     else if it_curIsParent it then Some (it_parentKey it) else Some (fst (hd (it_tx it))))"

text \<open>The keys a loop \<open>for (; it->Valid(); it->Next())\<close> visits.\<close>

fun it_keys :: "nat \<Rightarrow> 'v db_tx \<Rightarrow> 'v tx_iter \<Rightarrow> bytes list option" where
  "it_keys 0 x it = (if it_Valid it then None else Some [])"
| "it_keys (Suc n) x it =
     (case it_GetKey it of
        None \<Rightarrow> Some []
      | Some k \<Rightarrow> (case it_Next x it of
            None \<Rightarrow> None
          | Some it' \<Rightarrow> map_option ((#) k) (it_keys n x it')))"

fun merge_keys :: "'k::linorder list \<Rightarrow> 'k list \<Rightarrow> 'k list" where
  "merge_keys [] ys = ys"
| "merge_keys (x # xs) [] = x # xs"
| "merge_keys (x # xs) (y # ys) = (if x < y then x # merge_keys xs (y # ys) else y # merge_keys (x # xs) ys)"

lemma merge_keys_Nil2 [simp]: "merge_keys xs [] = xs"
  by (cases xs) auto

lemma set_merge_keys: "set (merge_keys xs ys) = set xs \<union> set ys"
  by (induction xs ys rule: merge_keys.induct) auto

lemma sorted_merge_keys:
  "sorted xs \<Longrightarrow> distinct xs \<Longrightarrow> sorted ys \<Longrightarrow> distinct ys \<Longrightarrow> set xs \<inter> set ys = {} \<Longrightarrow>
   sorted (merge_keys xs ys) \<and> distinct (merge_keys xs ys)"
proof (induction xs ys rule: merge_keys.induct)
  case (3 x xs y ys)
  then show ?case by (auto simp: set_merge_keys not_less)
qed auto

definition shown :: "'v db_tx \<Rightarrow> bytes \<Rightarrow> bool" where
  "shown x k \<longleftrightarrow> k \<notin> set (tx_deletes x) \<and> map_of (tx_writes x) k = None"

lemma skip_shown:
  "SkipDeletedAndOverwritten x ks pk = (ks', k') \<Longrightarrow>
     filter (shown x) ks' = filter (shown x) ks \<and> length ks' \<le> length ks \<and> (ks' = [] \<or> hd ks' = k' \<and> shown x k')"
  by (induction x ks pk rule: SkipDeletedAndOverwritten.induct) (auto simp: shown_def split: if_splits)

lemma DecideCur_simps [simp]:
  "it_tx (DecideCur it) = it_tx it" "it_parent (DecideCur it) = it_parent it"
  "it_parentKey (DecideCur it) = it_parentKey it"
  by (simp_all add: DecideCur_def)

lemma it_skip_shown:
  "it_tx (it_skip x it) = it_tx it \<and> filter (shown x) (it_parent (it_skip x it)) = filter (shown x) (it_parent it) \<and>
   length (it_parent (it_skip x it)) \<le> length (it_parent it) \<and>
   (it_parent (it_skip x it) \<noteq> [] \<longrightarrow> hd (it_parent (it_skip x it)) = it_parentKey (it_skip x it) \<and>
      shown x (it_parentKey (it_skip x it)))"
  using skip_shown [of x "it_parent it" "it_parentKey it"]
  by (auto simp: it_skip_def split: prod.splits)

lemma it_keys_merge:
  assumes "it_parent it0 \<noteq> [] \<Longrightarrow> hd (it_parent it0) = it_parentKey it0 \<and> shown x (it_parentKey it0)"
    and "length (it_tx it0) + length (it_parent it0) \<le> n"
  shows "it_keys n x (DecideCur it0) = Some (merge_keys (map fst (it_tx it0)) (filter (shown x) (it_parent it0)))"
  using assms
proof (induction n arbitrary: it0)
  case 0
  then show ?case by (simp add: it_Valid_def)
next
  case (Suc n)
  define it where "it = DecideCur it0"
  have parent: "it_keys n x (DecideCur (it_skip x (it\<lparr>it_parent := ps\<rparr>))) =
      Some (merge_keys (map fst (it_tx it0)) (filter (shown x) ps))" if "it_parent it0 = p # ps" for p ps
    using Suc.IH [of "it_skip x (it\<lparr>it_parent := ps\<rparr>)"] it_skip_shown [of x "it\<lparr>it_parent := ps\<rparr>"] Suc.prems that
    by (simp add: it_def)
  have own: "it_keys n x (DecideCur (it\<lparr>it_tx := ws\<rparr>)) =
      Some (merge_keys (map fst ws) (filter (shown x) (it_parent it0)))" if "it_tx it0 = w # ws" for w ws
    using Suc.IH [of "it\<lparr>it_tx := ws\<rparr>"] Suc.prems that by (simp add: it_def)
  show ?case
  proof (cases "it_tx it0")
    case Nil
    show ?thesis
    proof (cases "it_parent it0")
      case Nil
      with \<open>it_tx it0 = []\<close> show ?thesis by (simp add: it_GetKey_def it_Valid_def)
    next
      case (Cons p ps)
      have "it_curIsParent it" using \<open>it_tx it0 = []\<close> Cons by (simp add: it_def DecideCur_def)
      then show ?thesis using \<open>it_tx it0 = []\<close> Cons parent [OF Cons] Suc.prems(1)
        by (simp add: it_GetKey_def it_Valid_def it_Next_def flip: it_def) (simp add: it_def)
    qed
  next
    case w: (Cons w ws)
    show ?thesis
    proof (cases "it_parent it0")
      case Nil
      then have "\<not> it_curIsParent it" using w by (simp add: it_def DecideCur_def)
      then show ?thesis using w Nil own [OF w]
        by (simp add: it_GetKey_def it_Valid_def it_Next_def flip: it_def) (simp add: it_def)
    next
      case (Cons p ps)
      have c: "it_curIsParent it \<longleftrightarrow> \<not> fst w < p" using w Cons Suc.prems(1) by (simp add: it_def DecideCur_def)
      then show ?thesis using w Cons own [OF w] parent [OF Cons] Suc.prems(1)
        by (simp add: it_GetKey_def it_Valid_def it_Next_def flip: it_def) (simp add: it_def)
    qed
  qed
qed


subsection \<open>Properties\<close>

text \<open>The states a transaction goes through.\<close>

inductive tx_reach :: "'v db_tx \<Rightarrow> bool" where
  new: "tx_reach CDBTransaction"
| wr: "tx_reach x \<Longrightarrow> tx_reach (tx_Write t u k v x)"
| er: "tx_reach x \<Longrightarrow> tx_reach (tx_Erase k x)"
| cl: "tx_reach x \<Longrightarrow> tx_reach (tx_Clear x)"

lemma tx_inv_Clear: "tx_inv (tx_Clear x)"
  by (simp add: tx_inv_def tx_Clear_def tx_usage_def map_wf_def)

lemma tx_reach_inv: "tx_reach x \<Longrightarrow> tx_inv x"
  by (induction rule: tx_reach.induct)
    (auto simp: tx_inv_Write tx_inv_Erase tx_inv_Clear, simp add: tx_inv_def CDBTransaction_def tx_usage_def map_wf_def)

text \<open>C29. The memory counter of a transaction, kept up by additions and subtractions on every
  overwrite, undelete and erase, is always exactly the sum over the entries it holds; it is never
  negative, and no key is both written and deleted.\<close>

theorem tx_memory_accounting:
  assumes "tx_reach x"
  shows "tx_memoryUsage x = int (tx_usage x) \<and> tx_GetMemoryUsage x = tx_usage x \<and>
    fst ` set (tx_writes x) \<inter> set (tx_deletes x) = {}"
  using tx_reach_inv [OF assms] by (simp add: tx_inv_def tx_GetMemoryUsage_def)

theorem tx_memory_accounting_witness:
  "tx_GetMemoryUsage (tx_Erase [1] (tx_Write 0 4 [1, 2] (5 :: nat) (tx_Write 0 9 [1] 7 CDBTransaction))) = 7"
  using tx_memory_accounting [OF tx_reach.er [OF tx_reach.wr [OF tx_reach.wr [OF tx_reach.new]]],
      of "[1]" 0 4 "[1, 2]" "5 :: nat" 0 9 "[1]" 7]
  by (simp add: tx_usage_def tx_Erase_def tx_Write_def CDBTransaction_def Let_def map_del_def)

text \<open>C11. Reads and existence tests through a transaction answer from its own writes and deletes
  first and from the parent otherwise; committing it to any store that keeps the key-value contract
  leaves that store with exactly the transaction's view, and the transaction empty.\<close>

theorem tx_commit_refines:
  assumes "kv_store look put del cinv (\<lambda>_. True)" and "cinv c" and "tx_reach x"
  shows "look (snd (tx_Commit del put x c)) = tx_view (look c) x \<and>
    tx_IsClean (fst (tx_Commit del put x c)) \<and>
    (\<forall>t k. (\<forall>h. map_of (tx_writes x) k = Some h \<longrightarrow> h_type h = t) \<longrightarrow>
       tx_Read (\<lambda>p k. Inr (look p k)) c t x k = Inr (tx_view (look c) x k)) \<and>
    (\<forall>k. tx_Exists (\<lambda>p k. Inr (look p k \<noteq> None)) c x k = Inr (tx_view (look c) x k \<noteq> None))"
  using commit_view [OF assms(1,2) tx_reach_inv [OF assms(3)]]
  by (auto simp: tx_IsClean_def tx_Commit_def tx_Clear_def tx_Read_def tx_Exists_def tx_view_def Let_def
      split: option.splits)

theorem tx_commit_refines_witness:
  "snd (tx_Commit (\<lambda>k (m :: bytes \<rightharpoonup> nat). m(k := None)) (\<lambda>k v m. m(k \<mapsto> v))
      (tx_Erase [3] (tx_Write 0 1 [2] 9 CDBTransaction)) [[3] \<mapsto> 5, [4] \<mapsto> 6]) [2] = Some 9"
proof -
  have "kv_store (\<lambda>m :: bytes \<rightharpoonup> nat. m) (\<lambda>k v m. m(k \<mapsto> v)) (\<lambda>k m. m(k := None)) (\<lambda>_. True) (\<lambda>_. True)"
    by unfold_locales auto
  from tx_commit_refines [where c = "[[3] \<mapsto> 5, [4] \<mapsto> 6]" and x = "tx_Erase [3] (tx_Write 0 1 [2] 9 CDBTransaction)",
      OF this _ tx_reach.er [OF tx_reach.wr [OF tx_reach.new]]]
  show ?thesis by (simp add: tx_view_def tx_Erase_def tx_Write_def CDBTransaction_def Let_def)
qed

text \<open>C28. The merging iterator visits exactly the keys of the transaction's view, each once and in
  increasing order, and its assertions never fail.\<close>

theorem tx_iteration:
  assumes "tx_reach x" and "finite (dom base)" and "pkeys = sorted_list_of_set (dom base)"
  shows "it_keys (length (tx_writes x) + length pkeys) x (SeekToFirst x pkeys it) =
    Some (sorted_list_of_set (dom (tx_view base x)))"
proof -
  let ?it = "it\<lparr>it_tx := tx_writes x, it_parent := pkeys\<rparr>"
  let ?ks = "merge_keys (map fst (tx_writes x)) (filter (shown x) pkeys)"
  have inv: "tx_inv x" using tx_reach_inv [OF assms(1)] .
  have "it_keys (length (tx_writes x) + length pkeys) x (SeekToFirst x pkeys it) = Some ?ks"
    using it_keys_merge [of "it_skip x ?it" x "length (tx_writes x) + length pkeys"] it_skip_shown [of x ?it]
    by (simp add: SeekToFirst_def)
  moreover have "sorted ?ks \<and> distinct ?ks"
    using inv assms(2,3)
    by (intro sorted_merge_keys) (auto simp: tx_inv_def map_wf_def sorted_wrt_filter shown_def map_of_eq_None_iff)
  moreover have "set ?ks = dom (tx_view base x)"
    using inv assms(2,3)
    by (auto simp: set_merge_keys shown_def tx_view_def tx_inv_def map_of_eq_None_iff dom_def split: option.splits)
  ultimately show ?thesis
    by (metis sorted_list_of_set.idem_if_sorted_distinct)
qed


theorem tx_iteration_witness:
  "\<exists>ks. it_keys 3 (tx_Erase [3] (tx_Write 0 1 [2] (9 :: nat) CDBTransaction))
       (SeekToFirst (tx_Erase [3] (tx_Write 0 1 [2] 9 CDBTransaction)) [[3], [4]] NewIterator) = Some ks \<and>
     set ks = {[2], [4]}"
proof -
  let ?x = "tx_Erase [3] (tx_Write 0 1 [2] (9 :: nat) CDBTransaction)" and ?base = "[[3 :: byte] \<mapsto> 5, [4] \<mapsto> (6 :: nat)]"
  have x: "?x = \<lparr>tx_writes = [([2], \<lparr>h_type = 0, h_value = 9, h_memoryUsage = 1\<rparr>)], tx_deletes = [[3]], tx_memoryUsage = 3\<rparr>"
    by (simp add: tx_Erase_def tx_Write_def CDBTransaction_def Let_def)
  have p: "[[3], [4]] = sorted_list_of_set (dom ?base)"
    by (rule sorted_distinct_set_unique) auto
  have d: "dom (tx_view ?base ?x) = {[2], [4]}"
    unfolding x by (auto simp: tx_view_def dom_def split: if_splits)
  have n: "length (tx_writes ?x) + length [[3 :: byte], [4]] = 3"
    unfolding x by simp
  show ?thesis
    using tx_iteration [OF tx_reach.er [OF tx_reach.wr [OF tx_reach.new]] _ p, of "[3]" 0 1 "[2]" 9 NewIterator]
    unfolding d n by (intro exI [of _ "sorted_list_of_set {[2], [4]}"]) simp
qed

end
