(* ===== verification/ContractDB.thy ===== *)
theory ContractDB
  imports DBWrapper
begin

text \<open>
  The contract database \<open>src/src/qtum/contractdb.h\<close>, \<open>src/src/qtum/contractdb.cpp\<close>: the code, storage,
  nonces and balances of contract accounts, kept in one \<open>CDBWrapper\<close> under keys that begin with a
  letter.  The abstract specification is a record of four maps; under the contract of the LevelDB
  backend every sequence of operations refines the same sequence on the maps.
\<close>

subsection \<open>Keys\<close>

definition DB_CODE :: byte where "DB_CODE = 0x43"
definition DB_STORAGE :: byte where "DB_STORAGE = 0x53"
definition DB_NONCE :: byte where "DB_NONCE = 0x4E"
definition DB_BALANCE :: byte where "DB_BALANCE = 0x42"

abbreviation db_key :: "byte \<Rightarrow> bytes \<Rightarrow> bytes" where
  "db_key prefix k \<equiv> Serialize_pair ser_writedata8 Serialize_bytes (prefix, k)"

subsection \<open>Operations\<close>

definition WriteCode :: "'db leveldb \<Rightarrow> bytes \<Rightarrow> bytes \<Rightarrow> 'db cdb_wrapper \<Rightarrow> exn + 'db cdb_wrapper" where
  "WriteCode ldb address code db = DB_Write ldb (db_key DB_CODE address) (Serialize_bytes code) db"

definition ReadCode :: "'db leveldb \<Rightarrow> bytes \<Rightarrow> 'db cdb_wrapper \<Rightarrow> exn + bytes option" where
  "ReadCode ldb address db = DB_Read ldb Unserialize_bytes db (db_key DB_CODE address)"

definition HasCode :: "'db leveldb \<Rightarrow> bytes \<Rightarrow> 'db cdb_wrapper \<Rightarrow> exn + bool" where
  "HasCode ldb address db = DB_Exists ldb db (db_key DB_CODE address)"

definition EraseCode :: "'db leveldb \<Rightarrow> bytes \<Rightarrow> 'db cdb_wrapper \<Rightarrow> exn + 'db cdb_wrapper" where
  "EraseCode ldb address db = DB_Erase ldb (db_key DB_CODE address) db"

definition WriteStorage :: "'db leveldb \<Rightarrow> bytes \<Rightarrow> bytes \<Rightarrow> bytes \<Rightarrow> 'db cdb_wrapper \<Rightarrow> exn + 'db cdb_wrapper" where
  "WriteStorage ldb address key value db =
     (let combinedKey = address @ key in DB_Write ldb (db_key DB_STORAGE combinedKey) (Serialize_bytes value) db)"

definition ReadStorage :: "'db leveldb \<Rightarrow> bytes \<Rightarrow> bytes \<Rightarrow> 'db cdb_wrapper \<Rightarrow> exn + bytes option" where
  "ReadStorage ldb address key db =
     (let combinedKey = address @ key in DB_Read ldb Unserialize_bytes db (db_key DB_STORAGE combinedKey))"

definition EraseStorage :: "'db leveldb \<Rightarrow> bytes \<Rightarrow> bytes \<Rightarrow> 'db cdb_wrapper \<Rightarrow> exn + 'db cdb_wrapper" where
  "EraseStorage ldb address key db =
     (let combinedKey = address @ key in DB_Erase ldb (db_key DB_STORAGE combinedKey) db)"

definition WriteNonce :: "'db leveldb \<Rightarrow> bytes \<Rightarrow> u64 \<Rightarrow> 'db cdb_wrapper \<Rightarrow> exn + 'db cdb_wrapper" where
  "WriteNonce ldb address nonce db = DB_Write ldb (db_key DB_NONCE address) (ser_writedata64 nonce) db"

definition ReadNonce :: "'db leveldb \<Rightarrow> bytes \<Rightarrow> 'db cdb_wrapper \<Rightarrow> exn + u64 option" where
  "ReadNonce ldb address db = DB_Read ldb ser_readdata64 db (db_key DB_NONCE address)"

text \<open>A balance is an \<open>int64_t\<close>: the same 64 bits, read as a signed number by its users.\<close>

definition WriteBalance :: "'db leveldb \<Rightarrow> bytes \<Rightarrow> u64 \<Rightarrow> 'db cdb_wrapper \<Rightarrow> exn + 'db cdb_wrapper" where
  "WriteBalance ldb address balance db = DB_Write ldb (db_key DB_BALANCE address) (ser_writedata64 balance) db"

definition ReadBalance :: "'db leveldb \<Rightarrow> bytes \<Rightarrow> 'db cdb_wrapper \<Rightarrow> exn + u64 option" where
  "ReadBalance ldb address db = DB_Read ldb ser_readdata64 db (db_key DB_BALANCE address)"

definition ContractDB_Flush :: "'db leveldb \<Rightarrow> 'db cdb_wrapper \<Rightarrow> exn + 'db cdb_wrapper" where
  "ContractDB_Flush ldb db = DB_Sync ldb db"

definition ContractDB_Sync :: "'db leveldb \<Rightarrow> 'db cdb_wrapper \<Rightarrow> exn + 'db cdb_wrapper" where
  "ContractDB_Sync ldb db = DB_Sync ldb db"

text \<open>
  The global pointer \<open>pcontractdb\<close>.  \<open>InitContractDB\<close> gets the outcome of opening the database at
  \<open>path\<close> plus \<open>/contracts\<close>; a throw of the constructor is caught and leaves the pointer as it was.
\<close>

definition InitContractDB :: "(string \<Rightarrow> exn + 'db cdb_wrapper) \<Rightarrow> string \<Rightarrow> 'db cdb_wrapper option
    \<Rightarrow> bool \<times> 'db cdb_wrapper option" where
  "InitContractDB opens path pcontractdb = (case opens (path @ ''/contracts'') of
       Inr db \<Rightarrow> (True, Some db) | Inl _ \<Rightarrow> (False, pcontractdb))"

definition ShutdownContractDB :: "'db leveldb \<Rightarrow> 'db cdb_wrapper option \<Rightarrow> exn + 'db cdb_wrapper option" where
  "ShutdownContractDB ldb pcontractdb = (case pcontractdb of
       None \<Rightarrow> Inr None
     | Some db \<Rightarrow> (case ContractDB_Flush ldb db of Inl e \<Rightarrow> Inl e | Inr _ \<Rightarrow> Inr None))"

subsection \<open>Sequences of operations\<close>

datatype db_op =
    WCode bytes bytes | ECode bytes | WStorage bytes bytes bytes | EStorage bytes bytes
  | WNonce bytes u64 | WBalance bytes u64 | Flush

fun db_exec :: "'db leveldb \<Rightarrow> db_op \<Rightarrow> 'db cdb_wrapper \<Rightarrow> exn + 'db cdb_wrapper" where
  "db_exec ldb (WCode a c) db = WriteCode ldb a c db"
| "db_exec ldb (ECode a) db = EraseCode ldb a db"
| "db_exec ldb (WStorage a k v) db = WriteStorage ldb a k v db"
| "db_exec ldb (EStorage a k) db = EraseStorage ldb a k db"
| "db_exec ldb (WNonce a n) db = WriteNonce ldb a n db"
| "db_exec ldb (WBalance a b) db = WriteBalance ldb a b db"
| "db_exec ldb Flush db = ContractDB_Flush ldb db"

fun db_run :: "'db leveldb \<Rightarrow> db_op list \<Rightarrow> 'db cdb_wrapper \<Rightarrow> exn + 'db cdb_wrapper" where
  "db_run ldb [] db = Inr db"
| "db_run ldb (op # ops) db = (case db_exec ldb op db of Inl e \<Rightarrow> Inl e | Inr db' \<Rightarrow> db_run ldb ops db')"

subsection \<open>Abstract specification\<close>

record accounts =
  acc_code :: "bytes \<rightharpoonup> bytes"
  acc_storage :: "bytes \<times> bytes \<rightharpoonup> bytes"
  acc_nonce :: "bytes \<rightharpoonup> u64"
  acc_balance :: "bytes \<rightharpoonup> u64"

fun spec_exec :: "db_op \<Rightarrow> accounts \<Rightarrow> accounts" where
  "spec_exec (WCode a c) s = s\<lparr>acc_code := (acc_code s)(a \<mapsto> c)\<rparr>"
| "spec_exec (ECode a) s = s\<lparr>acc_code := (acc_code s)(a := None)\<rparr>"
| "spec_exec (WStorage a k v) s = s\<lparr>acc_storage := (acc_storage s)((a, k) \<mapsto> v)\<rparr>"
| "spec_exec (EStorage a k) s = s\<lparr>acc_storage := (acc_storage s)((a, k) := None)\<rparr>"
| "spec_exec (WNonce a n) s = s\<lparr>acc_nonce := (acc_nonce s)(a \<mapsto> n)\<rparr>"
| "spec_exec (WBalance a b) s = s\<lparr>acc_balance := (acc_balance s)(a \<mapsto> b)\<rparr>"
| "spec_exec Flush s = s"

text \<open>
  What the database holds: entries that can be read back.  Two storage slots have different keys when
  their addresses have the same length, so accounts are those with 20-byte addresses.
\<close>

definition valid_addr :: "bytes \<Rightarrow> bool" where
  "valid_addr a \<longleftrightarrow> length a = 20"

definition valid_slot :: "bytes \<Rightarrow> bool" where
  "valid_slot k \<longleftrightarrow> length k \<le> MAX_SIZE - 20"

fun valid_op :: "db_op \<Rightarrow> bool" where
  "valid_op (WCode a c) = (valid_addr a \<and> length c \<le> MAX_SIZE)"
| "valid_op (ECode a) = valid_addr a"
| "valid_op (WStorage a k v) = (valid_addr a \<and> valid_slot k \<and> length v \<le> MAX_SIZE)"
| "valid_op (EStorage a k) = (valid_addr a \<and> valid_slot k)"
| "valid_op (WNonce a n) = valid_addr a"
| "valid_op (WBalance a b) = valid_addr a"
| "valid_op Flush = True"

definition answer :: "exn + 'v option \<Rightarrow> 'v option" where
  "answer r = (case r of Inl _ \<Rightarrow> None | Inr v \<Rightarrow> v)"

definition abs_accounts :: "'db leveldb \<Rightarrow> 'db cdb_wrapper \<Rightarrow> accounts" where
  "abs_accounts ldb db =
     \<lparr>acc_code = (\<lambda>a. if valid_addr a then answer (ReadCode ldb a db) else None),
      acc_storage = (\<lambda>(a, k). if valid_addr a \<and> valid_slot k then answer (ReadStorage ldb a k db) else None),
      acc_nonce = (\<lambda>a. if valid_addr a then answer (ReadNonce ldb a db) else None),
      acc_balance = (\<lambda>a. if valid_addr a then answer (ReadBalance ldb a db) else None)\<rparr>"

subsection \<open>Refinement\<close>

lemma db_key_inj:
  assumes "length k \<le> MAX_SIZE" and "length k' \<le> MAX_SIZE"
  shows "db_key p k = db_key p' k' \<longleftrightarrow> p = p' \<and> k = k'"
  using char_key.pair.inj [of "(p, k)" "(p', k')"] assms by simp

lemma prefixes_distinct [simp]:
  "DB_CODE \<noteq> DB_STORAGE" "DB_CODE \<noteq> DB_NONCE" "DB_CODE \<noteq> DB_BALANCE" "DB_STORAGE \<noteq> DB_CODE"
  "DB_STORAGE \<noteq> DB_NONCE" "DB_STORAGE \<noteq> DB_BALANCE" "DB_NONCE \<noteq> DB_CODE" "DB_NONCE \<noteq> DB_STORAGE"
  "DB_NONCE \<noteq> DB_BALANCE" "DB_BALANCE \<noteq> DB_CODE" "DB_BALANCE \<noteq> DB_STORAGE" "DB_BALANCE \<noteq> DB_NONCE"
  by (simp_all add: DB_CODE_def DB_STORAGE_def DB_NONCE_def DB_BALANCE_def)

lemma valid_lengths: "valid_addr a \<Longrightarrow> length a \<le> MAX_SIZE" "valid_addr a \<Longrightarrow> valid_slot k \<Longrightarrow> length a + length k \<le> MAX_SIZE"
  by (simp_all add: valid_addr_def valid_slot_def MAX_SIZE_def)

lemma slot_key_inj: "valid_addr a \<Longrightarrow> valid_addr a' \<Longrightarrow> a @ k = a' @ k' \<longleftrightarrow> a = a' \<and> k = k'"
  by (simp add: valid_addr_def)

text \<open>Reading an entry of the database as a value of its type.\<close>

definition decode :: "'v reader \<Rightarrow> bytes option \<Rightarrow> 'v option" where
  "decode rd raw = (case raw of None \<Rightarrow> None | Some s \<Rightarrow> (case rd s of Inl _ \<Rightarrow> None | Inr (v, _) \<Rightarrow> Some v))"

lemma decode_None [simp]: "decode rd None = None"
  by (simp add: decode_def)

lemma decode_values [simp]:
  "length c \<le> MAX_SIZE \<Longrightarrow> decode Unserialize_bytes (Some (Serialize_bytes c)) = Some c"
  "decode ser_readdata64 (Some (ser_writedata64 n)) = Some n"
  using byte_vector.round [of c "[]"] word64.round [of n "[]"] by (simp_all add: decode_def)

context leveldb_backend
begin

lemma answer_read: "healthy (pdb db) \<Longrightarrow> answer (DB_Read ldb rd db k) = decode rd (raw_value ldb db k)"
  by (simp add: answer_def decode_def DB_Read_healthy)

lemma abs_accounts_raw:
  "healthy (pdb db) \<Longrightarrow> abs_accounts ldb db =
     \<lparr>acc_code = (\<lambda>a. if valid_addr a then decode Unserialize_bytes (raw_value ldb db (db_key DB_CODE a)) else None),
      acc_storage = (\<lambda>(a, k). if valid_addr a \<and> valid_slot k
        then decode Unserialize_bytes (raw_value ldb db (db_key DB_STORAGE (a @ k))) else None),
      acc_nonce = (\<lambda>a. if valid_addr a then decode ser_readdata64 (raw_value ldb db (db_key DB_NONCE a)) else None),
      acc_balance = (\<lambda>a. if valid_addr a then decode ser_readdata64 (raw_value ldb db (db_key DB_BALANCE a)) else None)\<rparr>"
  by (auto simp: abs_accounts_def ReadCode_def ReadStorage_def ReadNonce_def ReadBalance_def answer_read Let_def fun_eq_iff)

lemmas contract_ops = WriteCode_def EraseCode_def WriteStorage_def EraseStorage_def WriteNonce_def WriteBalance_def
  ContractDB_Flush_def Let_def

text \<open>Every operation is one write, one deletion or a synchronisation of the wrapper.\<close>

lemma db_exec_raw:
  assumes "healthy (pdb db)"
  shows "\<exists>db'. db_exec ldb op db = Inr db' \<and> healthy (pdb db') \<and> obfuscate_key db' = obfuscate_key db \<and>
    raw_value ldb db' = (case op of
        WCode a c \<Rightarrow> (raw_value ldb db)(db_key DB_CODE a \<mapsto> Serialize_bytes c)
      | ECode a \<Rightarrow> (raw_value ldb db)(db_key DB_CODE a := None)
      | WStorage a k v \<Rightarrow> (raw_value ldb db)(db_key DB_STORAGE (a @ k) \<mapsto> Serialize_bytes v)
      | EStorage a k \<Rightarrow> (raw_value ldb db)(db_key DB_STORAGE (a @ k) := None)
      | WNonce a n \<Rightarrow> (raw_value ldb db)(db_key DB_NONCE a \<mapsto> ser_writedata64 n)
      | WBalance a b \<Rightarrow> (raw_value ldb db)(db_key DB_BALANCE a \<mapsto> ser_writedata64 b)
      | Flush \<Rightarrow> raw_value ldb db)"
proof -
  note W = DB_Write_healthy [OF assms] and E = DB_Erase_healthy [OF assms] and S = DB_Sync_healthy [OF assms]
  show ?thesis
  proof (cases op)
    case (WCode a c) then show ?thesis using W [of "db_key DB_CODE a" "Serialize_bytes c"] by (auto simp: contract_ops)
  next
    case (ECode a) then show ?thesis using E [of "db_key DB_CODE a"] by (auto simp: contract_ops)
  next
    case (WStorage a k v) then show ?thesis
      using W [of "db_key DB_STORAGE (a @ k)" "Serialize_bytes v"] by (auto simp: contract_ops)
  next
    case (EStorage a k) then show ?thesis using E [of "db_key DB_STORAGE (a @ k)"] by (auto simp: contract_ops)
  next
    case (WNonce a n) then show ?thesis using W [of "db_key DB_NONCE a" "ser_writedata64 n"] by (auto simp: contract_ops)
  next
    case (WBalance a b) then show ?thesis using W [of "db_key DB_BALANCE a" "ser_writedata64 b"] by (auto simp: contract_ops)
  next
    case Flush then show ?thesis using S by (auto simp: contract_ops)
  qed
qed

lemma db_exec_refines:
  assumes h: "healthy (pdb db)" and v: "valid_op op"
  shows "\<exists>db'. db_exec ldb op db = Inr db' \<and> healthy (pdb db') \<and>
    abs_accounts ldb db' = spec_exec op (abs_accounts ldb db)"
proof -
  obtain db' where db': "db_exec ldb op db = Inr db'" "healthy (pdb db')"
    and raw: "raw_value ldb db' = (case op of
        WCode a c \<Rightarrow> (raw_value ldb db)(db_key DB_CODE a \<mapsto> Serialize_bytes c)
      | ECode a \<Rightarrow> (raw_value ldb db)(db_key DB_CODE a := None)
      | WStorage a k v \<Rightarrow> (raw_value ldb db)(db_key DB_STORAGE (a @ k) \<mapsto> Serialize_bytes v)
      | EStorage a k \<Rightarrow> (raw_value ldb db)(db_key DB_STORAGE (a @ k) := None)
      | WNonce a n \<Rightarrow> (raw_value ldb db)(db_key DB_NONCE a \<mapsto> ser_writedata64 n)
      | WBalance a b \<Rightarrow> (raw_value ldb db)(db_key DB_BALANCE a \<mapsto> ser_writedata64 b)
      | Flush \<Rightarrow> raw_value ldb db)"
    using db_exec_raw [OF h, of op] by auto
  have "abs_accounts ldb db' = spec_exec op (abs_accounts ldb db)"
    using v unfolding abs_accounts_raw [OF h] abs_accounts_raw [OF db'(2)]
    by (cases op) (auto simp: raw fun_eq_iff db_key_inj valid_lengths slot_key_inj simp del: append_eq_append_conv)
  then show ?thesis using db' by blast
qed

lemma db_run_refines:
  "healthy (pdb db) \<Longrightarrow> list_all valid_op ops \<Longrightarrow> \<exists>db'. db_run ldb ops db = Inr db' \<and> healthy (pdb db') \<and>
     abs_accounts ldb db' = fold spec_exec ops (abs_accounts ldb db)"
proof (induction ops arbitrary: db)
  case (Cons op ops)
  then obtain db1 where "db_exec ldb op db = Inr db1" "healthy (pdb db1)" "abs_accounts ldb db1 = spec_exec op (abs_accounts ldb db)"
    using db_exec_refines [of db op] by auto
  then show ?case using Cons.IH [of db1] Cons.prems by auto
qed simp

lemma HasCode_abs:
  "healthy (pdb db) \<Longrightarrow> HasCode ldb a db = Inr (raw_value ldb db (db_key DB_CODE a) \<noteq> None)"
  by (simp add: HasCode_def DB_Exists_healthy)

end

text \<open>C10. Every sequence of writes, erasures and flushes of the contract database succeeds and
  refines the same sequence on four independent maps from account addresses to code, from address
  and slot to storage, and from addresses to nonces and balances: the key prefixes keep the four
  tables apart and, for addresses of 20 bytes, the concatenated storage key keeps accounts apart.\<close>

theorem contract_db_refines:
  assumes "leveldb_backend ldb entries healthy" and "healthy (pdb db)" and "list_all valid_op ops"
  shows "\<exists>db'. db_run ldb ops db = Inr db' \<and> abs_accounts ldb db' = fold spec_exec ops (abs_accounts ldb db)"
  using leveldb_backend.db_run_refines [OF assms] by blast

theorem contract_db_refines_witness:
  "\<exists>db'. db_run mem_leveldb [WCode (replicate 20 1) [0x60], WStorage (replicate 20 1) [2] [7], WNonce (replicate 20 1) 9, Flush]
       \<lparr>pdb = Map.empty, obfuscate_key = [3, 5]\<rparr> = Inr db' \<and>
     acc_code (abs_accounts mem_leveldb db') (replicate 20 1) = Some [0x60] \<and>
     acc_storage (abs_accounts mem_leveldb db') (replicate 20 1, [2]) = Some [7]"
proof -
  have v: "list_all valid_op [WCode (replicate 20 1) [0x60], WStorage (replicate 20 1) [2] [7], WNonce (replicate 20 1) 9, Flush]"
    by (simp add: valid_addr_def valid_slot_def MAX_SIZE_def)
  show ?thesis
    using contract_db_refines [OF mem.leveldb_backend_axioms _ v, of "\<lparr>pdb = Map.empty, obfuscate_key = [3, 5]\<rparr>"] by auto
qed

end
