(* ===== verification/Script.thy ===== *)
theory Script
  imports Serialize Opcodes "HOL-Library.Sublist"
begin

text \<open>
  Scripts: \<open>CScriptNum\<close> and \<open>CScript\<close> of \<open>src/src/script/script.h\<close> and \<open>src/src/script/script.cpp\<close>.
  A script is its bytes; an iterator into a script is the list of bytes from its position to the end.
  (\<open>prevector\<close> keeps sizes in 32 bits and distances in signed 32 bits; a script is shorter than
  \<open>2 ^ 31\<close> bytes.)
\<close>

unbundle bit_operations_syntax

type_synonym script = bytes

definition MAX_SCRIPT_ELEMENT_SIZE :: nat where
  "MAX_SCRIPT_ELEMENT_SIZE = 520"

definition MAX_OPS_PER_SCRIPT :: nat where
  "MAX_OPS_PER_SCRIPT = 201"

definition MAX_PUBKEYS_PER_MULTISIG :: nat where
  "MAX_PUBKEYS_PER_MULTISIG = 20"

definition MAX_SCRIPT_SIZE :: nat where
  "MAX_SCRIPT_SIZE = 10000"

definition LOCKTIME_THRESHOLD :: nat where
  "LOCKTIME_THRESHOLD = 500000000"

subsection \<open>Script numbers\<close>

text \<open>The value \<open>m_value\<close> is a signed 64-bit integer; it is an \<open>int\<close> here.  \<open>set_vch\<close> collects the
  bytes in a 64-bit word, as the code does.\<close>

definition set_vch :: "bytes \<Rightarrow> int" where
  "set_vch v =
    (if v = [] then 0
     else let result = fold (\<lambda>i r. r OR push_bit (8 * i) (ucast (v ! i))) [0..<length v] (0 :: u64) in
       if last v AND 0x80 \<noteq> 0
       then - sint (result AND NOT (push_bit (8 * (length v - 1)) 0x80))
       else sint result)"

definition not_minimal :: "bytes \<Rightarrow> bool" where
  "not_minimal v \<longleftrightarrow> last v AND 0x7f = 0 \<and> (length v \<le> 1 \<or> v ! (length v - 2) AND 0x80 = 0)"

definition CScriptNum :: "bool \<Rightarrow> nat \<Rightarrow> bytes \<Rightarrow> string + int" where
  "CScriptNum fRequireMinimal nMaxNumSize v =
    (if nMaxNumSize < length v then Inl ''script number overflow''
     else if fRequireMinimal \<and> 0 < length v \<and> not_minimal v
     then Inl ''non-minimally encoded script number''
     else Inr (set_vch v))"

function serialize_loop :: "u64 \<Rightarrow> bytes" where
  "serialize_loop absvalue =
    (if absvalue = 0 then [] else ucast (absvalue AND 0xff) # serialize_loop (drop_bit 8 absvalue))"
  by pat_completeness auto
termination
  by (relation "measure unat") (auto simp: unat_drop_bit_div unat_gt_0)

declare serialize_loop.simps [simp del]

definition ScriptNum_serialize :: "int \<Rightarrow> bytes" where
  "ScriptNum_serialize value =
    (if value = 0 then []
     else let neg = value < 0; result = serialize_loop (word_of_int (if neg then - value else value)) in
       if last result AND 0x80 \<noteq> 0 then result @ [if neg then 0x80 else 0]
       else if neg then butlast result @ [last result OR 0x80]
       else result)"

definition getint :: "int \<Rightarrow> int" where
  "getint m_value =
    (if m_value > 2147483647 then 2147483647 else if m_value < - 2147483648 then - 2147483648 else m_value)"

subsection \<open>Building scripts\<close>

text \<open>\<open>operator<<\<close> for a byte vector.\<close>

definition push_data :: "bytes \<Rightarrow> script" where
  "push_data b =
    (if length b < unat OP_PUSHDATA1 then of_nat (length b) # b
     else if length b \<le> 0xff then OP_PUSHDATA1 # of_nat (length b) # b
     else if length b \<le> 0xffff then OP_PUSHDATA2 # le_bytes 2 (of_nat (length b) :: u16) @ b
     else OP_PUSHDATA4 # le_bytes 4 (of_nat (length b) :: u32) @ b)"

text \<open>\<open>operator<<\<close> for an integer.\<close>

definition push_int64 :: "int \<Rightarrow> script" where
  "push_int64 n =
    (if n = - 1 \<or> (1 \<le> n \<and> n \<le> 16) then [word_of_int (n + (uint OP_1 - 1))]
     else if n = 0 then [OP_0]
     else push_data (ScriptNum_serialize n))"

text \<open>\<open>None\<close> is the failed assertion of \<open>EncodeOP_N\<close>.  The assertion of \<open>DecodeOP_N\<close>, that the opcode is
  \<open>OP_0\<close> or between \<open>OP_1\<close> and \<open>OP_16\<close>, is what both of its callers have just tested; it has no branch
  here.\<close>

definition EncodeOP_N :: "int \<Rightarrow> byte option" where
  "EncodeOP_N n = (if 0 \<le> n \<and> n \<le> 16 then Some (if n = 0 then OP_0 else word_of_int (uint OP_1 + n - 1)) else None)"

definition DecodeOP_N :: "byte \<Rightarrow> nat" where
  "DecodeOP_N opcode = (if opcode = OP_0 then 0 else unat opcode - (unat OP_1 - 1))"

subsection \<open>Reading instructions\<close>

text \<open>\<open>GetOp2\<close> returns its result, the opcode, the immediate operand and the iterator it leaves,
  also when it fails.\<close>

definition GetOp2_operand :: "byte \<Rightarrow> nat \<Rightarrow> script \<Rightarrow> bool \<times> byte \<times> bytes \<times> script" where
  "GetOp2_operand opcode nSize pc =
    (if length pc < nSize then (False, OP_INVALIDOPCODE, [], pc)
     else (True, opcode, take nSize pc, drop nSize pc))"

fun GetOp2 :: "script \<Rightarrow> bool \<times> byte \<times> bytes \<times> script" where
  "GetOp2 [] = (False, OP_INVALIDOPCODE, [], [])" |
  "GetOp2 (opcode # pc) =
    (if opcode \<le> OP_PUSHDATA4 then
       (if opcode < OP_PUSHDATA1 then GetOp2_operand opcode (unat opcode) pc
        else if opcode = OP_PUSHDATA1 then
          (if length pc < 1 then (False, OP_INVALIDOPCODE, [], pc)
           else GetOp2_operand opcode (unat (hd pc)) (drop 1 pc))
        else if opcode = OP_PUSHDATA2 then
          (if length pc < 2 then (False, OP_INVALIDOPCODE, [], pc)
           else GetOp2_operand opcode (le_val (take 2 pc)) (drop 2 pc))
        else
          (if length pc < 4 then (False, OP_INVALIDOPCODE, [], pc)
           else GetOp2_operand opcode (le_val (take 4 pc)) (drop 4 pc)))
     else (True, opcode, [], pc))"

declare GetOp2.simps(2) [simp del]

lemma GetOp2_operand_decreases:
  "GetOp2_operand opc n s = (True, op, d, pc') \<Longrightarrow> length pc' \<le> length s"
  by (auto simp: GetOp2_operand_def split: if_splits)

lemma GetOp2_decreases [termination_simp]:
  assumes "GetOp2 pc = (True, op, d, pc')"
  shows "length pc' < length pc"
proof (cases pc)
  case Nil
  then show ?thesis using assms by simp
next
  case (Cons a s)
  have "length pc' \<le> length s"
    using assms unfolding Cons
    by (auto simp: GetOp2.simps(2) dest: GetOp2_operand_decreases split: if_splits)
  then show ?thesis by (simp add: Cons)
qed

subsection \<open>Queries\<close>

function Find_loop :: "byte \<Rightarrow> nat \<Rightarrow> script \<Rightarrow> nat" where
  "Find_loop op nFound pc =
    (if pc = [] then nFound
     else case GetOp2 pc of (ok, opcode, d, pc') \<Rightarrow>
       if ok then Find_loop op (if opcode = op then Suc nFound else nFound) pc' else nFound)"
  by pat_completeness auto
termination
  by (relation "measure (\<lambda>(_, _, pc). length pc)") (auto intro: GetOp2_decreases [OF sym])

definition Find :: "byte \<Rightarrow> script \<Rightarrow> nat" where
  "Find op s = Find_loop op 0 s"

definition HasOpCreate :: "script \<Rightarrow> bool" where
  "HasOpCreate s \<longleftrightarrow> Find OP_CREATE s > 0"

definition HasOpCall :: "script \<Rightarrow> bool" where
  "HasOpCall s \<longleftrightarrow> Find OP_CALL s > 0"

definition HasOpSpend :: "script \<Rightarrow> bool" where
  "HasOpSpend s \<longleftrightarrow> Find OP_SPEND s > 0"

definition HasOpSender :: "script \<Rightarrow> bool" where
  "HasOpSender s \<longleftrightarrow> Find OP_SENDER s > 0"

definition IsPayToContract :: "script \<Rightarrow> bool" where
  "IsPayToContract s \<longleftrightarrow> HasOpCreate s \<or> HasOpCall s"

definition IsContractOutput :: "script \<Rightarrow> bool" where
  "IsContractOutput s \<longleftrightarrow> \<not> length s < 22 \<and> s ! (length s - 1) = OP_SPEND"

definition IsUnspendable :: "script \<Rightarrow> bool" where
  "IsUnspendable s \<longleftrightarrow> (length s > 0 \<and> s ! 0 = OP_RETURN) \<or> length s > MAX_SCRIPT_SIZE"

definition IsPayToPublicKeyHash :: "script \<Rightarrow> bool" where
  "IsPayToPublicKeyHash s \<longleftrightarrow>
     length s = 25 \<and> s ! 0 = OP_DUP \<and> s ! 1 = OP_HASH160 \<and> s ! 2 = 0x14 \<and>
     s ! 23 = OP_EQUALVERIFY \<and> s ! 24 = OP_CHECKSIG"

definition IsPayToScriptHash :: "script \<Rightarrow> bool" where
  "IsPayToScriptHash s \<longleftrightarrow> length s = 23 \<and> s ! 0 = OP_HASH160 \<and> s ! 1 = 0x14 \<and> s ! 22 = OP_EQUAL"

definition IsPayToPublicKey :: "script \<Rightarrow> bool" where
  "IsPayToPublicKey s \<longleftrightarrow>
    (if length s = 35 then (s ! 1 = 0x02 \<or> s ! 1 = 0x03) \<and> s ! 34 = OP_CHECKSIG
     else if length s = 67 then s ! 1 = 0x04 \<and> s ! 66 = OP_CHECKSIG
     else False)"

function IsPushOnly :: "script \<Rightarrow> bool" where
  "IsPushOnly pc =
    (if pc = [] then True
     else case GetOp2 pc of (ok, opcode, d, pc') \<Rightarrow>
       if \<not> ok then False else if opcode > OP_16 then False else IsPushOnly pc')"
  by pat_completeness auto
termination
  by (relation "measure length") (auto intro: GetOp2_decreases [OF sym])

function sigop_loop :: "bool \<Rightarrow> byte \<Rightarrow> nat \<Rightarrow> script \<Rightarrow> nat" where
  "sigop_loop fAccurate lastOpcode n pc =
    (if pc = [] then n
     else case GetOp2 pc of (ok, opcode, d, pc') \<Rightarrow>
       if \<not> ok then n
       else sigop_loop fAccurate opcode
         (if opcode = OP_CHECKSIG \<or> opcode = OP_CHECKSIGVERIFY then n + 1
          else if opcode = OP_CHECKMULTISIG \<or> opcode = OP_CHECKMULTISIGVERIFY then
            (if fAccurate \<and> OP_1 \<le> lastOpcode \<and> lastOpcode \<le> OP_16 then n + DecodeOP_N lastOpcode
             else n + MAX_PUBKEYS_PER_MULTISIG)
          else n) pc')"
  by pat_completeness auto
termination
  by (relation "measure (\<lambda>(_, _, _, pc). length pc)") (auto intro: GetOp2_decreases [OF sym])

definition GetSigOpCount :: "bool \<Rightarrow> script \<Rightarrow> nat" where
  "GetSigOpCount fAccurate s = sigop_loop fAccurate OP_INVALIDOPCODE 0 s"

text \<open>The data of the last push of a script of pushes.\<close>

function last_push :: "bytes \<Rightarrow> script \<Rightarrow> bytes option" where
  "last_push vData pc =
    (if pc = [] then Some vData
     else case GetOp2 pc of (ok, opcode, d, pc') \<Rightarrow>
       if \<not> ok then None else if opcode > OP_16 then None else last_push d pc')"
  by pat_completeness auto
termination
  by (relation "measure (\<lambda>(_, pc). length pc)") (auto intro: GetOp2_decreases [OF sym])

definition GetSigOpCount_P2SH :: "script \<Rightarrow> script \<Rightarrow> nat" where
  "GetSigOpCount_P2SH s scriptSig =
    (if \<not> IsPayToScriptHash s then GetSigOpCount True s
     else case last_push [] scriptSig of None \<Rightarrow> 0 | Some vData \<Rightarrow> GetSigOpCount True vData)"

subsection \<open>FindAndDelete\<close>

function skip_matches :: "script \<Rightarrow> nat \<Rightarrow> script \<Rightarrow> nat \<times> script" where
  "skip_matches b nFound pc =
    (if b \<noteq> [] \<and> length b \<le> length pc \<and> take (length b) pc = b
     then skip_matches b (Suc nFound) (drop (length b) pc) else (nFound, pc))"
  by pat_completeness auto
termination
  by (relation "measure (\<lambda>(_, _, pc). length pc)") (auto simp flip: length_greater_0_conv)

declare Find_loop.simps [simp del] IsPushOnly.simps [simp del] sigop_loop.simps [simp del]
  last_push.simps [simp del] skip_matches.simps [simp del]

lemma skip_matches_shorter: "length (snd (skip_matches b n pc)) \<le> length pc"
  by (induction b n pc rule: skip_matches.induct) (subst skip_matches.simps, auto)

function FindAndDelete_loop :: "script \<Rightarrow> script \<Rightarrow> nat \<Rightarrow> script \<Rightarrow> script \<Rightarrow> nat \<times> script \<times> script" where
  "FindAndDelete_loop b result nFound pc2 pc =
    (let result' = result @ take (length pc2 - length pc) pc2;
         (nFound', pc') = skip_matches b nFound pc in
     case GetOp2 pc' of (ok, opcode, d, pc'') \<Rightarrow>
       if ok then FindAndDelete_loop b result' nFound' pc' pc'' else (nFound', result', pc'))"
  by pat_completeness auto
termination
proof (relation "measure (\<lambda>(_, _, _, _, pc). length pc)", goal_cases)
  case (2 b result nFound pc2 pc result' p nFound' pc' t ok opcode t' d pc'')
  then show ?case using skip_matches_shorter [of b nFound pc] GetOp2_decreases [of pc' opcode d pc'']
    by (cases "skip_matches b nFound pc") auto
qed simp

declare FindAndDelete_loop.simps [simp del]

definition FindAndDelete :: "script \<Rightarrow> script \<Rightarrow> nat \<times> script" where
  "FindAndDelete b s =
    (if b = [] then (0, s)
     else case FindAndDelete_loop b [] 0 s s of (nFound, result, pc2) \<Rightarrow>
       if nFound > 0 then (nFound, result @ pc2) else (0, s))"

subsection \<open>Script numbers: values\<close>

lemma not_bit_of_unat_less:
  assumes "unat (r :: 'a::len word) < 2 ^ m" and "m \<le> k"
  shows "\<not> bit r k"
proof -
  have "unat r < 2 ^ k" using assms by (meson less_le_trans one_le_numeral power_increasing)
  then have "\<not> bit (unat r) k" by (simp add: bit_iff_odd)
  then show ?thesis by (simp add: bit_unsigned_iff)
qed

lemma or_push_bit_byte:
  assumes "unat (r :: u64) < 256 ^ n" and "n < 8"
  shows "unat (r OR push_bit (8 * n) (ucast (b :: byte))) = unat r + 256 ^ n * unat b"
proof -
  have p: "(256 :: nat) ^ n = 2 ^ (8 * n)" by (simp add: power_mult)
  have "\<not> bit r k \<or> \<not> bit (push_bit (8 * n) (ucast b :: u64)) k" for k
    using not_bit_of_unat_less [of r "8 * n" k] assms(1) by (auto simp: bit_simps p)
  then have "r OR push_bit (8 * n) (ucast b) = r + push_bit (8 * n) (ucast b)"
    by (simp add: disjunctive_add)
  moreover have "unat (push_bit (8 * n) (ucast b :: u64)) = 256 ^ n * unat b"
  proof -
    have "256 ^ n * unat b < 256 ^ n * 256" using unat_byte_less [of b] by simp
    also have "\<dots> \<le> 256 ^ 8" using power_increasing [of "Suc n" 8 "256 :: nat"] assms(2) by simp
    finally have "256 ^ n * unat b < 2 ^ 64" by simp
    then show ?thesis
      unfolding unsigned_push_bit_eq p
      by (simp add: push_bit_eq_mult take_bit_nat_eq_self mult.commute)
  qed
  moreover have "unat r + 256 ^ n * unat b < 2 ^ 64"
  proof -
    have "unat r + 256 ^ n * unat b < 256 ^ n * 256"
    proof -
      have "256 ^ n * unat b \<le> 256 ^ n * 255" using unat_byte_less [of b] by (intro mult_le_mono2) simp
      then show ?thesis using assms(1) by linarith
    qed
    also have "\<dots> \<le> 256 ^ 8" using power_increasing [of "Suc n" 8 "256 :: nat"] assms(2) by simp
    finally show ?thesis by simp
  qed
  ultimately show ?thesis by (simp add: unat_add_u64)
qed

lemma set_vch_fold:
  assumes "n \<le> length v" and "n \<le> 8"
  shows "unat (fold (\<lambda>i r. r OR push_bit (8 * i) (ucast (v ! i))) [0..<n] (0 :: u64)) = le_val (take n v)"
  using assms
proof (induction n)
  case 0
  show ?case by simp
next
  case (Suc n)
  let ?r = "fold (\<lambda>i r. r OR push_bit (8 * i) (ucast (v ! i))) [0..<n] (0 :: u64)"
  have "unat ?r = le_val (take n v)" using Suc by simp
  moreover have "le_val (take n v) < 256 ^ n" using le_val_less [of "take n v"] Suc.prems by simp
  ultimately show ?case
    using Suc.prems or_push_bit_byte [of ?r n "v ! n"] by (simp add: le_val_take_Suc)
qed

text \<open>The value of an encoding: sign and magnitude, little endian, the sign in the top bit of the
  last byte.\<close>

definition num_val :: "bytes \<Rightarrow> int" where
  "num_val v =
    (if v = [] then 0
     else if bit (last v) 7 then - int (le_val (butlast v @ [take_bit 7 (last v)]))
     else int (le_val v))"

lemma byte_bit_7: "bit (b :: byte) 7 \<longleftrightarrow> 128 \<le> unat b"
proof -
  have "unat b < 256" by (rule unat_byte_less)
  then have "unat b div 128 = (if 128 \<le> unat b then 1 else 0)" by (auto simp: div_nat_eqI)
  then have "bit (unat b) 7 \<longleftrightarrow> 128 \<le> unat b" by (simp add: bit_iff_odd)
  then show ?thesis by (simp add: bit_unsigned_iff)
qed

lemma le_val_snoc: "le_val (v @ [b]) = le_val v + 256 ^ length v * unat b"
  by (simp add: le_val_append)

lemma sint_of_unat:
  assumes "unat (w :: u64) < 2 ^ 63"
  shows "sint w = int (unat w)"
proof -
  have "uint w = int (unat w)" by (simp only: uint_nat)
  moreover have "int (unat w) < 2 ^ 63" using assms by (simp only: of_nat_less_numeral_power_cancel_iff)
  moreover have "0 \<le> uint w" by simp
  ultimately have "signed_take_bit 63 (uint w) = uint w"
    by (intro signed_take_bit_int_eq_self) linarith+
  then show ?thesis by (simp add: sint_uint)
qed

lemma bit_128: "bit (128 :: int) k \<longleftrightarrow> k = 7"
proof -
  have "(128 :: int) = 2 ^ 7" by simp
  then show ?thesis by (simp only: bit_exp_iff) auto
qed

lemma clear_sign_bit:
  assumes "unat (r :: u64) < 256 ^ n"
  shows "(r OR push_bit (8 * n) (ucast (b :: byte))) AND NOT (push_bit (8 * n) 0x80)
    = r OR push_bit (8 * n) (ucast (take_bit 7 b))"
proof (rule bit_word_eqI)
  fix k
  assume "k < LENGTH(64)"
  have p: "(256 :: nat) ^ n = 2 ^ (8 * n)" by (simp add: power_mult)
  have "8 * n \<le> k \<Longrightarrow> \<not> bit r k" using not_bit_of_unat_less [of r "8 * n" k] assms by (simp add: p)
  with \<open>k < LENGTH(64)\<close> have "8 * n \<le> k \<Longrightarrow> \<not> bit r k" and "k < 64" by simp_all
  moreover have "bit b (k - 8 * n) \<Longrightarrow> k - 8 * n < 8" using bit_imp_le_length [of b "k - 8 * n"] by simp
  ultimately show "bit ((r OR push_bit (8 * n) (ucast b)) AND NOT (push_bit (8 * n) 0x80)) k =
      bit (r OR push_bit (8 * n) (ucast (take_bit 7 b))) k"
    by (auto simp: bit_simps bit_128 less_Suc_eq)
qed

lemma set_vch_num_val:
  assumes "length v \<le> 8"
  shows "set_vch v = num_val v"
proof (cases v rule: rev_cases)
  case Nil
  then show ?thesis by (simp add: set_vch_def num_val_def)
next
  case (snoc u b)
  let ?f = "\<lambda>i r. r OR push_bit (8 * i) (ucast (v ! i))"
  let ?r = "fold ?f [0..<length u] (0 :: u64)"
  have n: "length u < 8" "length v = Suc (length u)" using assms snoc by simp_all
  have r: "unat ?r = le_val u" using set_vch_fold [of "length u" v] n snoc by simp
  then have small: "unat ?r < 256 ^ length u" using le_val_less [of u] by simp
  have res: "fold ?f [0..<length v] 0 = ?r OR push_bit (8 * length u) (ucast b)"
    using n by (simp add: snoc)
  have pow: "(256 :: nat) ^ length u * 128 \<le> 2 ^ 63"
    using power_increasing [of "length u" 7 "256 :: nat"] n by simp
  have sint: "sint (?r OR push_bit (8 * length u) (ucast c)) = int (le_val (u @ [c]))" if "unat c < 128" for c :: byte
  proof -
    have "le_val u + 256 ^ length u * unat c < 256 ^ length u * 128"
    proof -
      have "256 ^ length u * unat c \<le> 256 ^ length u * 127" using that by (intro mult_le_mono2) simp
      then show ?thesis using le_val_less [of u] by linarith
    qed
    then have "le_val (u @ [c]) < 2 ^ 63" using pow unfolding le_val_snoc by linarith
    moreover have "unat (?r OR push_bit (8 * length u) (ucast c)) = le_val (u @ [c])"
      unfolding or_push_bit_byte [OF small n(1), of c] le_val_snoc r ..
    ultimately show ?thesis using sint_of_unat [of "?r OR push_bit (8 * length u) (ucast c)"]
      by (simp only:)
  qed
  have "unat (take_bit 7 b) < 128" by (simp add: unsigned_take_bit_eq take_bit_nat_def)
  then show ?thesis
    using sint [of b] sint [of "take_bit 7 b"] clear_sign_bit [OF small, of b] n
    unfolding set_vch_def num_val_def Let_def res
    by (auto simp: snoc byte_and_80 byte_bit_7 not_le)
qed

subsection \<open>Script numbers: encoding\<close>

lemma unat_take_bit_7: "unat (take_bit 7 (b :: byte)) = unat b mod 128"
  by (simp add: unsigned_take_bit_eq take_bit_nat_def)

lemma byte_and_7f: "(b :: byte) AND 0x7f = 0 \<longleftrightarrow> unat b mod 128 = 0"
  by (metis and_7F unat_0 unat_take_bit_7 word_unat_eq_iff)

lemma num_val_snoc:
  "num_val (u @ [b]) =
    (if 128 \<le> unat b then - 1 else 1) * int (le_val u + 256 ^ length u * (unat b mod 128))"
  unfolding num_val_def
  by (simp add: byte_bit_7 le_val_snoc unat_take_bit_7 del: of_nat_unat)

lemma serialize_loop_Nil [simp]: "serialize_loop n = [] \<longleftrightarrow> n = 0"
  by (subst serialize_loop.simps) simp

lemma unat_low_byte: "unat (ucast (n AND 0xff) :: byte) = unat (n :: u64) mod 256"
proof -
  have "n AND 0xff = take_bit 8 n" by (simp add: take_bit_eq_mask mask_eq_exp_minus_1)
  then show ?thesis by (simp add: unsigned_ucast_eq unsigned_take_bit_eq take_bit_nat_def)
qed

lemma le_val_serialize_loop: "le_val (serialize_loop n) = unat n"
proof (induction n rule: serialize_loop.induct)
  case (1 n)
  then show ?case
    by (subst serialize_loop.simps) (simp add: unat_low_byte unat_drop_bit_div)
qed

lemma last_serialize_loop: "n \<noteq> 0 \<Longrightarrow> last (serialize_loop n) \<noteq> 0"
proof (induction n rule: serialize_loop.induct)
  case (1 n)
  show ?case
  proof (cases "drop_bit 8 n = 0")
    case True
    then have "unat n div 256 = 0" using unat_drop_bit_div [of 8 n] by simp
    then have "unat (ucast (n AND 0xff) :: byte) = unat n" by (simp add: unat_low_byte div_eq_0_iff)
    then have "ucast (n AND 0xff) \<noteq> (0 :: byte)" using 1 by (metis unat_0 unat_0_iff)
    moreover have "serialize_loop (drop_bit 8 n) = []" using True by simp
    ultimately show ?thesis using 1(2) by (subst serialize_loop.simps) simp
  next
    case False
    then show ?thesis using 1 by (subst serialize_loop.simps) simp
  qed
qed

text \<open>Little-endian numbers without leading zeros are determined by their value.\<close>

lemma le_val_canonical:
  assumes "le_val xs = le_val ys" and "xs \<noteq> [] \<Longrightarrow> last xs \<noteq> 0" and "ys \<noteq> [] \<Longrightarrow> last ys \<noteq> 0"
  shows "xs = ys"
  using assms
proof (induction xs arbitrary: ys)
  case Nil
  then have "\<forall>b \<in> set ys. b = 0" using le_val_eq_0_iff [of ys] by simp
  then show ?case using Nil.prems(3) by (metis last_in_set)
next
  case (Cons x xs)
  show ?case
  proof (cases ys)
    case Nil
    then have "\<forall>b \<in> set (x # xs). b = 0" using Cons.prems(1) le_val_eq_0_iff [of "x # xs"] by simp
    then show ?thesis using Cons.prems(2) by (metis last_in_set list.discI)
  next
    case c: (Cons y ys')
    have "unat x < 256" and "unat y < 256" by (rule unat_byte_less)+
    then have "(unat x + 256 * le_val xs) mod 256 = unat x" and "(unat y + 256 * le_val ys') mod 256 = unat y"
      by simp_all
    moreover have eq: "unat x + 256 * le_val xs = unat y + 256 * le_val ys'" using Cons.prems(1) c by simp
    ultimately have xy: "x = y" by (metis word_unat_eq_iff)
    have "xs = ys'"
    proof (rule Cons.IH)
      show "le_val xs = le_val ys'" using eq xy by simp
      show "last xs \<noteq> 0" if "xs \<noteq> []" using Cons.prems(2) that by simp
      show "last ys' \<noteq> 0" if "ys' \<noteq> []" using Cons.prems(3) c that by simp
    qed
    then show ?thesis using c xy by simp
  qed
qed

text \<open>The magnitude of an encoding without its sign, and that a minimal encoding has no padding.\<close>

definition num_digits :: "bytes \<Rightarrow> bytes" where
  "num_digits v =
    (if v = [] then []
     else if take_bit 7 (last v) = 0 then butlast v else butlast v @ [take_bit 7 (last v)])"

lemma num_val_digits:
  "num_val v = (if v \<noteq> [] \<and> 128 \<le> unat (last v) then - 1 else 1) * int (le_val (num_digits v))"
proof (cases v rule: rev_cases)
  case Nil
  then show ?thesis by (simp add: num_val_def num_digits_def)
next
  case (snoc u b)
  have "unat b mod 128 = 0" if "take_bit 7 b = 0"
    using that by (metis unat_0 unat_take_bit_7)
  then show ?thesis
    unfolding snoc num_val_snoc
    by (cases "take_bit 7 b = 0"; cases "128 \<le> unat b")
      (simp_all add: num_digits_def le_val_snoc unat_take_bit_7 not_le del: of_nat_unat)
qed

text \<open>What \<open>ScriptNum_serialize\<close> appends or merges for the sign.\<close>

definition add_sign :: "bool \<Rightarrow> bytes \<Rightarrow> bytes" where
  "add_sign neg ds =
    (if ds = [] then []
     else if last ds AND 0x80 \<noteq> 0 then ds @ [if neg then 0x80 else 0]
     else if neg then butlast ds @ [last ds OR 0x80] else ds)"

lemma unat_or_80: "unat b < 128 \<Longrightarrow> unat ((b :: byte) OR 0x80) = unat b + 128"
proof -
  assume "unat b < 128"
  then have "\<not> bit b 7" by (simp add: byte_bit_7)
  then have "\<not> bit b n \<or> \<not> bit (0x80 :: byte) n" for n by (auto simp: bit_128)
  then have "b OR 0x80 = b + 0x80" by (rule disjunctive_add [symmetric])
  then show ?thesis using \<open>unat b < 128\<close> by (simp add: unat_word_ariths)
qed

lemma byte_split:
  fixes b :: byte
  shows "128 \<le> unat b \<Longrightarrow> take_bit 7 b OR 0x80 = b" and "\<not> 128 \<le> unat b \<Longrightarrow> take_bit 7 b = b"
proof -
  have "unat (take_bit 7 b) < 128" by (simp add: unat_take_bit_7)
  then have "unat (take_bit 7 b OR 0x80) = unat b mod 128 + 128" by (simp add: unat_or_80 unat_take_bit_7)
  moreover have "unat b < 256" by (rule unat_byte_less)
  ultimately show "128 \<le> unat b \<Longrightarrow> take_bit 7 b OR 0x80 = b" and "\<not> 128 \<le> unat b \<Longrightarrow> take_bit 7 b = b"
    by (simp_all add: word_unat_eq_iff unat_take_bit_7 le_mod_geq)
qed

lemma minimal_cases:
  assumes "v = [] \<or> \<not> not_minimal v"
  obtains (nil) "v = []" | (low) u b where "v = u @ [b]" "take_bit 7 b \<noteq> 0"
    | (pad) u c b where "v = u @ [c, b]" "take_bit 7 b = 0" "bit c 7"
proof (cases v rule: rev_cases)
  case Nil
  then show ?thesis using that(1) by simp
next
  case (snoc u b)
  show ?thesis
  proof (cases "take_bit 7 b = 0")
    case False
    then show ?thesis using that(2) snoc by simp
  next
    case True
    then show ?thesis
      using assms snoc that(3) [of "butlast u" "last u" b]
      by (cases u rule: rev_cases) (auto simp: not_minimal_def and_7F byte_and_80 nth_append)
  qed
qed

lemma add_sign_digits:
  assumes "v = [] \<or> \<not> not_minimal v"
  shows "add_sign (v \<noteq> [] \<and> 128 \<le> unat (last v)) (num_digits v) = v"
  using assms
proof (cases rule: minimal_cases)
  case (low u b)
  have "\<not> bit (take_bit 7 b) 7" by (simp add: bit_take_bit_iff)
  then show ?thesis using low by (simp add: num_digits_def add_sign_def byte_and_80 byte_split)
next
  case (pad u c b)
  then show ?thesis using byte_split [of b] by (simp add: num_digits_def add_sign_def byte_and_80 butlast_append)
qed (simp add: num_digits_def add_sign_def)

lemma num_digits_canonical:
  assumes "v = [] \<or> \<not> not_minimal v"
  shows "(num_digits v = [] \<longleftrightarrow> v = []) \<and> (v \<noteq> [] \<longrightarrow> last (num_digits v) \<noteq> 0)"
  using assms
proof (cases rule: minimal_cases)
  case (pad u c b)
  then have "c \<noteq> 0" by auto
  then show ?thesis using pad by (simp add: num_digits_def butlast_append)
qed (simp_all add: num_digits_def)

lemma num_val_inject:
  assumes "v = [] \<or> \<not> not_minimal v" and "w = [] \<or> \<not> not_minimal w" and "num_val v = num_val w"
  shows "v = w"
proof -
  have nz: "x \<noteq> [] \<Longrightarrow> le_val (num_digits x) \<noteq> 0" if "x = [] \<or> \<not> not_minimal x" for x
    using num_digits_canonical [OF that] last_in_set [of "num_digits x"] by (auto simp: le_val_eq_0_iff)
  have "le_val (num_digits v) = le_val (num_digits w)"
    using assms(3) unfolding num_val_digits by (auto split: if_splits)
  then have d: "num_digits v = num_digits w"
    using num_digits_canonical assms(1,2) by (intro le_val_canonical) auto
  moreover have "(v \<noteq> [] \<and> 128 \<le> unat (last v)) = (w \<noteq> [] \<and> 128 \<le> unat (last w))"
    using assms(3) d nz [OF assms(1)] nz [OF assms(2)] unfolding num_val_digits
    by (auto split: if_splits)
  ultimately have "add_sign (v \<noteq> [] \<and> 128 \<le> unat (last v)) (num_digits v) =
      add_sign (w \<noteq> [] \<and> 128 \<le> unat (last w)) (num_digits w)" by (simp only:)
  then show ?thesis unfolding add_sign_digits [OF assms(1)] add_sign_digits [OF assms(2)] .
qed

lemma unat_abs_word:
  assumes "\<bar>n\<bar> < 2 ^ 63"
  shows "unat (word_of_int \<bar>n\<bar> :: u64) = nat \<bar>n\<bar>"
  using assms by (simp add: unat_eq_nat_uint uint_word_of_int)

lemma serialize_add_sign:
  assumes "\<bar>n\<bar> < 2 ^ 63"
  shows "ScriptNum_serialize n = add_sign (n < 0) (serialize_loop (word_of_int \<bar>n\<bar>))"
proof (cases "n = 0")
  case True
  then show ?thesis by (simp add: ScriptNum_serialize_def add_sign_def)
next
  case False
  then have "word_of_int \<bar>n\<bar> \<noteq> (0 :: u64)" using unat_abs_word [OF assms] by auto
  moreover have "(if n < 0 then - n else n) = \<bar>n\<bar>" by simp
  ultimately show ?thesis
    unfolding ScriptNum_serialize_def add_sign_def Let_def using False by simp
qed

text \<open>Adding a sign to digits without padding gives a minimal encoding of the signed value.\<close>

lemma add_sign_cases:
  assumes "ds \<noteq> []" and "last ds \<noteq> 0"
  shows "\<not> not_minimal (add_sign neg ds) \<and> num_digits (add_sign neg ds) = ds \<and>
    add_sign neg ds \<noteq> [] \<and> (128 \<le> unat (last (add_sign neg ds)) \<longleftrightarrow> neg)"
proof (cases ds rule: rev_cases)
  case (snoc u c)
  show ?thesis
  proof (cases "bit c 7")
    case True
    then show ?thesis using snoc
      by (simp add: add_sign_def num_digits_def not_minimal_def byte_and_80 nth_append butlast_append)
  next
    case False
    then have c: "unat c < 128" "take_bit 7 c = c" using byte_split(2) [of c] by (simp_all add: byte_bit_7)
    then have "take_bit 7 (c OR 0x80) = c"
      using unat_or_80 [of c] by (simp add: word_unat_eq_iff unat_take_bit_7)
    then show ?thesis using snoc False assms c unat_or_80 [of c]
      by (simp add: add_sign_def num_digits_def not_minimal_def byte_and_80 and_7F)
  qed
qed (use assms in simp)

lemma serialize_properties:
  assumes "\<bar>n\<bar> < 2 ^ 63"
  shows "num_val (ScriptNum_serialize n) = n"
    and "ScriptNum_serialize n = [] \<or> \<not> not_minimal (ScriptNum_serialize n)"
proof -
  let ?ds = "serialize_loop (word_of_int \<bar>n\<bar>)"
  have "num_val (ScriptNum_serialize n) = n \<and> (ScriptNum_serialize n = [] \<or> \<not> not_minimal (ScriptNum_serialize n))"
  proof (cases "n = 0")
    case True
    then show ?thesis by (simp add: ScriptNum_serialize_def num_val_def)
  next
    case False
    then have "word_of_int \<bar>n\<bar> \<noteq> (0 :: u64)" using unat_abs_word [OF assms] by auto
    then have ds: "?ds \<noteq> []" "last ?ds \<noteq> 0" using last_serialize_loop by simp_all
    then show ?thesis
      using add_sign_cases [OF ds, of "n < 0"] unat_abs_word [OF assms] serialize_add_sign [OF assms]
      by (simp add: num_val_digits le_val_serialize_loop)
  qed
  then show "num_val (ScriptNum_serialize n) = n"
    and "ScriptNum_serialize n = [] \<or> \<not> not_minimal (ScriptNum_serialize n)" by simp_all
qed

lemma num_val_upper: "\<bar>num_val v\<bar> < 2 ^ (8 * length v - 1) \<or> v = []"
proof (cases v rule: rev_cases)
  case (snoc u b)
  have "256 ^ length u * (unat b mod 128) \<le> 256 ^ length u * 127" by (intro mult_le_mono2) simp
  then have "le_val u + 256 ^ length u * (unat b mod 128) < 128 * 256 ^ length u"
    using le_val_less [of u] by linarith
  also have "\<dots> = 2 ^ (8 * length v - 1)" using snoc by (simp add: power_add power_mult)
  finally have "int (le_val u + 256 ^ length u * (unat b mod 128)) < 2 ^ (8 * length v - 1)"
    by (simp only: of_nat_less_numeral_power_cancel_iff)
  moreover have "num_val v = int (le_val u + 256 ^ length u * (unat b mod 128)) \<or>
      num_val v = - int (le_val u + 256 ^ length u * (unat b mod 128))"
    unfolding snoc num_val_snoc by (simp del: of_nat_unat)
  ultimately show ?thesis by (elim disjE) (simp_all only: abs_minus_cancel abs_of_nat simp_thms)
qed simp

lemma num_val_lower:
  assumes "\<not> not_minimal v" and "v \<noteq> []"
  shows "2 ^ (8 * (length v - 1) - 1) \<le> \<bar>num_val v\<bar>"
proof -
  have "v = [] \<or> \<not> not_minimal v" using assms by simp
  then have "2 ^ (8 * (length v - 1) - 1) \<le> le_val (num_digits v)"
  proof (cases rule: minimal_cases)
    case nil
    then show ?thesis using assms by simp
  next
    case (low u b)
    have "take_bit 7 b \<noteq> 0" using low by simp
    then have "0 < unat (take_bit 7 b)" by (simp add: unat_gt_0)
    then have "256 ^ length u \<le> 256 ^ length u * unat (take_bit 7 b)" by simp
    moreover have "(2 :: nat) ^ (8 * length u - 1) \<le> 256 ^ length u"
      using power_increasing [of "8 * length u - 1" "8 * length u" "2 :: nat"] by (simp add: power_mult)
    moreover have "le_val (num_digits v) = le_val u + 256 ^ length u * unat (take_bit 7 b)"
      using low by (simp add: num_digits_def le_val_snoc)
    ultimately have "2 ^ (8 * length u - 1) \<le> le_val (num_digits v)" by linarith
    then show ?thesis using low by simp
  next
    case (pad u c b)
    then have "256 ^ length u * 128 \<le> 256 ^ length u * unat c" by (simp add: byte_bit_7)
    moreover have "(2 :: nat) ^ (8 * length u + 7) = 256 ^ length u * 128" by (simp add: power_add power_mult)
    moreover have "le_val (num_digits v) = le_val u + 256 ^ length u * unat c"
      using pad by (simp add: num_digits_def le_val_snoc butlast_append)
    ultimately have "2 ^ (8 * length u + 7) \<le> le_val (num_digits v)" by linarith
    then show ?thesis using pad by (simp add: add.commute)
  qed
  then have "2 ^ (8 * (length v - 1) - 1) \<le> int (le_val (num_digits v))"
    by (simp only: numeral_power_le_of_nat_cancel_iff)
  then show ?thesis unfolding num_val_digits by (simp add: abs_mult)
qed

lemma length_serialize:
  assumes "\<bar>n\<bar> < 2 ^ (8 * k - 1)" and "0 < k" and "k \<le> 8"
  shows "length (ScriptNum_serialize n) \<le> k"
proof (rule ccontr)
  let ?v = "ScriptNum_serialize n"
  assume "\<not> length ?v \<le> k"
  then have v: "?v \<noteq> []" and "(2 :: int) ^ (8 * k - 1) \<le> 2 ^ (8 * (length ?v - 1) - 1)"
    using assms(2) by (auto intro!: power_increasing)
  moreover have "(2 :: int) ^ (8 * k - 1) \<le> 2 ^ 63" using assms by (intro power_increasing) auto
  with assms(1) have n: "\<bar>n\<bar> < 2 ^ 63" by linarith
  then have "2 ^ (8 * (length ?v - 1) - 1) \<le> \<bar>n\<bar>"
    using num_val_lower [of ?v] serialize_properties [OF n] v by auto
  ultimately show False using assms(1) by linarith
qed

lemma CScriptNum_bound:
  assumes "CScriptNum m k v = Inr n" and "0 < k" and "k \<le> 8"
  shows "\<bar>n\<bar> < 2 ^ (8 * k - 1)"
proof -
  have len: "length v \<le> k" and val: "num_val v = n"
    using assms set_vch_num_val [of v] by (auto simp: CScriptNum_def split: if_splits)
  have "(2 :: int) ^ (8 * length v - 1) \<le> 2 ^ (8 * k - 1)" using len by (intro power_increasing) auto
  then show ?thesis
    using num_val_upper [of v] val by (elim disjE) (linarith, simp add: num_val_def)
qed

text \<open>C32. Script numbers: the encodings of at most \<open>k\<close> bytes that the strict decoder accepts are exactly
  the serialisations of the integers below \<open>2 ^ (8 * k - 1)\<close> in magnitude, and each decodes to the
  integer it serialises.\<close>

theorem ScriptNum_bijective:
  assumes "0 < k" and "k \<le> 8"
  shows "CScriptNum True k v = Inr n \<longleftrightarrow> \<bar>n\<bar> < 2 ^ (8 * k - 1) \<and> v = ScriptNum_serialize n"
proof
  assume "CScriptNum True k v = Inr n"
  then have len: "length v \<le> k" and min: "v = [] \<or> \<not> not_minimal v" and val: "num_val v = n"
    using assms set_vch_num_val [of v] by (auto simp: CScriptNum_def split: if_splits)
  have small: "\<bar>n\<bar> < 2 ^ (8 * k - 1)" using \<open>CScriptNum True k v = Inr n\<close> assms by (rule CScriptNum_bound)
  have "(2 :: int) ^ (8 * k - 1) \<le> 2 ^ 63" using assms by (intro power_increasing) auto
  with small have n: "\<bar>n\<bar> < 2 ^ 63" by linarith
  have "v = ScriptNum_serialize n"
    using num_val_inject [OF min serialize_properties(2) [OF n]] serialize_properties(1) [OF n] val by simp
  with small show "\<bar>n\<bar> < 2 ^ (8 * k - 1) \<and> v = ScriptNum_serialize n" by simp
next
  assume a: "\<bar>n\<bar> < 2 ^ (8 * k - 1) \<and> v = ScriptNum_serialize n"
  have "(2 :: int) ^ (8 * k - 1) \<le> 2 ^ 63" using assms by (intro power_increasing) auto
  with a have n: "\<bar>n\<bar> < 2 ^ 63" by linarith
  note props = serialize_properties [OF n]
  have "length v \<le> k" using a assms length_serialize by simp
  then show "CScriptNum True k v = Inr n"
    using a props assms set_vch_num_val [of v] by (auto simp: CScriptNum_def)
qed

theorem ScriptNum_bijective_witness: "CScriptNum True 4 [0x00, 0x81] = Inr (- 256)"
proof -
  have "serialize_loop 256 = [0x00, 0x01]" by (simp add: serialize_loop.simps)
  then have "[0x00, 0x81] = ScriptNum_serialize (- 256)" by (simp add: ScriptNum_serialize_def)
  then show ?thesis using ScriptNum_bijective [of 4 "[0x00, 0x81]" "- 256"] by simp
qed

subsection \<open>Instructions\<close>

text \<open>The opcode \<open>push_data\<close> chooses.\<close>

definition push_opcode :: "bytes \<Rightarrow> byte" where
  "push_opcode b =
    (if length b < 76 then of_nat (length b) else if length b \<le> 0xff then OP_PUSHDATA1
     else if length b \<le> 0xffff then OP_PUSHDATA2 else OP_PUSHDATA4)"

lemma GetOp2_operand_append: "GetOp2_operand opc (length b) (b @ rest) = (True, opc, b, rest)"
  by (simp add: GetOp2_operand_def)

lemma GetOp2_push_data:
  assumes "length b < 2 ^ 32"
  shows "GetOp2 (push_data b @ rest) = (True, push_opcode b, b, rest)"
proof -
  consider "length b < 76" | "76 \<le> length b" "length b \<le> 0xff" | "0xff < length b" "length b \<le> 0xffff"
    | "0xffff < length b" by linarith
  then show ?thesis
  proof cases
    case 1
    then have "unat (of_nat (length b) :: byte) = length b" by (simp add: unat_of_nat)
    with 1 show ?thesis
      by (simp add: push_data_def push_opcode_def GetOp2.simps(2) word_less_nat_alt word_le_nat_alt GetOp2_operand_append)
  next
    case 2
    then have "unat (of_nat (length b) :: byte) = length b" by (simp add: unat_of_nat)
    with 2 show ?thesis
      by (simp add: push_data_def push_opcode_def GetOp2.simps(2) GetOp2_operand_append)
  next
    case 3
    then have "le_val (le_bytes 2 (of_nat (length b) :: u16)) = length b"
      by (simp add: le_val_le_bytes unat_of_nat)
    with 3 show ?thesis
      by (simp add: push_data_def push_opcode_def GetOp2.simps(2) GetOp2_operand_append)
  next
    case 4
    then have "le_val (le_bytes 4 (of_nat (length b) :: u32)) = length b"
      using assms by (simp add: le_val_le_bytes unat_of_nat)
    with 4 show ?thesis
      by (simp add: push_data_def push_opcode_def GetOp2.simps(2) GetOp2_operand_append)
  qed
qed

lemma GetOp2_opcode: "OP_PUSHDATA4 < opcode \<Longrightarrow> GetOp2 (opcode # pc) = (True, opcode, [], pc)"
  by (subst GetOp2.simps(2)) (simp add: not_le [symmetric])

lemma push_opcode_le: "length b < 2 ^ 32 \<Longrightarrow> push_opcode b \<le> OP_PUSHDATA4"
  by (simp add: push_opcode_def word_le_nat_alt unat_of_nat)

text \<open>The instructions of a script, up to its end or to the first byte that does not decode.\<close>

function instructions :: "script \<Rightarrow> (byte \<times> bytes) list \<times> script" where
  "instructions pc =
    (case GetOp2 pc of (ok, opcode, d, pc') \<Rightarrow>
       if ok then (case instructions pc' of (l, r) \<Rightarrow> ((opcode, d) # l, r)) else ([], pc))"
  by pat_completeness auto
termination
  by (relation "measure length") (auto intro: GetOp2_decreases [OF sym])

declare instructions.simps [simp del]

lemma instructions_Nil [simp]: "instructions [] = ([], [])"
  by (simp add: instructions.simps)

lemma Find_loop_count:
  "Find_loop op n s = n + length (filter (\<lambda>(opcode, d). opcode = op) (fst (instructions s)))"
proof (induction op n s rule: Find_loop.induct)
  case (1 op n pc)
  then show ?case
    by (subst Find_loop.simps, subst instructions.simps) (auto split: prod.splits)
qed

lemma Find_count: "Find op s = length (filter (\<lambda>(opcode, d). opcode = op) (fst (instructions s)))"
  by (simp add: Find_def Find_loop_count)

lemma IsPushOnly_instructions:
  "IsPushOnly s \<longleftrightarrow> snd (instructions s) = [] \<and> (\<forall>(opcode, d) \<in> set (fst (instructions s)). opcode \<le> OP_16)"
proof (induction s rule: IsPushOnly.induct)
  case (1 pc)
  then show ?case
    by (subst IsPushOnly.simps, subst (1 2) instructions.simps) (auto split: prod.splits)
qed

lemma last_push_instructions:
  "last_push v s = (if IsPushOnly s then Some (snd (last ((0, v) # fst (instructions s)))) else None)"
proof (induction v s rule: last_push.induct)
  case (1 v pc)
  then show ?case
    by (subst last_push.simps, subst IsPushOnly.simps, subst instructions.simps) (auto split: prod.splits)
qed

lemma DecodeOP_N_le: "OP_1 \<le> opcode \<Longrightarrow> opcode \<le> OP_16 \<Longrightarrow> DecodeOP_N opcode \<le> 16"
  by (auto simp: DecodeOP_N_def word_le_nat_alt)

lemma sigop_loop_le: "sigop_loop a l n s \<le> n + 20 * length s"
proof (induction a l n s rule: sigop_loop.induct)
  case (1 a l n pc)
  obtain ok opc d pc' where g: "GetOp2 pc = (ok, opc, d, pc')" by (cases "GetOp2 pc") auto
  show ?case
  proof (cases "pc = [] \<or> \<not> ok")
    case True
    then show ?thesis by (subst sigop_loop.simps) (auto simp: g)
  next
    case False
    then have shorter: "length pc' < length pc" using g GetOp2_decreases by simp
    have "DecodeOP_N l \<le> 20" if "OP_1 \<le> l" "l \<le> OP_16" using DecodeOP_N_le [OF that] by simp
    then show ?thesis
      using 1 [OF _ g [symmetric] refl refl] False shorter
      by (subst sigop_loop.simps) (auto simp: g MAX_PUBKEYS_PER_MULTISIG_def)
  qed
qed

lemma sigop_loop_mono: "n \<le> m \<Longrightarrow> sigop_loop True l n s \<le> sigop_loop False l m s"
proof (induction "True" l n s arbitrary: m rule: sigop_loop.induct)
  case (1 l n pc)
  obtain ok opc d pc' where g: "GetOp2 pc = (ok, opc, d, pc')" by (cases "GetOp2 pc") auto
  have "DecodeOP_N l \<le> 16" if "OP_1 \<le> l" "l \<le> OP_16" using DecodeOP_N_le [OF that] .
  then show ?case
    using 1(1) [OF _ g [symmetric] refl refl] 1(2)
    by (subst (1 2) sigop_loop.simps) (fastforce simp: g MAX_PUBKEYS_PER_MULTISIG_def)
qed

lemma skip_matches_suffix: "suffix (snd (skip_matches b n pc)) pc"
proof (induction b n pc rule: skip_matches.induct)
  case (1 b n pc)
  then show ?case
    by (subst skip_matches.simps) (auto intro: suffix_order.trans [OF _ suffix_drop])
qed

lemma skip_matches_length:
  "length (snd (skip_matches b n pc)) + fst (skip_matches b n pc) * length b = length pc + n * length b"
proof (induction b n pc rule: skip_matches.induct)
  case (1 b n pc)
  then show ?case by (subst (1 2) skip_matches.simps) auto
qed

lemma GetOp2_suffix: "GetOp2 pc = (ok, opcode, d, pc') \<Longrightarrow> suffix pc' pc"
  by (cases pc) (auto simp: GetOp2.simps(2) GetOp2_operand_def intro: suffix_ConsI suffix_drop split: if_splits)

lemma FindAndDelete_loop_result:
  assumes "FindAndDelete_loop b res n pc2 pc = (n', res', pc2')" and "suffix pc pc2"
  shows "length res' + length pc2' + n' * length b = length res + length pc2 + n * length b \<and>
    subseq (res' @ pc2') (res @ pc2)"
  using assms
proof (induction b res n pc2 pc rule: FindAndDelete_loop.induct)
  case (1 b res n pc2 pc)
  let ?mid = "take (length pc2 - length pc) pc2"
  obtain m q where sk: "skip_matches b n pc = (m, q)" by (cases "skip_matches b n pc")
  obtain ok opc d q' where g: "GetOp2 q = (ok, opc, d, q')" by (cases "GetOp2 q") auto
  have split: "pc2 = ?mid @ pc" using 1(3) by (auto simp: suffix_def)
  have len: "length pc2 = length ?mid + length pc" by (subst split) simp
  have q: "suffix q pc" "length q + m * length b = length pc + n * length b"
    using skip_matches_suffix [of b n pc] skip_matches_length [of b n pc] sk by simp_all
  have "subseq q pc" using q(1) by (rule suffix_imp_subseq)
  then have "subseq (?mid @ q) (?mid @ pc)" by (intro list_emb_append_mono) simp_all
  then have "subseq (?mid @ q) pc2" using split by simp
  then have sub: "subseq (res @ ?mid @ q) (res @ pc2)" by (intro list_emb_append_mono) simp_all
  show ?case
  proof (cases ok)
    case True
    have "FindAndDelete_loop b (res @ ?mid) m q q' = (n', res', pc2')"
      using 1(2) True by (subst (asm) FindAndDelete_loop.simps) (simp add: sk g Let_def)
    then show ?thesis
      using 1(1) [OF refl sk [symmetric] refl g [symmetric] refl refl True] GetOp2_suffix [OF g] len q(2) sub
        subseq_order.trans by auto
  next
    case False
    then have "(n', res', pc2') = (m, res @ ?mid, q)"
      using 1(2) by (subst (asm) FindAndDelete_loop.simps) (simp add: sk g Let_def)
    then show ?thesis using len q(2) sub by simp
  qed
qed

text \<open>\<open>FindAndDelete\<close> removes as many copies of the pattern as it reports and nothing else.\<close>

lemma FindAndDelete_result:
  assumes "FindAndDelete b s = (n, s')"
  shows "length s = length s' + n * length b \<and> subseq s' s"
  using assms FindAndDelete_loop_result [of b "[]" 0 s s]
  by (auto simp: FindAndDelete_def split: if_splits prod.splits)

end
