(* ===== verification/Interpreter.thy ===== *)
theory Interpreter
  imports Script
begin

text \<open>
  The script interpreter of \<open>src/src/script/interpreter.cpp\<close>: \<open>EvalScript\<close> with one definition per case
  of its switch, and \<open>VerifyScript\<close>.  The stacks and the condition stack are lists with the top first,
  so \<open>stacktop(-i)\<close> is element \<open>i - 1\<close>.  The three virtual methods of \<open>BaseSignatureChecker\<close> are the
  record \<open>checker\<close>.  The hash functions and the test for a low S value, which come from the
  \<open>crypto\<close> directory and from libsecp256k1, are the parameter record \<open>crypto\<close>.
\<close>

unbundle bit_operations_syntax

datatype script_error =
    SCRIPT_ERR_OK | SCRIPT_ERR_UNKNOWN_ERROR | SCRIPT_ERR_EVAL_FALSE | SCRIPT_ERR_OP_RETURN
  | SCRIPT_ERR_SCRIPT_SIZE | SCRIPT_ERR_PUSH_SIZE | SCRIPT_ERR_OP_COUNT | SCRIPT_ERR_STACK_SIZE
  | SCRIPT_ERR_SIG_COUNT | SCRIPT_ERR_PUBKEY_COUNT | SCRIPT_ERR_VERIFY | SCRIPT_ERR_EQUALVERIFY
  | SCRIPT_ERR_CHECKMULTISIGVERIFY | SCRIPT_ERR_CHECKSIGVERIFY | SCRIPT_ERR_NUMEQUALVERIFY
  | SCRIPT_ERR_BAD_OPCODE | SCRIPT_ERR_DISABLED_OPCODE | SCRIPT_ERR_INVALID_STACK_OPERATION
  | SCRIPT_ERR_INVALID_ALTSTACK_OPERATION | SCRIPT_ERR_UNBALANCED_CONDITIONAL
  | SCRIPT_ERR_NEGATIVE_LOCKTIME | SCRIPT_ERR_UNSATISFIED_LOCKTIME | SCRIPT_ERR_SIG_HASHTYPE
  | SCRIPT_ERR_SIG_DER | SCRIPT_ERR_MINIMALDATA | SCRIPT_ERR_SIG_PUSHONLY | SCRIPT_ERR_SIG_HIGH_S
  | SCRIPT_ERR_SIG_NULLDUMMY | SCRIPT_ERR_PUBKEYTYPE | SCRIPT_ERR_CLEANSTACK | SCRIPT_ERR_SIG_NULLFAIL
  | SCRIPT_ERR_DISCOURAGE_UPGRADABLE_NOPS

type_synonym valtype = bytes
type_synonym val_stack = "valtype list"

subsection \<open>Flags\<close>

definition SCRIPT_VERIFY_P2SH :: u32 where "SCRIPT_VERIFY_P2SH = push_bit 0 1"
definition SCRIPT_VERIFY_STRICTENC :: u32 where "SCRIPT_VERIFY_STRICTENC = push_bit 1 1"
definition SCRIPT_VERIFY_DERSIG :: u32 where "SCRIPT_VERIFY_DERSIG = push_bit 2 1"
definition SCRIPT_VERIFY_LOW_S :: u32 where "SCRIPT_VERIFY_LOW_S = push_bit 3 1"
definition SCRIPT_VERIFY_NULLDUMMY :: u32 where "SCRIPT_VERIFY_NULLDUMMY = push_bit 4 1"
definition SCRIPT_VERIFY_SIGPUSHONLY :: u32 where "SCRIPT_VERIFY_SIGPUSHONLY = push_bit 5 1"
definition SCRIPT_VERIFY_MINIMALDATA :: u32 where "SCRIPT_VERIFY_MINIMALDATA = push_bit 6 1"
definition SCRIPT_VERIFY_DISCOURAGE_UPGRADABLE_NOPS :: u32 where
  "SCRIPT_VERIFY_DISCOURAGE_UPGRADABLE_NOPS = push_bit 7 1"
definition SCRIPT_VERIFY_CLEANSTACK :: u32 where "SCRIPT_VERIFY_CLEANSTACK = push_bit 8 1"
definition SCRIPT_VERIFY_CHECKLOCKTIMEVERIFY :: u32 where
  "SCRIPT_VERIFY_CHECKLOCKTIMEVERIFY = push_bit 9 1"
definition SCRIPT_VERIFY_CHECKSEQUENCEVERIFY :: u32 where
  "SCRIPT_VERIFY_CHECKSEQUENCEVERIFY = push_bit 10 1"
definition SCRIPT_VERIFY_NULLFAIL :: u32 where "SCRIPT_VERIFY_NULLFAIL = push_bit 14 1"
definition SCRIPT_OUTPUT_SENDER :: u32 where "SCRIPT_OUTPUT_SENDER = push_bit 29 1"

text \<open>\<open>flags & mask\<close> as a condition.\<close>

definition flag_set :: "u32 \<Rightarrow> u32 \<Rightarrow> bool" where
  "flag_set fl m \<longleftrightarrow> fl AND m \<noteq> 0"

subsection \<open>Signature and key encodings\<close>

fun CastToBool :: "valtype \<Rightarrow> bool" where
  "CastToBool [] = False" |
  "CastToBool (b # v) = (if b \<noteq> 0 then \<not> (v = [] \<and> b = 0x80) else CastToBool v)"

definition IsCompressedOrUncompressedPubKey :: "valtype \<Rightarrow> bool" where
  "IsCompressedOrUncompressedPubKey vchPubKey =
    (if length vchPubKey < 33 then False
     else if vchPubKey ! 0 = 0x04 then length vchPubKey = 65
     else if vchPubKey ! 0 = 0x02 \<or> vchPubKey ! 0 = 0x03 then length vchPubKey = 33
     else False)"

definition IsValidSignatureEncoding :: "bytes \<Rightarrow> bool" where
  "IsValidSignatureEncoding sig =
    (if length sig < 9 then False
     else if length sig > 73 then False
     else if sig ! 0 \<noteq> 0x30 then False
     else if unat (sig ! 1) \<noteq> length sig - 3 then False
     else let lenR = unat (sig ! 3) in
       if 5 + lenR \<ge> length sig then False
       else let lenS = unat (sig ! (5 + lenR)) in
         if lenR + lenS + 7 \<noteq> length sig then False
         else if sig ! 2 \<noteq> 0x02 then False
         else if lenR = 0 then False
         else if sig ! 4 AND 0x80 \<noteq> 0 then False
         else if lenR > 1 \<and> sig ! 4 = 0x00 \<and> \<not> sig ! 5 AND 0x80 \<noteq> 0 then False
         else if sig ! (lenR + 4) \<noteq> 0x02 then False
         else if lenS = 0 then False
         else if sig ! (lenR + 6) AND 0x80 \<noteq> 0 then False
         else if lenS > 1 \<and> sig ! (lenR + 6) = 0x00 \<and> \<not> sig ! (lenR + 7) AND 0x80 \<noteq> 0 then False
         else True)"

record crypto =
  RIPEMD160 :: "bytes \<Rightarrow> bytes"
  SHA1 :: "bytes \<Rightarrow> bytes"
  SHA256 :: "bytes \<Rightarrow> bytes"
  CheckLowS :: "bytes \<Rightarrow> bool"

record checker =
  CheckSig :: "bytes \<Rightarrow> bytes \<Rightarrow> script \<Rightarrow> bool"
  CheckLockTime :: "int \<Rightarrow> bool"
  CheckSequence :: "int \<Rightarrow> bool"

definition BaseSignatureChecker :: checker where
  "BaseSignatureChecker = \<lparr>CheckSig = \<lambda>_ _ _. False, CheckLockTime = \<lambda>_. False, CheckSequence = \<lambda>_. False\<rparr>"

text \<open>The error-setting checks return the error they set, or \<open>None\<close> for true.\<close>

definition IsLowDERSignature :: "crypto \<Rightarrow> valtype \<Rightarrow> script_error option" where
  "IsLowDERSignature cr vchSig =
    (if \<not> IsValidSignatureEncoding vchSig then Some SCRIPT_ERR_SIG_DER
     else if \<not> CheckLowS cr (butlast vchSig) then Some SCRIPT_ERR_SIG_HIGH_S
     else None)"

definition IsDefinedHashtypeSignature :: "valtype \<Rightarrow> bool" where
  "IsDefinedHashtypeSignature vchSig =
    (if length vchSig = 0 then False
     else let nHashType = vchSig ! (length vchSig - 1) AND NOT 0x80 in 1 \<le> nHashType \<and> nHashType \<le> 3)"

definition CheckSignatureEncoding :: "crypto \<Rightarrow> u32 \<Rightarrow> bytes \<Rightarrow> script_error option" where
  "CheckSignatureEncoding cr flags vchSig =
    (if length vchSig = 0 then None
     else if flag_set flags (SCRIPT_VERIFY_DERSIG OR SCRIPT_VERIFY_LOW_S OR SCRIPT_VERIFY_STRICTENC) \<and>
       \<not> IsValidSignatureEncoding vchSig then Some SCRIPT_ERR_SIG_DER
     else if flag_set flags SCRIPT_VERIFY_LOW_S \<and> IsLowDERSignature cr vchSig \<noteq> None
     then IsLowDERSignature cr vchSig
     else if flag_set flags SCRIPT_VERIFY_STRICTENC \<and> \<not> IsDefinedHashtypeSignature vchSig
     then Some SCRIPT_ERR_SIG_HASHTYPE
     else None)"

definition CheckPubKeyEncoding :: "u32 \<Rightarrow> valtype \<Rightarrow> script_error option" where
  "CheckPubKeyEncoding flags vchSig =
    (if flag_set flags SCRIPT_VERIFY_STRICTENC \<and> \<not> IsCompressedOrUncompressedPubKey vchSig
     then Some SCRIPT_ERR_PUBKEYTYPE else None)"

text \<open>\<open>!CheckSignatureEncoding(...) || !CheckPubKeyEncoding(...)\<close> with the error it sets.\<close>

definition check_encodings :: "crypto \<Rightarrow> u32 \<Rightarrow> bytes \<Rightarrow> valtype \<Rightarrow> script_error option" where
  "check_encodings cr flags vchSig vchPubKey =
    (case CheckSignatureEncoding cr flags vchSig of Some e \<Rightarrow> Some e
     | None \<Rightarrow> CheckPubKeyEncoding flags vchPubKey)"

definition CheckMinimalPush :: "valtype \<Rightarrow> byte \<Rightarrow> bool" where
  "CheckMinimalPush data opcode =
    (if length data = 0 then opcode = OP_0
     else if length data = 1 \<and> data ! 0 \<ge> 1 \<and> data ! 0 \<le> 16 then opcode = OP_1 + (data ! 0 - 1)
     else if length data = 1 \<and> data ! 0 = 0x81 then opcode = OP_1NEGATE
     else if length data \<le> 75 then unat opcode = length data
     else if length data \<le> 255 then opcode = OP_PUSHDATA1
     else if length data \<le> 65535 then opcode = OP_PUSHDATA2
     else True)"

subsection \<open>Evaluation state\<close>

record eval_env =
  flags :: u32
  checker_of :: checker
  crypto_of :: crypto

record eval_state =
  stk :: val_stack
  altstack :: val_stack
  vfExec :: "bool list"
  nOpCount :: nat
  pbegincodehash :: script

text \<open>How a case of the switch ends: \<open>break\<close>, \<open>return set_error(serror, e)\<close>, or \<open>return true\<close>.\<close>

datatype outcome = Next eval_state | Err script_error eval_state | Ret_true eval_state

type_synonym handler = "eval_env \<Rightarrow> byte \<Rightarrow> bool \<Rightarrow> script \<Rightarrow> eval_state \<Rightarrow> outcome"

definition fRequireMinimal :: "eval_env \<Rightarrow> bool" where
  "fRequireMinimal env = flag_set (flags env) SCRIPT_VERIFY_MINIMALDATA"

text \<open>A \<open>CScriptNum\<close> read from a stack element; its exception ends the evaluation with the unknown
  error.\<close>

definition with_num :: "eval_env \<Rightarrow> nat \<Rightarrow> valtype \<Rightarrow> eval_state \<Rightarrow> (int \<Rightarrow> outcome) \<Rightarrow> outcome" where
  "with_num env nMaxNumSize v st k =
    (case CScriptNum (fRequireMinimal env) nMaxNumSize v of
       Inl _ \<Rightarrow> Err SCRIPT_ERR_UNKNOWN_ERROR st | Inr n \<Rightarrow> k n)"

definition bad_stack :: "eval_state \<Rightarrow> outcome" where
  "bad_stack st = Err SCRIPT_ERR_INVALID_STACK_OPERATION st"

definition set_stk :: "val_stack \<Rightarrow> eval_state \<Rightarrow> outcome" where
  "set_stk s st = Next (st\<lparr>stk := s\<rparr>)"

definition bool_val :: "bool \<Rightarrow> valtype" where
  "bool_val b = (if b then [1] else [])"

subsection \<open>Push and control\<close>

definition sc_number :: handler where
  "sc_number env opcode fExec pc st = set_stk (ScriptNum_serialize (uint opcode - (uint OP_1 - 1)) # stk st) st"

definition sc_NOP :: handler where
  "sc_NOP env opcode fExec pc st = Next st"

definition sc_CHECKLOCKTIMEVERIFY :: handler where
  "sc_CHECKLOCKTIMEVERIFY env opcode fExec pc st =
    (if \<not> flag_set (flags env) SCRIPT_VERIFY_CHECKLOCKTIMEVERIFY then
       (if flag_set (flags env) SCRIPT_VERIFY_DISCOURAGE_UPGRADABLE_NOPS
        then Err SCRIPT_ERR_DISCOURAGE_UPGRADABLE_NOPS st else Next st)
     else case stk st of [] \<Rightarrow> bad_stack st
     | v # s \<Rightarrow> with_num env 5 v st (\<lambda>nLockTime.
         if nLockTime < 0 then Err SCRIPT_ERR_NEGATIVE_LOCKTIME st
         else if \<not> CheckLockTime (checker_of env) nLockTime then Err SCRIPT_ERR_UNSATISFIED_LOCKTIME st
         else Next st))"

definition sc_CHECKSEQUENCEVERIFY :: handler where
  "sc_CHECKSEQUENCEVERIFY env opcode fExec pc st =
    (if \<not> flag_set (flags env) SCRIPT_VERIFY_CHECKSEQUENCEVERIFY then
       (if flag_set (flags env) SCRIPT_VERIFY_DISCOURAGE_UPGRADABLE_NOPS
        then Err SCRIPT_ERR_DISCOURAGE_UPGRADABLE_NOPS st else Next st)
     else case stk st of [] \<Rightarrow> bad_stack st
     | v # s \<Rightarrow> with_num env 5 v st (\<lambda>nSequence.
         if nSequence < 0 then Err SCRIPT_ERR_NEGATIVE_LOCKTIME st
         else if nSequence AND 2147483648 \<noteq> 0 then Next st
         else if \<not> CheckSequence (checker_of env) nSequence then Err SCRIPT_ERR_UNSATISFIED_LOCKTIME st
         else Next st))"

definition sc_NOPn :: handler where
  "sc_NOPn env opcode fExec pc st =
    (if flag_set (flags env) SCRIPT_VERIFY_DISCOURAGE_UPGRADABLE_NOPS
     then Err SCRIPT_ERR_DISCOURAGE_UPGRADABLE_NOPS st else Next st)"

definition sc_IF :: handler where
  "sc_IF env opcode fExec pc st =
    (if fExec then
       (case stk st of [] \<Rightarrow> Err SCRIPT_ERR_UNBALANCED_CONDITIONAL st
        | v # s \<Rightarrow>
          let fValue = CastToBool v; fValue' = (if opcode = OP_NOTIF then \<not> fValue else fValue) in
          Next (st\<lparr>stk := s, vfExec := fValue' # vfExec st\<rparr>))
     else Next (st\<lparr>vfExec := False # vfExec st\<rparr>))"

definition sc_ELSE :: handler where
  "sc_ELSE env opcode fExec pc st =
    (case vfExec st of [] \<Rightarrow> Err SCRIPT_ERR_UNBALANCED_CONDITIONAL st
     | b # bs \<Rightarrow> Next (st\<lparr>vfExec := (\<not> b) # bs\<rparr>))"

definition sc_ENDIF :: handler where
  "sc_ENDIF env opcode fExec pc st =
    (case vfExec st of [] \<Rightarrow> Err SCRIPT_ERR_UNBALANCED_CONDITIONAL st
     | b # bs \<Rightarrow> Next (st\<lparr>vfExec := bs\<rparr>))"

definition sc_VERIFY :: handler where
  "sc_VERIFY env opcode fExec pc st =
    (case stk st of [] \<Rightarrow> bad_stack st
     | v # s \<Rightarrow> if CastToBool v then set_stk s st else Err SCRIPT_ERR_VERIFY st)"

definition sc_RETURN :: handler where
  "sc_RETURN env opcode fExec pc st = Err SCRIPT_ERR_OP_RETURN st"

subsection \<open>Stack operations\<close>

definition sc_TOALTSTACK :: handler where
  "sc_TOALTSTACK env opcode fExec pc st =
    (case stk st of [] \<Rightarrow> bad_stack st
     | v # s \<Rightarrow> Next (st\<lparr>stk := s, altstack := v # altstack st\<rparr>))"

definition sc_FROMALTSTACK :: handler where
  "sc_FROMALTSTACK env opcode fExec pc st =
    (case altstack st of [] \<Rightarrow> Err SCRIPT_ERR_INVALID_ALTSTACK_OPERATION st
     | v # s \<Rightarrow> Next (st\<lparr>stk := v # stk st, altstack := s\<rparr>))"

definition sc_2DROP :: handler where
  "sc_2DROP env opcode fExec pc st =
    (case stk st of x2 # x1 # s \<Rightarrow> set_stk s st | _ \<Rightarrow> bad_stack st)"

definition sc_2DUP :: handler where
  "sc_2DUP env opcode fExec pc st =
    (case stk st of x2 # x1 # s \<Rightarrow> set_stk (x2 # x1 # x2 # x1 # s) st | _ \<Rightarrow> bad_stack st)"

definition sc_3DUP :: handler where
  "sc_3DUP env opcode fExec pc st =
    (case stk st of x3 # x2 # x1 # s \<Rightarrow> set_stk (x3 # x2 # x1 # x3 # x2 # x1 # s) st | _ \<Rightarrow> bad_stack st)"

definition sc_2OVER :: handler where
  "sc_2OVER env opcode fExec pc st =
    (case stk st of x4 # x3 # x2 # x1 # s \<Rightarrow> set_stk (x2 # x1 # x4 # x3 # x2 # x1 # s) st | _ \<Rightarrow> bad_stack st)"

definition sc_2ROT :: handler where
  "sc_2ROT env opcode fExec pc st =
    (case stk st of x6 # x5 # x4 # x3 # x2 # x1 # s \<Rightarrow> set_stk (x2 # x1 # x6 # x5 # x4 # x3 # s) st
     | _ \<Rightarrow> bad_stack st)"

definition sc_2SWAP :: handler where
  "sc_2SWAP env opcode fExec pc st =
    (case stk st of x4 # x3 # x2 # x1 # s \<Rightarrow> set_stk (x2 # x1 # x4 # x3 # s) st | _ \<Rightarrow> bad_stack st)"

definition sc_IFDUP :: handler where
  "sc_IFDUP env opcode fExec pc st =
    (case stk st of v # s \<Rightarrow> if CastToBool v then set_stk (v # v # s) st else Next st
     | [] \<Rightarrow> bad_stack st)"

definition sc_DEPTH :: handler where
  "sc_DEPTH env opcode fExec pc st = set_stk (ScriptNum_serialize (int (length (stk st))) # stk st) st"

definition sc_DROP :: handler where
  "sc_DROP env opcode fExec pc st = (case stk st of v # s \<Rightarrow> set_stk s st | [] \<Rightarrow> bad_stack st)"

definition sc_DUP :: handler where
  "sc_DUP env opcode fExec pc st = (case stk st of v # s \<Rightarrow> set_stk (v # v # s) st | [] \<Rightarrow> bad_stack st)"

definition sc_NIP :: handler where
  "sc_NIP env opcode fExec pc st = (case stk st of x2 # x1 # s \<Rightarrow> set_stk (x2 # s) st | _ \<Rightarrow> bad_stack st)"

definition sc_OVER :: handler where
  "sc_OVER env opcode fExec pc st =
    (case stk st of x2 # x1 # s \<Rightarrow> set_stk (x1 # x2 # x1 # s) st | _ \<Rightarrow> bad_stack st)"

definition sc_PICK_ROLL :: handler where
  "sc_PICK_ROLL env opcode fExec pc st =
    (case stk st of v # x # s' \<Rightarrow>
       with_num env 4 v st (\<lambda>bn.
         let n = getint bn; s = x # s'; st1 = st\<lparr>stk := s\<rparr> in
         if n < 0 \<or> n \<ge> int (length s) then bad_stack st1
         else let y = s ! nat n in
           if opcode = OP_ROLL then set_stk (y # take (nat n) s @ drop (Suc (nat n)) s) st
           else set_stk (y # s) st)
     | _ \<Rightarrow> bad_stack st)"

definition sc_ROT :: handler where
  "sc_ROT env opcode fExec pc st =
    (case stk st of x3 # x2 # x1 # s \<Rightarrow> set_stk (x1 # x3 # x2 # s) st | _ \<Rightarrow> bad_stack st)"

definition sc_SWAP :: handler where
  "sc_SWAP env opcode fExec pc st =
    (case stk st of x2 # x1 # s \<Rightarrow> set_stk (x1 # x2 # s) st | _ \<Rightarrow> bad_stack st)"

definition sc_TUCK :: handler where
  "sc_TUCK env opcode fExec pc st =
    (case stk st of x2 # x1 # s \<Rightarrow> set_stk (x2 # x1 # x2 # s) st | _ \<Rightarrow> bad_stack st)"

definition sc_SIZE :: handler where
  "sc_SIZE env opcode fExec pc st =
    (case stk st of v # s \<Rightarrow> set_stk (ScriptNum_serialize (int (length v)) # v # s) st | [] \<Rightarrow> bad_stack st)"

definition sc_EQUAL :: handler where
  "sc_EQUAL env opcode fExec pc st =
    (case stk st of x2 # x1 # s \<Rightarrow>
       let fEqual = (x1 = x2) in
       if opcode = OP_EQUALVERIFY then
         (if fEqual then set_stk s st
          else Err SCRIPT_ERR_EQUALVERIFY (st\<lparr>stk := bool_val fEqual # s\<rparr>))
       else set_stk (bool_val fEqual # s) st
     | _ \<Rightarrow> bad_stack st)"

subsection \<open>Arithmetic\<close>

text \<open>The inner switches end in an assertion that the opcode is one of theirs.  It cannot fail, because
  \<open>sc_table\<close> gives these handlers only the opcodes of the enclosing labels; the last opcode of a switch
  takes the place of the default here.  The assertions of \<open>CScriptNum\<close> against 64-bit overflow cannot
  fail either, since the operands have at most four bytes.\<close>

definition unary_num :: "byte \<Rightarrow> int \<Rightarrow> int" where
  "unary_num opcode bn =
    (if opcode = OP_1ADD then bn + 1
     else if opcode = OP_1SUB then bn - 1
     else if opcode = OP_NEGATE then - bn
     else if opcode = OP_ABS then (if bn < 0 then - bn else bn)
     else if opcode = OP_NOT then of_bool (bn = 0)
     else of_bool (bn \<noteq> 0))"

definition sc_unary :: handler where
  "sc_unary env opcode fExec pc st =
    (case stk st of [] \<Rightarrow> bad_stack st
     | v # s \<Rightarrow> with_num env 4 v st (\<lambda>bn. set_stk (ScriptNum_serialize (unary_num opcode bn) # s) st))"

definition binary_num :: "byte \<Rightarrow> int \<Rightarrow> int \<Rightarrow> int" where
  "binary_num opcode bn1 bn2 =
    (if opcode = OP_ADD then bn1 + bn2
     else if opcode = OP_SUB then bn1 - bn2
     else if opcode = OP_BOOLAND then of_bool (bn1 \<noteq> 0 \<and> bn2 \<noteq> 0)
     else if opcode = OP_BOOLOR then of_bool (bn1 \<noteq> 0 \<or> bn2 \<noteq> 0)
     else if opcode = OP_NUMEQUAL then of_bool (bn1 = bn2)
     else if opcode = OP_NUMEQUALVERIFY then of_bool (bn1 = bn2)
     else if opcode = OP_NUMNOTEQUAL then of_bool (bn1 \<noteq> bn2)
     else if opcode = OP_LESSTHAN then of_bool (bn1 < bn2)
     else if opcode = OP_GREATERTHAN then of_bool (bn1 > bn2)
     else if opcode = OP_LESSTHANOREQUAL then of_bool (bn1 \<le> bn2)
     else if opcode = OP_GREATERTHANOREQUAL then of_bool (bn1 \<ge> bn2)
     else if opcode = OP_MIN then (if bn1 < bn2 then bn1 else bn2)
     else (if bn1 > bn2 then bn1 else bn2))"

definition sc_binary :: handler where
  "sc_binary env opcode fExec pc st =
    (case stk st of v2 # v1 # s \<Rightarrow>
       with_num env 4 v1 st (\<lambda>bn1. with_num env 4 v2 st (\<lambda>bn2.
         let r = ScriptNum_serialize (binary_num opcode bn1 bn2) in
         if opcode = OP_NUMEQUALVERIFY then
           (if CastToBool r then set_stk s st
            else Err SCRIPT_ERR_NUMEQUALVERIFY (st\<lparr>stk := r # s\<rparr>))
         else set_stk (r # s) st))
     | _ \<Rightarrow> bad_stack st)"

definition sc_WITHIN :: handler where
  "sc_WITHIN env opcode fExec pc st =
    (case stk st of v3 # v2 # v1 # s \<Rightarrow>
       with_num env 4 v1 st (\<lambda>bn1. with_num env 4 v2 st (\<lambda>bn2. with_num env 4 v3 st (\<lambda>bn3.
         set_stk (bool_val (bn2 \<le> bn1 \<and> bn1 < bn3) # s) st)))
     | _ \<Rightarrow> bad_stack st)"

subsection \<open>Cryptography\<close>

definition Hash160 :: "crypto \<Rightarrow> bytes \<Rightarrow> bytes" where
  "Hash160 cr v = RIPEMD160 cr (SHA256 cr v)"

definition Hash256 :: "crypto \<Rightarrow> bytes \<Rightarrow> bytes" where
  "Hash256 cr v = SHA256 cr (SHA256 cr v)"

definition sc_HASH :: handler where
  "sc_HASH env opcode fExec pc st =
    (case stk st of [] \<Rightarrow> bad_stack st
     | v # s \<Rightarrow>
       let cr = crypto_of env;
           vchHash = (if opcode = OP_RIPEMD160 then RIPEMD160 cr v
                      else if opcode = OP_SHA1 then SHA1 cr v
                      else if opcode = OP_SHA256 then SHA256 cr v
                      else if opcode = OP_HASH160 then Hash160 cr v
                      else Hash256 cr v) in
       set_stk (vchHash # s) st)"

definition sc_CODESEPARATOR :: handler where
  "sc_CODESEPARATOR env opcode fExec pc st = Next (st\<lparr>pbegincodehash := pc\<rparr>)"

definition sc_CHECKSIG :: handler where
  "sc_CHECKSIG env opcode fExec pc st =
    (case stk st of vchPubKey # vchSig # s \<Rightarrow>
       let scriptCode = snd (FindAndDelete (push_data vchSig) (pbegincodehash st)) in
       (case check_encodings (crypto_of env) (flags env) vchSig vchPubKey of Some e \<Rightarrow> Err e st
        | None \<Rightarrow>
          let fSuccess = CheckSig (checker_of env) vchSig vchPubKey scriptCode in
          if \<not> fSuccess \<and> flag_set (flags env) SCRIPT_VERIFY_NULLFAIL \<and> length vchSig \<noteq> 0
          then Err SCRIPT_ERR_SIG_NULLFAIL st
          else if opcode = OP_CHECKSIGVERIFY then
            (if fSuccess then set_stk s st
             else Err SCRIPT_ERR_CHECKSIGVERIFY (st\<lparr>stk := bool_val fSuccess # s\<rparr>))
          else set_stk (bool_val fSuccess # s) st)
     | _ \<Rightarrow> bad_stack st)"

text \<open>The signature loop of \<open>OP_CHECKMULTISIG\<close>: \<open>nSigsCount\<close> and \<open>nKeysCount\<close> are the lengths of the
  two lists, the elements from \<open>stacktop(-isig)\<close> and \<open>stacktop(-ikey)\<close> on.\<close>

fun multisig_loop ::
  "(bytes \<Rightarrow> valtype \<Rightarrow> script_error option) \<Rightarrow> (bytes \<Rightarrow> valtype \<Rightarrow> bool) \<Rightarrow> bytes list \<Rightarrow> valtype list \<Rightarrow>
    script_error + bool" where
  "multisig_loop enc check [] keys = Inr True" |
  "multisig_loop enc check (sig # sigs) [] = Inr False" |
  "multisig_loop enc check (sig # sigs) (key # keys) =
    (case enc sig key of Some e \<Rightarrow> Inl e
     | None \<Rightarrow>
       let fOk = check sig key; sigs' = (if fOk then sigs else sig # sigs) in
       if length sigs' > length keys then Inr False
       else multisig_loop enc check sigs' keys)"

text \<open>The loop that pops the arguments: it removes \<open>n\<close> elements; \<open>ikey2\<close> counts down the elements that
  are not signatures.  \<open>Inl\<close> is the stack at a signature that should have been empty.\<close>

fun multisig_cleanup :: "bool \<Rightarrow> nat \<Rightarrow> nat \<Rightarrow> val_stack \<Rightarrow> val_stack + val_stack" where
  "multisig_cleanup nullfail 0 ikey2 s = Inr s" |
  "multisig_cleanup nullfail (Suc n) ikey2 s =
    (if nullfail \<and> ikey2 = 0 \<and> length (hd s) \<noteq> 0 then Inl s
     else multisig_cleanup nullfail n (ikey2 - 1) (tl s))"

definition multisig_finish :: "eval_env \<Rightarrow> byte \<Rightarrow> bool \<Rightarrow> nat \<Rightarrow> nat \<Rightarrow> eval_state \<Rightarrow> outcome" where
  "multisig_finish env opcode fSuccess i ikey2 st =
    (case multisig_cleanup (\<not> fSuccess \<and> flag_set (flags env) SCRIPT_VERIFY_NULLFAIL) (i - 1) ikey2 (stk st) of
       Inl s \<Rightarrow> Err SCRIPT_ERR_SIG_NULLFAIL (st\<lparr>stk := s\<rparr>)
     | Inr [] \<Rightarrow> bad_stack (st\<lparr>stk := []\<rparr>)
     | Inr (dummy # s) \<Rightarrow>
       if flag_set (flags env) SCRIPT_VERIFY_NULLDUMMY \<and> length dummy \<noteq> 0
       then Err SCRIPT_ERR_SIG_NULLDUMMY (st\<lparr>stk := dummy # s\<rparr>)
       else if opcode = OP_CHECKMULTISIGVERIFY then
         (if fSuccess then set_stk s st
          else Err SCRIPT_ERR_CHECKMULTISIGVERIFY (st\<lparr>stk := bool_val fSuccess # s\<rparr>))
       else set_stk (bool_val fSuccess # s) st)"

definition sc_CHECKMULTISIG :: handler where
  "sc_CHECKMULTISIG env opcode fExec pc st =
    (case stk st of [] \<Rightarrow> bad_stack st
     | v # _ \<Rightarrow> with_num env 4 v st (\<lambda>bnKeys.
       let nKeys = getint bnKeys in
       if nKeys < 0 \<or> nKeys > int MAX_PUBKEYS_PER_MULTISIG then Err SCRIPT_ERR_PUBKEY_COUNT st
       else let nKeysCount = nat nKeys; st1 = st\<lparr>nOpCount := nOpCount st + nKeysCount\<rparr> in
       if nOpCount st1 > MAX_OPS_PER_SCRIPT then Err SCRIPT_ERR_OP_COUNT st1
       else let ikey = 2; ikey2 = nKeysCount + 2; i = 2 + nKeysCount in
       if length (stk st1) < i then bad_stack st1
       else with_num env 4 (stk st1 ! (i - 1)) st1 (\<lambda>bnSigs.
         let nSigs = getint bnSigs in
         if nSigs < 0 \<or> nSigs > nKeys then Err SCRIPT_ERR_SIG_COUNT st1
         else let nSigsCount = nat nSigs; isig = i + 1; i' = isig + nSigsCount in
         if length (stk st1) < i' then bad_stack st1
         else
           let sigs = take nSigsCount (drop (isig - 1) (stk st1));
               keys = take nKeysCount (drop (ikey - 1) (stk st1));
               scriptCode = fold (\<lambda>vchSig sc. snd (FindAndDelete (push_data vchSig) sc)) sigs (pbegincodehash st1) in
           (case multisig_loop (check_encodings (crypto_of env) (flags env))
                   (\<lambda>sig key. CheckSig (checker_of env) sig key scriptCode) sigs keys of
              Inl e \<Rightarrow> Err e st1
            | Inr fSuccess \<Rightarrow> multisig_finish env opcode fSuccess i' ikey2 st1))))"

subsection \<open>Contract opcodes\<close>

definition sc_SENDER :: handler where
  "sc_SENDER env opcode fExec pc st =
    (if \<not> flag_set (flags env) SCRIPT_OUTPUT_SENDER then Err SCRIPT_ERR_BAD_OPCODE st else Next st)"

definition sc_SPEND :: handler where
  "sc_SPEND env opcode fExec pc st = Ret_true st"

definition sc_CREATE_CALL :: handler where
  "sc_CREATE_CALL env opcode fExec pc st = Ret_true (st\<lparr>stk := (opcode # pc) # stk st\<rparr>)"

definition sc_default :: handler where
  "sc_default env opcode fExec pc st = Err SCRIPT_ERR_BAD_OPCODE st"

subsection \<open>The loop\<close>

definition sc_table :: "(byte \<times> handler) list" where
  "sc_table = [
    (OP_1NEGATE, sc_number), (OP_1, sc_number), (OP_2, sc_number), (OP_3, sc_number), (OP_4, sc_number),
    (OP_5, sc_number), (OP_6, sc_number), (OP_7, sc_number), (OP_8, sc_number), (OP_9, sc_number),
    (OP_10, sc_number), (OP_11, sc_number), (OP_12, sc_number), (OP_13, sc_number), (OP_14, sc_number),
    (OP_15, sc_number), (OP_16, sc_number), (OP_NOP, sc_NOP),
    (OP_CHECKLOCKTIMEVERIFY, sc_CHECKLOCKTIMEVERIFY), (OP_CHECKSEQUENCEVERIFY, sc_CHECKSEQUENCEVERIFY),
    (OP_NOP1, sc_NOPn), (OP_NOP4, sc_NOPn), (OP_NOP5, sc_NOPn), (OP_NOP6, sc_NOPn), (OP_NOP7, sc_NOPn),
    (OP_NOP8, sc_NOPn), (OP_NOP9, sc_NOPn), (OP_NOP10, sc_NOPn), (OP_IF, sc_IF), (OP_NOTIF, sc_IF),
    (OP_ELSE, sc_ELSE), (OP_ENDIF, sc_ENDIF), (OP_VERIFY, sc_VERIFY), (OP_RETURN, sc_RETURN),
    (OP_TOALTSTACK, sc_TOALTSTACK), (OP_FROMALTSTACK, sc_FROMALTSTACK), (OP_2DROP, sc_2DROP),
    (OP_2DUP, sc_2DUP), (OP_3DUP, sc_3DUP), (OP_2OVER, sc_2OVER), (OP_2ROT, sc_2ROT),
    (OP_2SWAP, sc_2SWAP), (OP_IFDUP, sc_IFDUP), (OP_DEPTH, sc_DEPTH), (OP_DROP, sc_DROP),
    (OP_DUP, sc_DUP), (OP_NIP, sc_NIP), (OP_OVER, sc_OVER), (OP_PICK, sc_PICK_ROLL),
    (OP_ROLL, sc_PICK_ROLL), (OP_ROT, sc_ROT), (OP_SWAP, sc_SWAP), (OP_TUCK, sc_TUCK),
    (OP_SIZE, sc_SIZE), (OP_EQUAL, sc_EQUAL), (OP_EQUALVERIFY, sc_EQUAL), (OP_1ADD, sc_unary),
    (OP_1SUB, sc_unary), (OP_NEGATE, sc_unary), (OP_ABS, sc_unary), (OP_NOT, sc_unary),
    (OP_0NOTEQUAL, sc_unary), (OP_ADD, sc_binary), (OP_SUB, sc_binary), (OP_BOOLAND, sc_binary),
    (OP_BOOLOR, sc_binary), (OP_NUMEQUAL, sc_binary), (OP_NUMEQUALVERIFY, sc_binary),
    (OP_NUMNOTEQUAL, sc_binary), (OP_LESSTHAN, sc_binary), (OP_GREATERTHAN, sc_binary),
    (OP_LESSTHANOREQUAL, sc_binary), (OP_GREATERTHANOREQUAL, sc_binary), (OP_MIN, sc_binary),
    (OP_MAX, sc_binary), (OP_WITHIN, sc_WITHIN), (OP_RIPEMD160, sc_HASH), (OP_SHA1, sc_HASH),
    (OP_SHA256, sc_HASH), (OP_HASH160, sc_HASH), (OP_HASH256, sc_HASH),
    (OP_CODESEPARATOR, sc_CODESEPARATOR), (OP_CHECKSIG, sc_CHECKSIG), (OP_CHECKSIGVERIFY, sc_CHECKSIG),
    (OP_CHECKMULTISIG, sc_CHECKMULTISIG), (OP_CHECKMULTISIGVERIFY, sc_CHECKMULTISIG),
    (OP_SENDER, sc_SENDER), (OP_SPEND, sc_SPEND), (OP_CREATE, sc_CREATE_CALL), (OP_CALL, sc_CREATE_CALL)
  ]"

definition sc_switch :: handler where
  "sc_switch env opcode =
    (case map_of sc_table opcode of Some h \<Rightarrow> h env opcode | None \<Rightarrow> sc_default env opcode)"

definition disabled_opcodes :: "byte list" where
  "disabled_opcodes =
    [OP_CAT, OP_SUBSTR, OP_LEFT, OP_RIGHT, OP_INVERT, OP_AND, OP_OR, OP_XOR, OP_2MUL, OP_2DIV, OP_MUL,
     OP_DIV, OP_MOD, OP_LSHIFT, OP_RSHIFT]"

text \<open>The body of the loop after the instruction has been read.\<close>

definition eval_step :: "eval_env \<Rightarrow> byte \<Rightarrow> bytes \<Rightarrow> script \<Rightarrow> eval_state \<Rightarrow> outcome" where
  "eval_step env opcode vchPushValue pc st =
    (let fExec = (False \<notin> set (vfExec st)) in
     if length vchPushValue > MAX_SCRIPT_ELEMENT_SIZE then Err SCRIPT_ERR_PUSH_SIZE st
     else let st1 = (if opcode > OP_16 then st\<lparr>nOpCount := nOpCount st + 1\<rparr> else st) in
     if opcode > OP_16 \<and> nOpCount st1 > MAX_OPS_PER_SCRIPT then Err SCRIPT_ERR_OP_COUNT st1
     else if opcode \<in> set disabled_opcodes then Err SCRIPT_ERR_DISABLED_OPCODE st1
     else case
       (if fExec \<and> opcode \<le> OP_PUSHDATA4 then
          (if fRequireMinimal env \<and> \<not> CheckMinimalPush vchPushValue opcode
           then Err SCRIPT_ERR_MINIMALDATA st1
           else set_stk (vchPushValue # stk st1) st1)
        else if fExec \<or> (OP_IF \<le> opcode \<and> opcode \<le> OP_ENDIF) then sc_switch env opcode fExec pc st1
        else Next st1) of
       Next st2 \<Rightarrow>
         if length (stk st2) + length (altstack st2) > 1000 then Err SCRIPT_ERR_STACK_SIZE st2 else Next st2
     | r \<Rightarrow> r)"

function eval_loop :: "eval_env \<Rightarrow> script \<Rightarrow> eval_state \<Rightarrow> bool \<times> script_error \<times> val_stack" where
  "eval_loop env pc st =
    (if pc = [] then
       (if vfExec st \<noteq> [] then (False, SCRIPT_ERR_UNBALANCED_CONDITIONAL, stk st)
        else (True, SCRIPT_ERR_OK, stk st))
     else case GetOp2 pc of (ok, opcode, vchPushValue, pc') \<Rightarrow>
       if \<not> ok then (False, SCRIPT_ERR_BAD_OPCODE, stk st)
       else case eval_step env opcode vchPushValue pc' st of
         Next st' \<Rightarrow> eval_loop env pc' st'
       | Err e st' \<Rightarrow> (False, e, stk st')
       | Ret_true st' \<Rightarrow> (True, SCRIPT_ERR_UNKNOWN_ERROR, stk st'))"
  by pat_completeness auto
termination
  by (relation "measure (\<lambda>(_, pc, _). length pc)") (auto intro: GetOp2_decreases [OF sym])

declare eval_loop.simps [simp del]

definition eval_init :: "val_stack \<Rightarrow> script \<Rightarrow> eval_state" where
  "eval_init s scr = \<lparr>stk = s, altstack = [], vfExec = [], nOpCount = 0, pbegincodehash = scr\<rparr>"

definition EvalScript :: "eval_env \<Rightarrow> val_stack \<Rightarrow> script \<Rightarrow> bool \<times> script_error \<times> val_stack" where
  "EvalScript env s scr =
    (if length scr > MAX_SCRIPT_SIZE then (False, SCRIPT_ERR_SCRIPT_SIZE, s)
     else eval_loop env scr (eval_init s scr))"

subsection \<open>Script verification\<close>

text \<open>\<open>None\<close> is a failed assertion.\<close>

definition verify_cleanstack :: "eval_env \<Rightarrow> val_stack \<Rightarrow> (bool \<times> script_error) option" where
  "verify_cleanstack env s =
    (if flag_set (flags env) SCRIPT_VERIFY_CLEANSTACK then
       (if \<not> flag_set (flags env) SCRIPT_VERIFY_P2SH then None
        else if length s \<noteq> 1 then Some (False, SCRIPT_ERR_CLEANSTACK)
        else Some (True, SCRIPT_ERR_OK))
     else Some (True, SCRIPT_ERR_OK))"

definition verify_p2sh :: "eval_env \<Rightarrow> script \<Rightarrow> val_stack \<Rightarrow> (bool \<times> script_error) option" where
  "verify_p2sh env scriptSig stackCopy =
    (if \<not> IsPushOnly scriptSig then Some (False, SCRIPT_ERR_SIG_PUSHONLY)
     else case stackCopy of [] \<Rightarrow> None
     | pubKeySerialized # s \<Rightarrow>
       (case EvalScript env s pubKeySerialized of (ok, e, s') \<Rightarrow>
          if \<not> ok then Some (False, e)
          else if s' = [] then Some (False, SCRIPT_ERR_EVAL_FALSE)
          else if \<not> CastToBool (hd s') then Some (False, SCRIPT_ERR_EVAL_FALSE)
          else verify_cleanstack env s'))"

definition VerifyScript :: "eval_env \<Rightarrow> script \<Rightarrow> script \<Rightarrow> (bool \<times> script_error) option" where
  "VerifyScript env scriptSig scriptPubKey =
    (if flag_set (flags env) SCRIPT_VERIFY_SIGPUSHONLY \<and> \<not> IsPushOnly scriptSig
     then Some (False, SCRIPT_ERR_SIG_PUSHONLY)
     else case EvalScript env [] scriptSig of (ok, e, s) \<Rightarrow>
       if \<not> ok then Some (False, e)
       else case EvalScript env s scriptPubKey of (ok', e', s') \<Rightarrow>
         if \<not> ok' then Some (False, e')
         else if s' = [] then Some (False, SCRIPT_ERR_EVAL_FALSE)
         else if CastToBool (hd s') = False then Some (False, SCRIPT_ERR_EVAL_FALSE)
         else if flag_set (flags env) SCRIPT_VERIFY_P2SH \<and> IsPayToScriptHash scriptPubKey
         then verify_p2sh env scriptSig s
         else verify_cleanstack env s')"

end
