(* ===== verification/Transaction.thy ===== *)
theory Transaction
  imports Codecs Script
begin

text \<open>
  Transactions: \<open>COutPoint\<close>, \<open>CTxIn\<close>, \<open>CTxOut\<close> and \<open>CTransaction\<close> of
  \<open>src/src/primitives/transaction.h\<close> with their serialization, the amounts of \<open>src/src/amount.h\<close>, and
  the checks of \<open>src/src/validation.cpp\<close> that need no chain state: \<open>CheckTransaction\<close>,
  \<open>ContextualCheckTransaction\<close>, \<open>IsFinalTx\<close>, \<open>CheckTxInputs\<close> over a view of the unspent coins, and the
  block subsidy.  Amounts are signed 64-bit integers in the code; every sum below is range-checked
  before the next addition, so they are \<open>int\<close> here.
\<close>

unbundle bit_operations_syntax

subsection \<open>Amounts\<close>

type_synonym amount = int

definition COIN :: amount where
  "COIN = 100000000"

definition MAX_MONEY :: amount where
  "MAX_MONEY = 7000000000 * COIN"

definition MoneyRange :: "amount \<Rightarrow> bool" where
  "MoneyRange v \<longleftrightarrow> v \<ge> 0 \<and> v \<le> MAX_MONEY"

text \<open>C++ division truncates towards zero.\<close>

definition tdiv :: "int \<Rightarrow> int \<Rightarrow> int" where
  "tdiv a b = (if (a < 0) = (b < 0) then \<bar>a\<bar> div \<bar>b\<bar> else - (\<bar>a\<bar> div \<bar>b\<bar>))"

text \<open>\<open>None\<close> is a failed assertion on the size or a signed overflow of the product.\<close>

definition int64_product :: "int \<Rightarrow> int \<Rightarrow> int option" where
  "int64_product a b = (if - (2 ^ 63) \<le> a * b \<and> a * b < 2 ^ 63 then Some (a * b) else None)"

definition CFeeRate :: "amount \<Rightarrow> nat \<Rightarrow> amount option" where
  "CFeeRate nFeePaid nBytes =
    (if \<not> nBytes < 2 ^ 63 then None
     else if 0 < nBytes then map_option (\<lambda>n. tdiv n (int nBytes)) (int64_product nFeePaid 1000)
     else Some 0)"

definition GetFee :: "amount \<Rightarrow> nat \<Rightarrow> amount option" where
  "GetFee nSatoshisPerK nBytes =
    (if \<not> nBytes < 2 ^ 63 then None
     else map_option (\<lambda>n.
       let nFee = tdiv n 1000 in
       if nFee = 0 \<and> nBytes \<noteq> 0 then
         (if nSatoshisPerK < 0 then - 1 else if nSatoshisPerK > 0 then 1 else nFee)
       else nFee) (int64_product nSatoshisPerK (int nBytes)))"

subsection \<open>Data\<close>

record out_point =
  op_hash :: bytes
  op_n :: u32

record tx_in =
  prevout :: out_point
  scriptSig :: script
  nSequence :: u32

record tx_out =
  nValue :: amount
  scriptPubKey :: script
  nRounds :: int

record transaction =
  nVersion :: u16
  nType :: u16
  vin :: "tx_in list"
  vout :: "tx_out list"
  nLockTime :: u32
  vExtraPayload :: bytes

definition OutPoint_SetNull :: out_point where
  "OutPoint_SetNull = \<lparr>op_hash = replicate 32 0, op_n = - 1\<rparr>"

definition OutPoint_IsNull :: "out_point \<Rightarrow> bool" where
  "OutPoint_IsNull p \<longleftrightarrow> op_hash p = replicate 32 0 \<and> op_n p = - 1"

definition SEQUENCE_FINAL :: u32 where
  "SEQUENCE_FINAL = 0xffffffff"

definition SEQUENCE_LOCKTIME_DISABLE_FLAG :: u32 where
  "SEQUENCE_LOCKTIME_DISABLE_FLAG = push_bit 31 1"

definition SEQUENCE_LOCKTIME_TYPE_FLAG :: u32 where
  "SEQUENCE_LOCKTIME_TYPE_FLAG = push_bit 22 1"

definition SEQUENCE_LOCKTIME_MASK :: u32 where
  "SEQUENCE_LOCKTIME_MASK = 0x0000ffff"

definition TxOut_SetNull :: tx_out where
  "TxOut_SetNull = \<lparr>nValue = - 1, scriptPubKey = [], nRounds = - 10\<rparr>"

definition TxOut_IsNull :: "tx_out \<Rightarrow> bool" where
  "TxOut_IsNull out \<longleftrightarrow> nValue out = - 1"

definition TRANSACTION_NORMAL :: u16 where
  "TRANSACTION_NORMAL = 0"

definition TRANSACTION_COINBASE :: u16 where
  "TRANSACTION_COINBASE = 5"

definition TRANSACTION_QUORUM_COMMITMENT :: u16 where
  "TRANSACTION_QUORUM_COMMITMENT = 6"

definition IsCoinBase :: "transaction \<Rightarrow> bool" where
  "IsCoinBase tx \<longleftrightarrow> length (vin tx) = 1 \<and> OutPoint_IsNull (prevout (vin tx ! 0))"

subsection \<open>Serialization\<close>

definition Serialize_outpoint :: "out_point \<Rightarrow> bytes" where
  "Serialize_outpoint p = op_hash p @ ser_writedata32 (op_n p)"

definition Unserialize_outpoint :: "out_point reader" where
  "Unserialize_outpoint = rbind (read_bytes 32) (\<lambda>h. rbind ser_readdata32 (\<lambda>n. rret \<lparr>op_hash = h, op_n = n\<rparr>))"

definition Serialize_txin :: "tx_in \<Rightarrow> bytes" where
  "Serialize_txin i = Serialize_outpoint (prevout i) @ Serialize_bytes (scriptSig i) @ ser_writedata32 (nSequence i)"

definition Unserialize_txin :: "tx_in reader" where
  "Unserialize_txin =
    rbind Unserialize_outpoint (\<lambda>p. rbind Unserialize_bytes (\<lambda>s. rbind ser_readdata32 (\<lambda>n.
      rret \<lparr>prevout = p, scriptSig = s, nSequence = n\<rparr>)))"

definition Serialize_txout :: "tx_out \<Rightarrow> bytes" where
  "Serialize_txout out = ser_writedata64 (word_of_int (nValue out)) @ Serialize_bytes (scriptPubKey out)"

definition Unserialize_txout :: "tx_out reader" where
  "Unserialize_txout =
    rbind ser_readdata64 (\<lambda>v. rbind Unserialize_bytes (\<lambda>s.
      rret \<lparr>nValue = sint v, scriptPubKey = s, nRounds = - 10\<rparr>))"

definition n32bitVersion :: "transaction \<Rightarrow> u32" where
  "n32bitVersion tx = scast (nVersion tx) OR push_bit 16 (scast (nType tx))"

definition has_payload :: "u16 \<Rightarrow> u16 \<Rightarrow> bool" where
  "has_payload ver typ \<longleftrightarrow> ver = 3 \<and> typ \<noteq> TRANSACTION_NORMAL"

definition Serialize_tx :: "transaction \<Rightarrow> bytes" where
  "Serialize_tx tx =
    ser_writedata32 (n32bitVersion tx) @ Serialize_vector Serialize_txin (vin tx) @
    Serialize_vector Serialize_txout (vout tx) @ ser_writedata32 (nLockTime tx) @
    (if has_payload (nVersion tx) (nType tx) then Serialize_bytes (vExtraPayload tx) else [])"

text \<open>Reading a transaction; \<open>None\<close> is a vector reader that does not end, which needs an element of more
  than 5000000 bytes of memory.  The sizes of the element types are parameters.\<close>

definition obind :: "(ser_error + ('a \<times> bytes)) option \<Rightarrow> ('a \<Rightarrow> bytes \<Rightarrow> (ser_error + ('b \<times> bytes)) option) \<Rightarrow>
    (ser_error + ('b \<times> bytes)) option" where
  "obind m f = (case m of None \<Rightarrow> None | Some (Inl e) \<Rightarrow> Some (Inl e) | Some (Inr (x, s)) \<Rightarrow> f x s)"

definition Unserialize_tx :: "nat \<Rightarrow> nat \<Rightarrow> bytes \<Rightarrow> (ser_error + (transaction \<times> bytes)) option" where
  "Unserialize_tx sizeof_in sizeof_out s =
    obind (Some (ser_readdata32 s)) (\<lambda>v s.
    let ver = ucast (v AND 0xffff); typ = ucast (drop_bit 16 v AND 0xffff) in
    obind (Unserialize_vector sizeof_in Unserialize_txin s) (\<lambda>ins s.
    obind (Unserialize_vector sizeof_out Unserialize_txout s) (\<lambda>outs s.
    obind (Some (ser_readdata32 s)) (\<lambda>lock s.
    obind (Some (if has_payload ver typ then Unserialize_bytes s else Inr ([], s))) (\<lambda>payload s.
      Some (Inr (\<lparr>nVersion = ver, nType = typ, vin = ins, vout = outs, nLockTime = lock,
        vExtraPayload = payload\<rparr>, s)))))))"

definition GetTotalSize :: "transaction \<Rightarrow> nat" where
  "GetTotalSize tx = length (Serialize_tx tx)"

subsection \<open>Checks\<close>

text \<open>What a check returns: true, \<open>state.DoS\<close> or \<open>state.Invalid\<close> with its score and reason, a failed
  assertion, or an exception.\<close>

datatype verdict = Valid | Reject nat string | Assertion_failed | Thrown exn

fun GetValueOut_from :: "amount \<Rightarrow> tx_out list \<Rightarrow> exn + amount" where
  "GetValueOut_from nValueOut [] = Inr nValueOut" |
  "GetValueOut_from nValueOut (out # outs) =
    (let n = nValueOut + nValue out in
     if \<not> MoneyRange (nValue out) \<or> \<not> MoneyRange n
     then Inl (Runtime_error ''GetValueOut: value out of range'')
     else GetValueOut_from n outs)"

definition GetValueOut :: "transaction \<Rightarrow> exn + amount" where
  "GetValueOut tx = GetValueOut_from 0 (vout tx)"

definition MAX_LEGACY_BLOCK_SIZE :: nat where
  "MAX_LEGACY_BLOCK_SIZE = 1000000"

definition MAX_TX_EXTRA_PAYLOAD :: nat where
  "MAX_TX_EXTRA_PAYLOAD = 10000"

definition MAX_STANDARD_TX_SIZE :: nat where
  "MAX_STANDARD_TX_SIZE = 100000"

definition COINBASE_MATURITY :: int where
  "COINBASE_MATURITY = 101"

fun check_outputs :: "amount \<Rightarrow> tx_out list \<Rightarrow> verdict" where
  "check_outputs nValueOut [] = Valid" |
  "check_outputs nValueOut (out # outs) =
    (if nValue out < 0 then Reject 100 ''bad-txns-vout-negative''
     else if nValue out > MAX_MONEY then Reject 100 ''bad-txns-vout-toolarge''
     else let n = nValueOut + nValue out in
       if \<not> MoneyRange n then Reject 100 ''bad-txns-txouttotal-toolarge''
       else check_outputs n outs)"

text \<open>Inserting into \<open>vInOutPoints\<close> fails for an outpoint that is already there.\<close>

fun check_duplicates :: "out_point list \<Rightarrow> tx_in list \<Rightarrow> verdict" where
  "check_duplicates seen [] = Valid" |
  "check_duplicates seen (i # ins) =
    (if prevout i \<in> set seen then Reject 100 ''bad-txns-inputs-duplicate''
     else check_duplicates (prevout i # seen) ins)"

definition check_prevouts :: "transaction \<Rightarrow> verdict" where
  "check_prevouts tx =
    (if IsCoinBase tx then
       let minCbSize = (if nType tx = TRANSACTION_COINBASE then 1 else 2);
           n = length (scriptSig (vin tx ! 0)) in
       if n < minCbSize \<or> n > 100 then Reject 100 ''bad-cb-length'' else Valid
     else if \<exists>i \<in> set (vin tx). OutPoint_IsNull (prevout i) then Reject 10 ''bad-txns-prevout-null''
     else Valid)"

text \<open>The first check that fails.\<close>

fun and_then :: "verdict \<Rightarrow> verdict \<Rightarrow> verdict" where
  "and_then Valid v = v" |
  "and_then u v = u"

definition CheckTransaction :: "transaction \<Rightarrow> verdict" where
  "CheckTransaction tx =
    (let allowEmptyTxInOut = (nType tx = TRANSACTION_QUORUM_COMMITMENT) in
     if \<not> allowEmptyTxInOut \<and> vin tx = [] then Reject 10 ''bad-txns-vin-empty''
     else if \<not> allowEmptyTxInOut \<and> vout tx = [] then Reject 10 ''bad-txns-vout-empty''
     else if GetTotalSize tx > MAX_LEGACY_BLOCK_SIZE then Reject 100 ''bad-txns-oversize''
     else if length (vExtraPayload tx) > MAX_TX_EXTRA_PAYLOAD then Reject 100 ''bad-txns-payload-oversize''
     else and_then (check_outputs 0 (vout tx))
       (and_then (check_duplicates [] (vin tx)) (check_prevouts tx)))"

text \<open>The heights of two deployments are the only consensus parameters used.\<close>

definition ContextualCheckTransaction :: "int \<Rightarrow> int \<Rightarrow> int \<Rightarrow> transaction \<Rightarrow> verdict" where
  "ContextualCheckTransaction DIP0001Height DIP0003Height nHeight tx =
    (let fDIP0001Active = nHeight \<ge> DIP0001Height; fDIP0003Active = nHeight \<ge> DIP0003Height in
     if fDIP0003Active \<and> sint (nVersion tx) \<ge> 3 \<and> nType tx \<notin> {0, 1, 2, 3, 4, 5, 6}
     then Reject 100 ''bad-txns-type''
     else if fDIP0003Active \<and> sint (nVersion tx) \<ge> 3 \<and> IsCoinBase tx \<and> nType tx \<noteq> TRANSACTION_COINBASE
     then Reject 100 ''bad-txns-cb-type''
     else if fDIP0003Active \<and> \<not> sint (nVersion tx) \<ge> 3 \<and> nType tx \<noteq> TRANSACTION_NORMAL
     then Reject 100 ''bad-txns-type''
     else if fDIP0001Active \<and> GetTotalSize tx > MAX_STANDARD_TX_SIZE then Reject 100 ''bad-txns-oversize''
     else Valid)"

definition IsFinalTx :: "transaction \<Rightarrow> int \<Rightarrow> int \<Rightarrow> bool" where
  "IsFinalTx tx nBlockHeight nBlockTime =
    (if nLockTime tx = 0 then True
     else if uint (nLockTime tx) <
       (if uint (nLockTime tx) < int LOCKTIME_THRESHOLD then nBlockHeight else nBlockTime) then True
     else \<forall>i \<in> set (vin tx). nSequence i = SEQUENCE_FINAL)"

record coin =
  coin_out :: tx_out
  fCoinBase :: bool
  coin_nHeight :: int

text \<open>\<open>CheckTxInputs\<close> over the unspent coins a view holds.\<close>

definition HaveInputs :: "(out_point \<rightharpoonup> coin) \<Rightarrow> transaction \<Rightarrow> bool" where
  "HaveInputs view tx \<longleftrightarrow> IsCoinBase tx \<or> (\<forall>i \<in> set (vin tx). prevout i \<in> dom view)"

fun sum_inputs :: "(out_point \<rightharpoonup> coin) \<Rightarrow> int \<Rightarrow> amount \<Rightarrow> tx_in list \<Rightarrow> verdict \<times> amount" where
  "sum_inputs view nSpendHeight nValueIn [] = (Valid, nValueIn)" |
  "sum_inputs view nSpendHeight nValueIn (i # ins) =
    (case view (prevout i) of None \<Rightarrow> (Assertion_failed, nValueIn)
     | Some c \<Rightarrow>
       if fCoinBase c \<and> nSpendHeight - coin_nHeight c < COINBASE_MATURITY
       then (Reject 0 ''bad-txns-premature-spend-of-coinbase'', nValueIn)
       else let v = nValueIn + nValue (coin_out c) in
         if \<not> MoneyRange (nValue (coin_out c)) \<or> \<not> MoneyRange v
         then (Reject 100 ''bad-txns-inputvalues-outofrange'', v)
         else sum_inputs view nSpendHeight v ins)"

definition CheckTxInputs :: "(out_point \<rightharpoonup> coin) \<Rightarrow> int \<Rightarrow> transaction \<Rightarrow> verdict" where
  "CheckTxInputs view nSpendHeight tx =
    (if \<not> HaveInputs view tx then Reject 0 ''''
     else case sum_inputs view nSpendHeight 0 (vin tx) of (v, nValueIn) \<Rightarrow>
       and_then v
       (case GetValueOut tx of Inl e \<Rightarrow> Thrown e
        | Inr nValueOut \<Rightarrow>
          if nValueIn < nValueOut then Reject 100 ''bad-txns-in-belowout''
          else let nTxFee = nValueIn - nValueOut in
            if nTxFee < 0 then Reject 100 ''bad-txns-fee-negative''
            else if \<not> MoneyRange nTxFee then Reject 100 ''bad-txns-fee-outofrange''
            else Valid))"

subsection \<open>Block subsidy\<close>

text \<open>\<open>superblock_part\<close> is the floating-point product of the subsidy with 0.15, cut to an integer.\<close>

definition GetBlockSubsidy :: "(amount \<Rightarrow> amount) \<Rightarrow> nat \<Rightarrow> nat \<Rightarrow> bool \<Rightarrow> amount" where
  "GetBlockSubsidy superblock_part nSubsidyHalvingInterval nPrevHeight fSuperblockPartOnly =
    (if nPrevHeight = 0 then 3000000000 * COIN
     else let halvings = nPrevHeight div nSubsidyHalvingInterval in
       if halvings \<ge> 64 then 0
       else let nSubsidy = drop_bit halvings (1250 * COIN) in
         if fSuperblockPartOnly then superblock_part nSubsidy else nSubsidy)"

subsection \<open>Round trip\<close>

lemma obind_simps [simp]:
  "obind (Some (Inr (x, s))) f = f x s" "obind (Some (Inl e)) f = Some (Inl e)" "obind None f = None"
  by (simp_all add: obind_def)

definition txin_wf :: "tx_in \<Rightarrow> bool" where
  "txin_wf i \<longleftrightarrow> length (op_hash (prevout i)) = 32 \<and> length (scriptSig i) \<le> MAX_SIZE"

definition txout_wf :: "tx_out \<Rightarrow> bool" where
  "txout_wf out \<longleftrightarrow> - (2 ^ 63) \<le> nValue out \<and> nValue out < 2 ^ 63 \<and> length (scriptPubKey out) \<le> MAX_SIZE \<and> nRounds out = - 10"

interpretation outpoint: codec Serialize_outpoint Unserialize_outpoint "\<lambda>p. length (op_hash p) = 32"
  by unfold_locales
    (simp add: Serialize_outpoint_def Unserialize_outpoint_def read_bytes_append ser_readdata_write rret_def)

interpretation txin: codec Serialize_txin Unserialize_txin txin_wf
  by unfold_locales
    (simp add: Serialize_txin_def Unserialize_txin_def txin_wf_def outpoint.round byte_vector.round
      ser_readdata_write rret_def)

lemma sint_word_of_int_64: "- (2 ^ 63) \<le> i \<Longrightarrow> i < 2 ^ 63 \<Longrightarrow> sint (word_of_int i :: u64) = i"
  by (simp add: int_word_sint)

interpretation txout: codec Serialize_txout Unserialize_txout txout_wf
  by unfold_locales
    (simp add: Serialize_txout_def Unserialize_txout_def txout_wf_def byte_vector.round
      ser_readdata_write rret_def sint_word_of_int_64)

lemma version_fields:
  assumes "\<not> bit (nVersion tx) 15"
  shows "ucast (n32bitVersion tx AND 0xffff) = nVersion tx"
    and "ucast (drop_bit 16 (n32bitVersion tx) AND 0xffff) = nType tx"
proof -
  have m: "(0xffff :: u32) = mask 16" by (simp add: mask_eq_exp_minus_1)
  show "ucast (n32bitVersion tx AND 0xffff) = nVersion tx"
  proof (rule bit_word_eqI)
    fix n assume "n < LENGTH(16)"
    then have "n < 15 \<or> n = 15" by auto
    then show "bit (ucast (n32bitVersion tx AND 0xffff) :: u16) n = bit (nVersion tx) n"
      by (auto simp: n32bitVersion_def m bit_simps)
  qed
  show "ucast (drop_bit 16 (n32bitVersion tx) AND 0xffff) = nType tx"
  proof (rule bit_word_eqI)
    fix n assume "n < LENGTH(16)"
    then have "n < 15 \<or> n = 15" by auto
    then show "bit (ucast (drop_bit 16 (n32bitVersion tx) AND 0xffff) :: u16) n = bit (nType tx) n"
      using assms by (auto simp: n32bitVersion_def m bit_simps)
  qed
qed

definition tx_wf :: "transaction \<Rightarrow> bool" where
  "tx_wf tx \<longleftrightarrow> (\<forall>i \<in> set (vin tx). txin_wf i) \<and> (\<forall>out \<in> set (vout tx). txout_wf out) \<and>
     length (vin tx) \<le> MAX_SIZE \<and> length (vout tx) \<le> MAX_SIZE \<and> length (vExtraPayload tx) \<le> MAX_SIZE \<and>
     (\<not> has_payload (nVersion tx) (nType tx) \<longrightarrow> vExtraPayload tx = [])"

text \<open>C18. A transaction with a non-negative version is read back from its serialization.\<close>

theorem tx_roundtrip:
  assumes "tx_wf tx" and "0 \<le> sint (nVersion tx)"
    and "0 < sizeof_in" and "sizeof_in \<le> 5000000" and "0 < sizeof_out" and "sizeof_out \<le> 5000000"
  shows "Unserialize_tx sizeof_in sizeof_out (Serialize_tx tx @ rest) = Some (Inr (tx, rest))"
proof -
  have "\<not> bit (nVersion tx) 15"
    using assms(2) by (simp add: not_less bit_last_iff [of "nVersion tx", simplified])
  note ver = version_fields [OF this]
  show ?thesis
    using assms unfolding tx_wf_def
    by (auto simp: Unserialize_tx_def Serialize_tx_def ser_readdata_write ver Let_def
        txin.vector_round txout.vector_round byte_vector.round)
qed

theorem tx_roundtrip_witness:
  "Unserialize_tx 100 100 (Serialize_tx \<lparr>nVersion = 3, nType = 5, vin = [], vout = [], nLockTime = 7,
      vExtraPayload = [1, 2]\<rparr> @ [9]) =
    Some (Inr (\<lparr>nVersion = 3, nType = 5, vin = [], vout = [], nLockTime = 7, vExtraPayload = [1, 2]\<rparr>, [9]))"
  by (rule tx_roundtrip) (simp_all add: tx_wf_def MAX_SIZE_def has_payload_def TRANSACTION_NORMAL_def)

text \<open>C33. With a negative version the type is lost: the sign extension of the version overwrites the half
  word of the type, so transactions that differ in their type have the same serialization, and
  therefore the same hash.\<close>

theorem tx_negative_version_loses_type:
  assumes "sint (nVersion tx) < 0"
  shows "Serialize_tx (tx\<lparr>nType := t\<rparr>) = Serialize_tx tx"
proof -
  have "bit (nVersion tx) 15" using assms by (simp add: bit_last_iff [of "nVersion tx", simplified])
  then have v: "bit (nVersion tx) (min n 15)" if "16 \<le> n" for n using that by (simp add: min_def)
  have "n32bitVersion (tx\<lparr>nType := t\<rparr>) = n32bitVersion tx"
    by (rule bit_word_eqI) (use v in \<open>auto simp: n32bitVersion_def bit_simps\<close>)
  moreover have "nVersion tx \<noteq> 3" using assms by auto
  ultimately show ?thesis by (simp add: Serialize_tx_def has_payload_def)
qed

theorem tx_negative_version_loses_type_witness:
  "Serialize_tx \<lparr>nVersion = - 1, nType = 6, vin = [], vout = [], nLockTime = 0, vExtraPayload = []\<rparr> =
   Serialize_tx \<lparr>nVersion = - 1, nType = 0, vin = [], vout = [], nLockTime = 0, vExtraPayload = []\<rparr>"
  using tx_negative_version_loses_type
    [of "\<lparr>nVersion = - 1, nType = 0, vin = [], vout = [], nLockTime = 0, vExtraPayload = []\<rparr>" 6] by simp

subsection \<open>Values\<close>

lemma and_then_Valid [simp]: "and_then u v = Valid \<longleftrightarrow> u = Valid \<and> v = Valid"
  by (cases u) auto

lemma check_outputs_Valid:
  "check_outputs n outs = Valid \<Longrightarrow> \<forall>out \<in> set outs. MoneyRange (nValue out)"
  by (induction n outs rule: check_outputs.induct) (auto simp: MoneyRange_def Let_def split: if_splits)

lemma check_duplicates_Valid:
  "check_duplicates seen ins = Valid \<longleftrightarrow> distinct (map prevout ins) \<and> set (map prevout ins) \<inter> set seen = {}"
  by (induction seen ins rule: check_duplicates.induct) auto

lemma GetValueOut_from_sum:
  "GetValueOut_from n outs = Inr m \<Longrightarrow> 0 \<le> n \<Longrightarrow> m = n + sum_list (map nValue outs) \<and> n \<le> m"
  by (induction n outs rule: GetValueOut_from.induct) (auto simp: MoneyRange_def Let_def split: if_splits)

lemma sum_inputs_Valid:
  assumes "sum_inputs view h n ins = (Valid, m)" and "MoneyRange n"
  shows "MoneyRange m \<and> m = n + sum_list (map (\<lambda>i. nValue (coin_out (the (view (prevout i))))) ins) \<and>
    (\<forall>i \<in> set ins. \<exists>c. view (prevout i) = Some c \<and> (fCoinBase c \<longrightarrow> COINBASE_MATURITY \<le> h - coin_nHeight c))"
  using assms
proof (induction ins arbitrary: n)
  case Nil
  then show ?case by simp
next
  case (Cons i ins)
  then obtain c where c: "view (prevout i) = Some c" "fCoinBase c \<longrightarrow> COINBASE_MATURITY \<le> h - coin_nHeight c"
    and rest: "sum_inputs view h (n + nValue (coin_out c)) ins = (Valid, m)" "MoneyRange (n + nValue (coin_out c))"
    by (auto simp: Let_def not_less split: option.splits if_splits)
  show ?case using Cons.IH [OF rest] c by (auto simp: add.assoc)
qed

text \<open>C9. No money from nothing: a transaction that passes \<open>CheckTransaction\<close> and \<open>CheckTxInputs\<close> spends
  each of its inputs once, the coins exist and are mature, and its outputs are worth no more than the
  coins, all within the range of money.\<close>

theorem tx_no_inflation:
  assumes "CheckTransaction tx = Valid" and "CheckTxInputs view h tx = Valid"
  shows "distinct (map prevout (vin tx)) \<and>
    (\<forall>i \<in> set (vin tx). \<exists>c. view (prevout i) = Some c \<and>
       (fCoinBase c \<longrightarrow> COINBASE_MATURITY \<le> h - coin_nHeight c)) \<and>
    (\<forall>out \<in> set (vout tx). MoneyRange (nValue out)) \<and>
    0 \<le> sum_list (map nValue (vout tx)) \<and>
    sum_list (map nValue (vout tx)) \<le> sum_list (map (\<lambda>i. nValue (coin_out (the (view (prevout i))))) (vin tx)) \<and>
    sum_list (map (\<lambda>i. nValue (coin_out (the (view (prevout i))))) (vin tx)) \<le> MAX_MONEY"
proof -
  have out: "check_outputs 0 (vout tx) = Valid" and dup: "check_duplicates [] (vin tx) = Valid"
    using assms(1) by (auto simp: CheckTransaction_def Let_def split: if_splits)
  obtain vin_sum vout_sum where i: "sum_inputs view h 0 (vin tx) = (Valid, vin_sum)"
    and o: "GetValueOut_from 0 (vout tx) = Inr vout_sum" and le: "vout_sum \<le> vin_sum"
    using assms(2) by (auto simp: CheckTxInputs_def GetValueOut_def Let_def split: if_splits prod.splits sum.splits)
  have "MoneyRange 0" by (simp add: MoneyRange_def MAX_MONEY_def COIN_def)
  then show ?thesis
    using sum_inputs_Valid [OF i] GetValueOut_from_sum [OF o] check_outputs_Valid [OF out] dup le
    by (auto simp: check_duplicates_Valid MoneyRange_def)
qed

definition sample_coin :: coin where
  "sample_coin = \<lparr>coin_out = \<lparr>nValue = 50, scriptPubKey = [], nRounds = - 10\<rparr>, fCoinBase = True, coin_nHeight = 1\<rparr>"

definition sample_tx :: transaction where
  "sample_tx = \<lparr>nVersion = 1, nType = 0,
     vin = [\<lparr>prevout = \<lparr>op_hash = replicate 32 1, op_n = 0\<rparr>, scriptSig = [], nSequence = 0\<rparr>],
     vout = [\<lparr>nValue = 40, scriptPubKey = [], nRounds = - 10\<rparr>], nLockTime = 0, vExtraPayload = []\<rparr>"

theorem tx_no_inflation_witness:
  "CheckTransaction sample_tx = Valid \<and>
   CheckTxInputs [\<lparr>op_hash = replicate 32 1, op_n = 0\<rparr> \<mapsto> sample_coin] 200 sample_tx = Valid \<and>
   40 \<le> sum_list (map (\<lambda>i. nValue (coin_out (the ([\<lparr>op_hash = replicate 32 1, op_n = 0\<rparr> \<mapsto> sample_coin] (prevout i)))))
     (vin sample_tx))"
proof -
  have size: "GetTotalSize sample_tx = 60"
    by (simp add: GetTotalSize_def sample_tx_def Serialize_tx_def Serialize_vector_def Serialize_txin_def
        Serialize_txout_def Serialize_outpoint_def Serialize_bytes_def WriteCompactSize_def has_payload_def
        ser_writedata8_def ser_writedata32_def ser_writedata64_def)
  have "replicate 32 1 \<noteq> replicate 32 (0 :: byte)" by (simp add: numeral_eq_Suc)
  then have null: "\<not> OutPoint_IsNull \<lparr>op_hash = replicate 32 1, op_n = 0\<rparr>" by (simp add: OutPoint_IsNull_def)
  have tx: "CheckTransaction sample_tx = Valid"
    using size null
    by (simp add: CheckTransaction_def MAX_LEGACY_BLOCK_SIZE_def MAX_TX_EXTRA_PAYLOAD_def check_prevouts_def
        IsCoinBase_def sample_tx_def MoneyRange_def MAX_MONEY_def COIN_def)
  have ins: "CheckTxInputs [\<lparr>op_hash = replicate 32 1, op_n = 0\<rparr> \<mapsto> sample_coin] 200 sample_tx = Valid"
    by (simp add: CheckTxInputs_def HaveInputs_def GetValueOut_def sample_tx_def sample_coin_def
        COINBASE_MATURITY_def MoneyRange_def MAX_MONEY_def COIN_def)
  have "40 \<le> sum_list (map (\<lambda>i. nValue (coin_out (the ([\<lparr>op_hash = replicate 32 1, op_n = 0\<rparr> \<mapsto> sample_coin] (prevout i)))))
     (vin sample_tx))"
    using tx_no_inflation [OF tx ins] by (simp add: sample_tx_def)
  with tx ins show ?thesis by blast
qed

subsection \<open>Money supply\<close>

lemma halvings_sum:
  assumes "0 \<le> (a :: int)"
  shows "(\<Sum>k < n. a div 2 ^ k) \<le> 2 * a"
  using assms
proof (induction n arbitrary: a)
  case 0
  then show ?case by simp
next
  case (Suc n)
  have "(\<Sum>k < Suc n. a div 2 ^ k) = a + (\<Sum>k < n. a div 2 div 2 ^ k)"
    by (simp only: sum.lessThan_Suc_shift) (simp add: zdiv_zmult2_eq)
  also have "\<dots> \<le> a + 2 * (a div 2)" using Suc by simp
  also have "\<dots> \<le> 2 * a" using Suc.prems by simp
  finally show ?case .
qed

lemma halvings_interval_sum:
  assumes "0 \<le> (a :: int)" and "0 < m"
  shows "(\<Sum>h < n. a div 2 ^ (h div m)) \<le> 2 * int m * a"
proof -
  have "(\<Sum>h < n. a div 2 ^ (h div m)) \<le> (\<Sum>h < n * m. a div 2 ^ (h div m))"
    using assms by (intro sum_mono2) (auto intro: pos_imp_zdiv_nonneg_iff [THEN iffD2])
  also have "\<dots> = (\<Sum>k < n. \<Sum>h = k * m ..< k * m + m. a div 2 ^ (h div m))"
    by (rule sum.nat_group [symmetric])
  also have "\<dots> = (\<Sum>k < n. int m * (a div 2 ^ k))"
  proof (intro sum.cong refl)
    fix k
    have "(\<Sum>h = k * m ..< k * m + m. a div 2 ^ (h div m)) = (\<Sum>h = k * m ..< k * m + m. a div 2 ^ k)"
      by (intro sum.cong refl arg_cong [where f = "\<lambda>j. a div 2 ^ j"] div_nat_eqI) (auto simp: mult.commute)
    then show "(\<Sum>h = k * m ..< k * m + m. a div 2 ^ (h div m)) = int m * (a div 2 ^ k)" by simp
  qed
  also have "\<dots> \<le> int m * (2 * a)"
    unfolding sum_distrib_left [symmetric] using halvings_sum [OF assms(1)] by (intro mult_left_mono) simp_all
  finally show ?thesis by (simp add: ac_simps)
qed

text \<open>C34. The money supply is bounded: with a halving interval of at most 1600000 blocks, as on the main
  network (525600), the subsidies of any number of blocks sum to at most \<open>MAX_MONEY\<close>.\<close>

theorem money_supply_bound:
  assumes "0 < m" and "m \<le> 1600000"
  shows "(\<Sum>h < n. GetBlockSubsidy p m h False) \<le> MAX_MONEY"
proof -
  have "GetBlockSubsidy p m h False \<le> (if h = 0 then 3000000000 * COIN else 0) + 1250 * COIN div 2 ^ (h div m)" for h
    by (simp add: GetBlockSubsidy_def drop_bit_eq_div COIN_def Let_def pos_imp_zdiv_nonneg_iff)
  then have "(\<Sum>h < n. GetBlockSubsidy p m h False) \<le>
      (\<Sum>h < n. (if h = 0 then 3000000000 * COIN else 0) + 1250 * COIN div 2 ^ (h div m))"
    by (intro sum_mono)
  also have "\<dots> = (\<Sum>h < n. if h = 0 then 3000000000 * COIN else 0) + (\<Sum>h < n. 1250 * COIN div 2 ^ (h div m))"
    by (rule sum.distrib)
  also have "\<dots> \<le> 3000000000 * COIN + 2 * int m * (1250 * COIN)"
    using halvings_interval_sum [of "1250 * COIN" m n] assms(1) by (intro add_mono) (simp_all add: COIN_def)
  also have "\<dots> \<le> MAX_MONEY" using assms(2) by (simp add: MAX_MONEY_def COIN_def)
  finally show ?thesis .
qed

theorem money_supply_bound_witness: "(\<Sum>h < 3. GetBlockSubsidy id 525600 h False) \<le> MAX_MONEY"
  using money_supply_bound [of 525600 id 3] by simp

end
