(* ===== verification/SigHash.thy ===== *)
theory SigHash
  imports Interpreter_Safety Transaction
begin

text \<open>
  Signature hashes and the transaction signature checker of \<open>src/src/script/interpreter.cpp\<close>.  The
  serialization that skips code separators agrees with deleting them from the script, the hash does
  not depend on the input scripts, and the lock-time opcode enforces what \<open>IsFinalTx\<close> checks.
  Signature verification itself (libsecp256k1) is a parameter.
\<close>

unbundle bit_operations_syntax

subsection \<open>Serializing the signed transaction\<close>

function count_separators :: "nat \<Rightarrow> script \<Rightarrow> nat" where
  "count_separators n it =
    (case GetOp2 it of (ok, opcode, d, it') \<Rightarrow>
       if ok then count_separators (if opcode = OP_CODESEPARATOR then Suc n else n) it' else n)"
  by pat_completeness auto
termination
  by (relation "measure (\<lambda>(_, it). length it)") (auto intro: GetOp2_decreases [OF sym])

function write_code :: "script \<Rightarrow> script \<Rightarrow> bytes" where
  "write_code itBegin it =
    (case GetOp2 it of (ok, opcode, d, it') \<Rightarrow>
       if ok then
         (if opcode = OP_CODESEPARATOR
          then take (length itBegin - length it' - 1) itBegin @ write_code it' it'
          else write_code itBegin it')
       else if itBegin \<noteq> [] then take (length itBegin - length it') itBegin else [])"
  by pat_completeness auto
termination
  by (relation "measure (\<lambda>(_, it). length it)") (auto intro: GetOp2_decreases [OF sym])

declare count_separators.simps [simp del] write_code.simps [simp del]

definition SerializeScriptCode :: "script \<Rightarrow> bytes" where
  "SerializeScriptCode scriptCode =
    WriteCompactSize (of_nat (length scriptCode - count_separators 0 scriptCode)) @ write_code scriptCode scriptCode"

record sig_serializer =
  txTo :: transaction
  scriptCode :: script
  nIn :: nat
  fAnyoneCanPay :: bool
  fHashSingle :: bool
  fHashNone :: bool

definition CTransactionSignatureSerializer :: "transaction \<Rightarrow> script \<Rightarrow> nat \<Rightarrow> u32 \<Rightarrow> sig_serializer" where
  "CTransactionSignatureSerializer tx sc n nHashType =
    \<lparr>txTo = tx, scriptCode = sc, nIn = n, fAnyoneCanPay = (nHashType AND 0x80 \<noteq> 0),
     fHashSingle = (nHashType AND 0x1f = 3), fHashNone = (nHashType AND 0x1f = 2)\<rparr>"

definition SerializeInput :: "sig_serializer \<Rightarrow> nat \<Rightarrow> bytes" where
  "SerializeInput ss i =
    (let nInput = (if fAnyoneCanPay ss then nIn ss else i); inp = vin (txTo ss) ! nInput in
     Serialize_outpoint (prevout inp) @
     (if nInput \<noteq> nIn ss then Serialize_bytes [] else SerializeScriptCode (scriptCode ss)) @
     (if nInput \<noteq> nIn ss \<and> (fHashSingle ss \<or> fHashNone ss) then ser_writedata32 0
      else ser_writedata32 (nSequence inp)))"

definition SerializeOutput :: "sig_serializer \<Rightarrow> nat \<Rightarrow> bytes" where
  "SerializeOutput ss nOutput =
    (if fHashSingle ss \<and> nOutput \<noteq> nIn ss then Serialize_txout TxOut_SetNull
     else Serialize_txout (vout (txTo ss) ! nOutput))"

definition Serialize_sig :: "sig_serializer \<Rightarrow> bytes" where
  "Serialize_sig ss =
    (let tx = txTo ss;
         nInputs = (if fAnyoneCanPay ss then 1 else length (vin tx));
         nOutputs = (if fHashNone ss then 0 else if fHashSingle ss then nIn ss + 1 else length (vout tx)) in
     ser_writedata32 (n32bitVersion tx) @
     WriteCompactSize (of_nat nInputs) @ concat (map (SerializeInput ss) [0..<nInputs]) @
     WriteCompactSize (of_nat nOutputs) @ concat (map (SerializeOutput ss) [0..<nOutputs]) @
     ser_writedata32 (nLockTime tx) @
     (if has_payload (nVersion tx) (nType tx) then Serialize_bytes (vExtraPayload tx) else []))"

definition uint256_one :: bytes where
  "uint256_one = 1 # replicate 31 0"

definition SignatureHash :: "crypto \<Rightarrow> script \<Rightarrow> transaction \<Rightarrow> nat \<Rightarrow> u32 \<Rightarrow> bytes" where
  "SignatureHash cr sc tx n nHashType =
    (if n \<ge> length (vin tx) then uint256_one
     else if nHashType AND 0x1f = 3 \<and> n \<ge> length (vout tx) then uint256_one
     else Hash256 cr (Serialize_sig (CTransactionSignatureSerializer tx sc n nHashType) @ ser_writedata32 nHashType))"

subsection \<open>The signature checker\<close>

definition PubKey_GetLen :: "byte \<Rightarrow> nat" where
  "PubKey_GetLen chHeader =
    (if chHeader = 2 \<or> chHeader = 3 then 33
     else if chHeader = 4 \<or> chHeader = 6 \<or> chHeader = 7 then 65 else 0)"

definition PubKey_IsValid :: "bytes \<Rightarrow> bool" where
  "PubKey_IsValid v =
    (let len = (if v = [] then 0 else PubKey_GetLen (v ! 0)) in len \<noteq> 0 \<and> len = length v)"

type_synonym verifier = "bytes \<Rightarrow> bytes \<Rightarrow> bytes \<Rightarrow> bool"

definition tx_CheckSig :: "verifier \<Rightarrow> crypto \<Rightarrow> transaction \<Rightarrow> nat \<Rightarrow> bytes \<Rightarrow> bytes \<Rightarrow> script \<Rightarrow> bool" where
  "tx_CheckSig Verify cr tx n vchSigIn vchPubKey sc =
    (if \<not> PubKey_IsValid vchPubKey then False
     else if vchSigIn = [] then False
     else let nHashType = ucast (last vchSigIn); vchSig = butlast vchSigIn;
              sighash = SignatureHash cr sc tx n nHashType in
       Verify vchPubKey sighash vchSig)"

definition tx_CheckLockTime :: "transaction \<Rightarrow> nat \<Rightarrow> int \<Rightarrow> bool" where
  "tx_CheckLockTime tx n lockTime =
    (let txLock = uint (nLockTime tx); T = int LOCKTIME_THRESHOLD in
     if \<not> ((txLock < T \<and> lockTime < T) \<or> (txLock \<ge> T \<and> lockTime \<ge> T)) then False
     else if lockTime > txLock then False
     else if SEQUENCE_FINAL = nSequence (vin tx ! n) then False
     else True)"

definition tx_CheckSequence :: "transaction \<Rightarrow> nat \<Rightarrow> int \<Rightarrow> bool" where
  "tx_CheckSequence tx n sequence =
    (let txToSequence = uint (nSequence (vin tx ! n)) in
     if (scast (nVersion tx) :: u32) < 2 then False
     else if txToSequence AND uint SEQUENCE_LOCKTIME_DISABLE_FLAG \<noteq> 0 then False
     else let nLockTimeMask = uint (SEQUENCE_LOCKTIME_TYPE_FLAG OR SEQUENCE_LOCKTIME_MASK);
              txMasked = txToSequence AND nLockTimeMask; nMasked = sequence AND nLockTimeMask;
              F = uint SEQUENCE_LOCKTIME_TYPE_FLAG in
       if \<not> ((txMasked < F \<and> nMasked < F) \<or> (txMasked \<ge> F \<and> nMasked \<ge> F)) then False
       else if nMasked > txMasked then False
       else True)"

definition TransactionSignatureChecker :: "verifier \<Rightarrow> crypto \<Rightarrow> transaction \<Rightarrow> nat \<Rightarrow> checker" where
  "TransactionSignatureChecker Verify cr tx n =
    \<lparr>CheckSig = tx_CheckSig Verify cr tx n, CheckLockTime = tx_CheckLockTime tx n,
     CheckSequence = tx_CheckSequence tx n\<rparr>"

subsection \<open>Code separators\<close>

text \<open>A script without its code separators; what follows the last instruction is kept.\<close>

function strip_separators :: "script \<Rightarrow> script" where
  "strip_separators pc =
    (case GetOp2 pc of (ok, opcode, d, pc') \<Rightarrow>
       if ok then (if opcode = OP_CODESEPARATOR then [] else take (length pc - length pc') pc) @ strip_separators pc'
       else pc)"
  by pat_completeness auto
termination
  by (relation "measure length") (auto intro: GetOp2_decreases [OF sym])

declare strip_separators.simps [simp del]

lemma strip_separators_Nil [simp]: "strip_separators [] = []"
  by (simp add: strip_separators.simps)

lemma strip_separator_Cons: "strip_separators (OP_CODESEPARATOR # pc) = strip_separators pc"
  by (subst strip_separators.simps) (simp add: GetOp2_opcode)

lemma take_suffix: "suffix b a \<Longrightarrow> suffix c b \<Longrightarrow>
    take (length a - length c) a = take (length a - length b) a @ take (length b - length c) b"
  by (auto simp: suffix_def)

lemma separator_size: "GetOp2 pc = (True, OP_CODESEPARATOR, d, pc') \<Longrightarrow> pc = OP_CODESEPARATOR # pc'"
  by (cases pc) (auto simp: GetOp2.simps(2) GetOp2_operand_def split: if_splits)

text \<open>What \<open>GetOp\<close> leaves unread where the decoding of a script stops.\<close>

function undecoded :: "script \<Rightarrow> script" where
  "undecoded pc = (case GetOp2 pc of (ok, opcode, d, pc') \<Rightarrow> if ok then undecoded pc' else pc')"
  by pat_completeness auto
termination
  by (relation "measure length") (auto intro: GetOp2_decreases [OF sym])

declare undecoded.simps [simp del]

lemma undecoded_decodes: "snd (instructions pc) = [] \<Longrightarrow> undecoded pc = []"
proof (induction pc rule: undecoded.induct)
  case (1 pc)
  then show ?case
    by (subst undecoded.simps) (auto simp: instructions.simps [of pc] split: prod.splits if_splits)
qed

lemma write_code_strip:
  assumes "suffix it itBegin"
  shows "write_code itBegin it @ undecoded it = take (length itBegin - length it) itBegin @ strip_separators it"
  using assms
proof (induction itBegin it rule: write_code.induct)
  case (1 itBegin it)
  obtain ok opcode d it' where g: "GetOp2 it = (ok, opcode, d, it')" by (cases "GetOp2 it") auto
  have suf: "suffix it' it" using GetOp2_suffix [OF g] .
  have suf': "suffix it' itBegin" using suf 1(3) suffix_order.trans by blast
  show ?case
  proof (cases ok)
    case False
    have "take (length itBegin - length it) itBegin @ it = itBegin" using 1(3) by (auto simp: suffix_def)
    moreover have "take (length itBegin - length it') itBegin @ it' = itBegin" using suf' by (auto simp: suffix_def)
    moreover have "itBegin = [] \<Longrightarrow> it' = []" using suf' by simp
    ultimately show ?thesis
      using g False by (simp add: write_code.simps [of itBegin] strip_separators.simps [of it] undecoded.simps [of it])
  next
    case True
    show ?thesis
    proof (cases "opcode = OP_CODESEPARATOR")
      case sep: True
      then have "it = OP_CODESEPARATOR # it'" using separator_size g True by simp
      then show ?thesis
        using 1(1) [OF g [symmetric] refl refl True sep] g sep True
        by (simp add: write_code.simps [of itBegin] strip_separator_Cons undecoded.simps [of "OP_CODESEPARATOR # it'"])
    next
      case False
      then show ?thesis
        using 1(2) [OF g [symmetric] refl refl True False suf'] g True take_suffix [OF 1(3) suf]
        by (simp add: write_code.simps [of itBegin it] strip_separators.simps [of it] undecoded.simps [of it])
    qed
  qed
qed

lemma count_separators_add: "count_separators n it = n + count_separators 0 it"
proof (induction "length it" arbitrary: n it rule: less_induct)
  case less
  obtain ok opcode d it' where g: "GetOp2 it = (ok, opcode, d, it')" by (cases "GetOp2 it") auto
  show ?case
  proof (cases ok)
    case True
    then have "length it' < length it" using g GetOp2_decreases by simp
    then show ?thesis
      using less [of it' "Suc n"] less [of it' n] less [of it' "Suc 0"] True g
      by (simp add: count_separators.simps [of n it] count_separators.simps [of 0 it])
  qed (simp add: count_separators.simps g)
qed

lemma count_separator_Cons: "count_separators 0 (OP_CODESEPARATOR # pc) = Suc (count_separators 0 pc)"
  using count_separators_add [of 1 pc] by (subst count_separators.simps) (simp add: GetOp2_opcode)

lemma length_strip: "length (strip_separators it) + count_separators 0 it = length it"
proof (induction it rule: strip_separators.induct)
  case (1 it)
  obtain ok opcode d it' where g: "GetOp2 it = (ok, opcode, d, it')" by (cases "GetOp2 it") auto
  show ?case
  proof (cases ok)
    case True
    have "length it' \<le> length it" using GetOp2_suffix [OF g] by (simp add: suffix_length_le)
    moreover have "opcode = OP_CODESEPARATOR \<Longrightarrow> length it = Suc (length it')" using separator_size [of it d it'] g True by simp
    ultimately show ?thesis
      using 1 [OF g [symmetric] refl refl True] True g count_separators_add [of 1 it']
      by (auto simp: strip_separators.simps [of it] count_separators.simps [of 0 it])
  qed (simp add: g count_separators.simps [of 0 it] strip_separators.simps [of it])
qed

lemma strip_no_separator: "count_separators 0 it = 0 \<Longrightarrow> strip_separators it = it"
proof (induction it rule: strip_separators.induct)
  case (1 it)
  obtain ok opcode d it' where g: "GetOp2 it = (ok, opcode, d, it')" by (cases "GetOp2 it") auto
  show ?case
  proof (cases ok)
    case True
    have suf: "suffix it' it" using GetOp2_suffix [OF g] .
    have "opcode \<noteq> OP_CODESEPARATOR" and "count_separators 0 it' = 0"
      using 1(2) g True count_separators_add [of 1 it'] by (auto simp: count_separators.simps [of 0 it] split: if_splits)
    then show ?thesis
      using 1(1) [OF g [symmetric] refl refl True] True g suf
      by (auto simp: strip_separators.simps [of it] suffix_def)
  qed (simp add: g strip_separators.simps [of it])
qed

lemma skip_separators:
  assumes "skip_matches [OP_CODESEPARATOR] n pc = (m, q)"
  shows "strip_separators q = strip_separators pc \<and> m + count_separators 0 q = n + count_separators 0 pc \<and>
    (\<forall>d q'. GetOp2 q \<noteq> (True, OP_CODESEPARATOR, d, q'))"
  using assms
proof (induction pc arbitrary: n)
  case Nil
  then show ?case by (simp add: skip_matches.simps)
next
  case (Cons a pc)
  show ?case
  proof (cases "a = OP_CODESEPARATOR")
    case True
    then have "skip_matches [OP_CODESEPARATOR] (Suc n) pc = (m, q)"
      using Cons.prems by (simp add: skip_matches.simps [of _ n])
    from Cons.IH [OF this] show ?thesis using True by (simp add: strip_separator_Cons count_separator_Cons)
  next
    case False
    then have "q = a # pc" "m = n" using Cons.prems by (auto simp: skip_matches.simps [of _ n])
    then show ?thesis using False separator_size by auto
  qed
qed

lemma FindAndDelete_separators_loop:
  assumes "FindAndDelete_loop [OP_CODESEPARATOR] res n pc2 pc = (n', res', pc2')" and "suffix pc pc2"
  shows "res' @ pc2' = res @ take (length pc2 - length pc) pc2 @ strip_separators pc \<and>
    n' = n + count_separators 0 pc"
  using assms
proof (induction "length pc" arbitrary: res n pc2 pc rule: less_induct)
  case less
  let ?b = "[OP_CODESEPARATOR :: byte]" and ?mid = "take (length pc2 - length pc) pc2"
  obtain m q where sk: "skip_matches ?b n pc = (m, q)" by (cases "skip_matches ?b n pc")
  obtain ok opc d q' where g: "GetOp2 q = (ok, opc, d, q')" by (cases "GetOp2 q") auto
  note q = skip_separators [OF sk]
  show ?case
  proof (cases ok)
    case True
    have "suffix q' q" using GetOp2_suffix [OF g] .
    moreover have "length q' < length pc"
      using GetOp2_decreases [of q opc d q'] g True skip_matches_shorter [of ?b n pc] sk by simp
    moreover have "FindAndDelete_loop ?b (res @ ?mid) m q q' = (n', res', pc2')"
      using less(2) True by (subst (asm) FindAndDelete_loop.simps) (simp add: sk g Let_def)
    ultimately have "res' @ pc2' = (res @ ?mid) @ take (length q - length q') q @ strip_separators q' \<and>
        n' = m + count_separators 0 q'" by (intro less(1)) auto
    moreover have "opc \<noteq> OP_CODESEPARATOR" using q g True by auto
    ultimately show ?thesis
      using q g True by (simp add: strip_separators.simps [of q] count_separators.simps [of 0 q])
  next
    case False
    then have "(n', res', pc2') = (m, res @ ?mid, q)"
      using less(2) by (subst (asm) FindAndDelete_loop.simps) (simp add: sk g Let_def)
    then show ?thesis
      using q g False by (simp add: strip_separators.simps [of q] count_separators.simps [of 0 q])
  qed
qed

lemma FindAndDelete_separators: "snd (FindAndDelete [OP_CODESEPARATOR] s) = strip_separators s"
proof -
  obtain n r p where l: "FindAndDelete_loop [OP_CODESEPARATOR] [] 0 s s = (n, r, p)"
    by (cases "FindAndDelete_loop [OP_CODESEPARATOR] [] 0 s s") auto
  from FindAndDelete_separators_loop [OF this] show ?thesis
    using strip_no_separator [of s] by (auto simp: FindAndDelete_def l)
qed

text \<open>C14. The one-pass serialization that skips code separators writes what the serialization of the
  script with its code separators deleted would be, up to the bytes left unread where the script stops
  decoding.  (They are none when it decodes to its end.)\<close>

theorem SerializeScriptCode_deletes:
  "SerializeScriptCode sc @ undecoded sc = Serialize_bytes (snd (FindAndDelete [OP_CODESEPARATOR] sc))"
proof -
  have "length sc - count_separators 0 sc = length (strip_separators sc)" using length_strip [of sc] by simp
  then show ?thesis
    using write_code_strip [of sc sc]
    by (simp add: SerializeScriptCode_def Serialize_bytes_def FindAndDelete_separators)
qed

subsection \<open>What a signature covers\<close>

definition set_scriptSig :: "(nat \<Rightarrow> script) \<Rightarrow> transaction \<Rightarrow> transaction" where
  "set_scriptSig f tx = tx\<lparr>vin := map (\<lambda>k. (vin tx ! k)\<lparr>scriptSig := f k\<rparr>) [0..<length (vin tx)]\<rparr>"

text \<open>C35. Signatures do not cover input scripts: changing the input scripts of a transaction changes no
  signature check of the transaction.\<close>

theorem CheckSig_ignores_scriptSig:
  "tx_CheckSig Verify cr (set_scriptSig f tx) n sig pk sc = tx_CheckSig Verify cr tx n sig pk sc"
proof -
  have "Serialize_sig (CTransactionSignatureSerializer (set_scriptSig f tx) sc n t) =
      Serialize_sig (CTransactionSignatureSerializer tx sc n t)" if n: "n < length (vin tx)" for t
  proof -
    define A where "A = CTransactionSignatureSerializer (set_scriptSig f tx) sc n t"
    define B where "B = CTransactionSignatureSerializer tx sc n t"
    have AB: "txTo A = set_scriptSig f tx" "txTo B = tx" "scriptCode A = scriptCode B" "nIn A = n" "nIn B = n"
      "fAnyoneCanPay A = fAnyoneCanPay B" "fHashSingle A = fHashSingle B" "fHashNone A = fHashNone B"
      by (simp_all add: A_def B_def CTransactionSignatureSerializer_def)
    have tx: "length (vin (set_scriptSig f tx)) = length (vin tx)" "vout (set_scriptSig f tx) = vout tx"
      "nLockTime (set_scriptSig f tx) = nLockTime tx" "n32bitVersion (set_scriptSig f tx) = n32bitVersion tx"
      "nVersion (set_scriptSig f tx) = nVersion tx" "nType (set_scriptSig f tx) = nType tx"
      "vExtraPayload (set_scriptSig f tx) = vExtraPayload tx"
      by (simp_all add: set_scriptSig_def n32bitVersion_def)
    have inp: "SerializeInput A k = SerializeInput B k" if "k < length (vin tx)" for k
      using that n by (simp add: SerializeInput_def AB Let_def set_scriptSig_def)
    have "SerializeOutput A = SerializeOutput B" by (rule ext) (simp add: SerializeOutput_def AB tx)
    moreover have "concat (map (SerializeInput A) [0..<length (vin tx)]) =
        concat (map (SerializeInput B) [0..<length (vin tx)])"
      using inp by (intro arg_cong [where f = concat]) simp
    moreover have "SerializeInput A 0 = SerializeInput B 0" using inp [of 0] n by (cases "vin tx") simp_all
    ultimately have "Serialize_sig A = Serialize_sig B" by (simp add: Serialize_sig_def AB tx Let_def)
    then show ?thesis by (simp add: A_def B_def)
  qed
  then have "SignatureHash cr sc (set_scriptSig f tx) n t = SignatureHash cr sc tx n t" for t
    by (simp add: SignatureHash_def) (simp add: set_scriptSig_def)
  then show ?thesis by (simp add: tx_CheckSig_def)
qed

subsection \<open>Lock times\<close>

text \<open>C36. \<open>OP_CHECKLOCKTIMEVERIFY\<close> enforces its operand: a transaction with an input that passes the check
  for a positive lock time is final only in blocks above that height, respectively after that time.\<close>

theorem CheckLockTime_enforced:
  assumes "tx_CheckLockTime tx n lockTime" and "IsFinalTx tx nBlockHeight nBlockTime"
    and "0 < lockTime" and "n < length (vin tx)"
  shows "lockTime < (if lockTime < int LOCKTIME_THRESHOLD then nBlockHeight else nBlockTime)"
proof -
  have "\<not> (\<forall>i \<in> set (vin tx). nSequence i = SEQUENCE_FINAL)"
    using assms(1,4) by (auto simp: tx_CheckLockTime_def Let_def split: if_splits intro!: bexI [of _ "vin tx ! n"])
  then show ?thesis
    using assms(1-3) by (auto simp: tx_CheckLockTime_def IsFinalTx_def Let_def split: if_splits)
qed

theorem CheckLockTime_enforced_witness:
  "tx_CheckLockTime (sample_tx\<lparr>nLockTime := 9\<rparr>) 0 8 \<and> (8 :: int) < 10"
proof -
  have c: "tx_CheckLockTime (sample_tx\<lparr>nLockTime := 9\<rparr>) 0 8"
    by (simp add: tx_CheckLockTime_def sample_tx_def LOCKTIME_THRESHOLD_def SEQUENCE_FINAL_def)
  have "IsFinalTx (sample_tx\<lparr>nLockTime := 9\<rparr>) 10 0"
    by (simp add: IsFinalTx_def sample_tx_def LOCKTIME_THRESHOLD_def)
  from CheckLockTime_enforced [OF c this] c show ?thesis by (simp add: sample_tx_def LOCKTIME_THRESHOLD_def)
qed

end
