(* ===== verification/Standard.thy ===== *)
theory Standard
  imports SigHash
begin

text \<open>
  Standard output scripts, \<open>src/src/script/standard.cpp\<close>: recognising them (\<open>Solver\<close>), extracting
  destinations, and building scripts for destinations, keys and multi-signature groups.  Building and
  recognising are inverse to each other.
\<close>

datatype txnouttype = TX_NONSTANDARD | TX_PUBKEY | TX_PUBKEYHASH | TX_SCRIPTHASH | TX_MULTISIG | TX_NULL_DATA

datatype CTxDestination = CNoDestination | CKeyID bytes | CScriptID bytes

fun GetTxnOutputType :: "txnouttype \<Rightarrow> string" where
  "GetTxnOutputType TX_NONSTANDARD = ''nonstandard''" |
  "GetTxnOutputType TX_PUBKEY = ''pubkey''" |
  "GetTxnOutputType TX_PUBKEYHASH = ''pubkeyhash''" |
  "GetTxnOutputType TX_SCRIPTHASH = ''scripthash''" |
  "GetTxnOutputType TX_MULTISIG = ''multisig''" |
  "GetTxnOutputType TX_NULL_DATA = ''nulldata''"

subsection \<open>Solver\<close>

text \<open>The templates, in the order of the multimap.\<close>

definition mTemplates :: "(txnouttype \<times> script) list" where
  "mTemplates = [(TX_PUBKEY, [OP_PUBKEY, OP_CHECKSIG]),
     (TX_PUBKEYHASH, [OP_DUP, OP_HASH160, OP_PUBKEYHASH, OP_EQUALVERIFY, OP_CHECKSIG]),
     (TX_MULTISIG, [OP_SMALLINTEGER, OP_PUBKEYS, OP_SMALLINTEGER, OP_CHECKMULTISIG])]"

text \<open>The inner loop for \<open>OP_PUBKEYS\<close>: solutions, opcode and operand of the last instruction read, and
  the iterator.\<close>

function collect_pubkeys :: "bytes list \<Rightarrow> byte \<Rightarrow> bytes \<Rightarrow> script \<Rightarrow> bytes list \<times> byte \<times> bytes \<times> script" where
  "collect_pubkeys sols opcode1 v1 pc1 =
    (if 33 \<le> length v1 \<and> length v1 \<le> 65 then
       (case GetOp2 pc1 of (ok, opcode1', v1', pc1') \<Rightarrow>
          if ok then collect_pubkeys (sols @ [v1]) opcode1' v1' pc1' else (sols @ [v1], opcode1', v1', pc1'))
     else (sols, opcode1, v1, pc1))"
  by pat_completeness auto
termination
  by (relation "measure (\<lambda>(_, _, _, pc). length pc)") (auto intro: GetOp2_decreases [OF sym])

declare collect_pubkeys.simps [simp del]

text \<open>Matching one instruction; \<open>None\<close> is the \<open>break\<close>.\<close>

definition match_op :: "bytes list \<Rightarrow> byte \<Rightarrow> bytes \<Rightarrow> byte \<Rightarrow> bytes \<Rightarrow> bytes list option" where
  "match_op sols opcode1 v1 opcode2 v2 =
    (if opcode2 = OP_PUBKEY then (if length v1 < 33 \<or> length v1 > 65 then None else Some (sols @ [v1]))
     else if opcode2 = OP_PUBKEYHASH then (if length v1 \<noteq> 20 then None else Some (sols @ [v1]))
     else if opcode2 = OP_SMALLINTEGER then
       (if opcode1 = OP_0 \<or> (OP_1 \<le> opcode1 \<and> opcode1 \<le> OP_16)
        then Some (sols @ [[of_nat (DecodeOP_N opcode1)]]) else None)
     else if opcode1 \<noteq> opcode2 \<or> v1 \<noteq> v2 then None
     else Some sols)"

function match_loop :: "bytes list \<Rightarrow> script \<Rightarrow> script \<Rightarrow> bytes list option" where
  "match_loop sols pc1 pc2 =
    (if pc1 = [] \<and> pc2 = [] then Some sols
     else case GetOp2 pc1 of (ok1, opcode1, v1, pc1') \<Rightarrow>
       if \<not> ok1 then None
       else case GetOp2 pc2 of (ok2, opcode2, v2, pc2') \<Rightarrow>
       if \<not> ok2 then None
       else if opcode2 = OP_PUBKEYS then
         (case collect_pubkeys sols opcode1 v1 pc1' of (sols', opcode1', v1', pc1'') \<Rightarrow>
            case GetOp2 pc2' of (ok2', opcode2', v2', pc2'') \<Rightarrow>
            if \<not> ok2' then None
            else case match_op sols' opcode1' v1' opcode2' v2' of None \<Rightarrow> None
              | Some sols'' \<Rightarrow> match_loop sols'' pc1'' pc2'')
       else case match_op sols opcode1 v1 opcode2 v2 of None \<Rightarrow> None
         | Some sols' \<Rightarrow> match_loop sols' pc1' pc2')"
  by pat_completeness auto
termination
  by (relation "measure (\<lambda>(_, _, pc2). length pc2)")
    (auto dest!: sym [of "(True, _, _, _)"] GetOp2_decreases)

declare match_loop.simps [simp del]

fun scan_templates :: "script \<Rightarrow> (txnouttype \<times> script) list \<Rightarrow> bool \<times> txnouttype \<times> bytes list" where
  "scan_templates scr [] = (False, TX_NONSTANDARD, [])" |
  "scan_templates scr ((typ, tplate) # ts) =
    (case match_loop [] scr tplate of
       None \<Rightarrow> scan_templates scr ts
     | Some sols \<Rightarrow>
       if typ = TX_MULTISIG then
         let m = hd sols ! 0; n = last sols ! 0 in
         if m < 1 \<or> n < 1 \<or> m > n \<or> length sols - 2 \<noteq> unat n then (False, typ, sols) else (True, typ, sols)
       else (True, typ, sols))"

definition Solver :: "script \<Rightarrow> bool \<times> txnouttype \<times> bytes list" where
  "Solver scr =
    (if IsPayToScriptHash scr then (True, TX_SCRIPTHASH, [take 20 (drop 2 scr)])
     else if length scr \<ge> 1 \<and> scr ! 0 = OP_RETURN \<and> IsPushOnly (drop 1 scr) then (True, TX_NULL_DATA, [])
     else scan_templates scr mTemplates)"

subsection \<open>Destinations\<close>

definition ExtractDestination :: "crypto \<Rightarrow> script \<Rightarrow> CTxDestination option" where
  "ExtractDestination cr scr =
    (case Solver scr of (ok, whichType, vSolutions) \<Rightarrow>
       if \<not> ok then None
       else if whichType = TX_PUBKEY then
         (if \<not> PubKey_IsValid (vSolutions ! 0) then None else Some (CKeyID (Hash160 cr (vSolutions ! 0))))
       else if whichType = TX_PUBKEYHASH then Some (CKeyID (vSolutions ! 0))
       else if whichType = TX_SCRIPTHASH then Some (CScriptID (vSolutions ! 0))
       else None)"

text \<open>\<open>ExtractDestinations\<close> with the type and the number of signatures it returns; \<open>None\<close> is false.\<close>

definition ExtractDestinations :: "crypto \<Rightarrow> script \<Rightarrow> (txnouttype \<times> CTxDestination list \<times> nat) option" where
  "ExtractDestinations cr scr =
    (case Solver scr of (ok, typ, vSolutions) \<Rightarrow>
       if \<not> ok then None
       else if typ = TX_NULL_DATA then None
       else if typ = TX_MULTISIG then
         let nRequired = unat (hd vSolutions ! 0);
             addresses = map (\<lambda>v. CKeyID (Hash160 cr v)) (filter PubKey_IsValid (butlast (tl vSolutions))) in
         if addresses = [] then None else Some (typ, addresses, nRequired)
       else case ExtractDestination cr scr of None \<Rightarrow> None | Some d \<Rightarrow> Some (typ, [d], 1))"

fun GetScriptForDestination :: "CTxDestination \<Rightarrow> script" where
  "GetScriptForDestination CNoDestination = []" |
  "GetScriptForDestination (CKeyID keyID) = [OP_DUP, OP_HASH160] @ push_data keyID @ [OP_EQUALVERIFY, OP_CHECKSIG]" |
  "GetScriptForDestination (CScriptID scriptID) = [OP_HASH160] @ push_data scriptID @ [OP_EQUAL]"

definition GetScriptForRawPubKey :: "bytes \<Rightarrow> script" where
  "GetScriptForRawPubKey pubKey = push_data pubKey @ [OP_CHECKSIG]"

text \<open>\<open>None\<close> is a failed assertion of \<open>EncodeOP_N\<close>.\<close>

definition GetScriptForMultisig :: "int \<Rightarrow> bytes list \<Rightarrow> script option" where
  "GetScriptForMultisig nRequired keys =
    (case EncodeOP_N nRequired of None \<Rightarrow> None
     | Some m \<Rightarrow> (case EncodeOP_N (int (length keys)) of None \<Rightarrow> None
       | Some n \<Rightarrow> Some ([m] @ concat (map push_data keys) @ [n, OP_CHECKMULTISIG])))"

subsection \<open>Recognising what was built\<close>

lemma match_loop_step:
  assumes "GetOp2 pc1 = (True, opcode1, v1, pc1')" and "OP_PUSHDATA4 < opcode2" and "opcode2 \<noteq> OP_PUBKEYS"
  shows "match_loop sols pc1 (opcode2 # pc2) =
    (case match_op sols opcode1 v1 opcode2 [] of None \<Rightarrow> None | Some sols' \<Rightarrow> match_loop sols' pc1' pc2)"
  using assms GetOp2_opcode [OF assms(2)] by (subst match_loop.simps) simp

lemma match_loop_end: "match_loop sols [] [] = Some sols"
  by (simp add: match_loop.simps)

lemma match_loop_short: "pc2 \<noteq> [] \<Longrightarrow> match_loop sols [] pc2 = None"
  by (simp add: match_loop.simps)

lemma Solver_P2PKH:
  assumes "length h = 20"
  shows "Solver (GetScriptForDestination (CKeyID h)) = (True, TX_PUBKEYHASH, [h])"
proof -
  let ?s = "GetScriptForDestination (CKeyID h)"
  have "match_loop [] ?s [OP_PUBKEY, OP_CHECKSIG] = None"
    by (simp add: match_loop_step [OF GetOp2_opcode] match_op_def)
  moreover have "match_loop [] ?s [OP_DUP, OP_HASH160, OP_PUBKEYHASH, OP_EQUALVERIFY, OP_CHECKSIG] = Some [h]"
    using assms
    by (simp add: match_loop_step [OF GetOp2_opcode] match_loop_step [OF GetOp2_push_data] match_loop_end match_op_def)
  ultimately show ?thesis
    by (simp add: Solver_def IsPayToScriptHash_def mTemplates_def)
qed

lemma P2SH_script: "length h = 20 \<Longrightarrow> GetScriptForDestination (CScriptID h) = OP_HASH160 # 0x14 # h @ [OP_EQUAL]"
  by (simp add: push_data_def)

lemma Solver_P2SH:
  assumes "length h = 20"
  shows "Solver (GetScriptForDestination (CScriptID h)) = (True, TX_SCRIPTHASH, [h])"
  using assms unfolding P2SH_script [OF assms]
  by (simp add: Solver_def IsPayToScriptHash_def nth_append)

text \<open>C37. The destination of a script built for a key or script hash is that destination, the fast tests
  recognise these scripts, and spending the first is the pay-to-pubkey-hash check.\<close>

theorem destination_roundtrip:
  assumes "length h = 20"
  shows "ExtractDestination cr (GetScriptForDestination (CKeyID h)) = Some (CKeyID h) \<and>
    ExtractDestination cr (GetScriptForDestination (CScriptID h)) = Some (CScriptID h) \<and>
    IsPayToPublicKeyHash (GetScriptForDestination (CKeyID h)) \<and>
    IsPayToScriptHash (GetScriptForDestination (CScriptID h)) \<and>
    GetScriptForDestination (CKeyID h) = P2PKH_script h"
  using assms Solver_P2PKH [OF assms] Solver_P2SH [OF assms]
  by (simp add: ExtractDestination_def IsPayToPublicKeyHash_def IsPayToScriptHash_def P2PKH_script_def
      push_data_def nth_append)

theorem destination_roundtrip_witness:
  "ExtractDestination const_crypto (GetScriptForDestination (CKeyID (replicate 20 7))) = Some (CKeyID (replicate 20 7))"
  by (rule destination_roundtrip [THEN conjunct1]) simp

lemma collect_pubkeys_push:
  assumes "\<forall>k \<in> set keys. 33 \<le> length k \<and> length k \<le> 65" and "33 \<le> length key" and "length key \<le> 65"
    and "OP_PUSHDATA4 < opcode"
  shows "collect_pubkeys sols opc key (concat (map push_data keys) @ opcode # rest) =
    (sols @ key # keys, opcode, [], rest)"
  using assms(1-3)
proof (induction keys arbitrary: sols opc key)
  case Nil
  then show ?case
    using GetOp2_opcode [OF assms(4)]
    by (simp add: collect_pubkeys.simps [of sols] collect_pubkeys.simps [of _ opcode])
next
  case (Cons k keys)
  then have "length k < 2 ^ 32" by simp
  then show ?case
    using Cons by (simp add: collect_pubkeys.simps [of sols] GetOp2_push_data)
qed

definition small_int :: "nat \<Rightarrow> byte" where
  "small_int n = of_nat (80 + n)"

lemma EncodeOP_N_small: "1 \<le> n \<Longrightarrow> n \<le> 16 \<Longrightarrow> EncodeOP_N (int n) = Some (small_int n)"
  by (simp add: EncodeOP_N_def small_int_def)

lemma small_int_range: "1 \<le> n \<Longrightarrow> n \<le> 16 \<Longrightarrow> unat (small_int n) = 80 + n"
  unfolding small_int_def by (subst unat_of_nat) simp

lemma DecodeOP_N_Encode: "1 \<le> n \<Longrightarrow> n \<le> 16 \<Longrightarrow> DecodeOP_N (small_int n) = n"
  using small_int_range [of n] by (auto simp: DecodeOP_N_def)

lemma small_int_facts:
  assumes "1 \<le> n" and "n \<le> 16"
  shows "OP_PUSHDATA4 < small_int n" "OP_1 \<le> small_int n" "small_int n \<le> OP_16"
    "small_int n \<noteq> OP_DUP" "small_int n \<noteq> OP_HASH160" "small_int n \<noteq> OP_RETURN"
  using small_int_range [OF assms] assms by (auto simp: word_less_nat_alt word_le_nat_alt word_unat_eq_iff)

text \<open>A multi-signature script for \<open>m\<close> of \<open>n\<close> keys is built and recognised with exactly its keys and
  numbers.\<close>

theorem multisig_script_solved:
  assumes "1 \<le> m" and "m \<le> length keys" and "length keys \<le> 16"
    and "\<forall>k \<in> set keys. 33 \<le> length k \<and> length k \<le> 65"
  shows "map_option Solver (GetScriptForMultisig (int m) keys) =
    Some (True, TX_MULTISIG, [of_nat m] # keys @ [[of_nat (length keys)]])"
proof -
  define n where "n = length keys"
  let ?s = "small_int m # concat (map push_data keys) @ [small_int n, OP_CHECKMULTISIG]"
  have mn: "1 \<le> n" "n \<le> 16" "m \<le> 16" "m \<le> n" using assms by (simp_all add: n_def)
  have built: "GetScriptForMultisig (int m) keys = Some ?s"
    using EncodeOP_N_small [OF assms(1) mn(3)] EncodeOP_N_small [OF mn(1,2)] by (simp add: GetScriptForMultisig_def n_def)
  note M = small_int_facts [OF assms(1) mn(3)] and N = small_int_facts [OF mn(1,2)]
  obtain k ks where keys: "keys = k # ks" using mn by (cases keys) (auto simp: n_def)
  have k: "length k < 2 ^ 32" "33 \<le> length k" "length k \<le> 65" "\<forall>k \<in> set ks. 33 \<le> length k \<and> length k \<le> 65"
    using assms(4) keys by auto
  let ?tail = "concat (map push_data ks) @ small_int n # [OP_CHECKMULTISIG]"
  have s: "?s = small_int m # push_data k @ ?tail" by (simp add: keys)
  have "match_loop [] ?s [OP_PUBKEY, OP_CHECKSIG] = None"
    unfolding s by (simp add: match_loop_step [OF GetOp2_opcode [OF M(1)]] match_op_def)
  moreover have "match_loop [] ?s [OP_DUP, OP_HASH160, OP_PUBKEYHASH, OP_EQUALVERIFY, OP_CHECKSIG] = None"
    unfolding s using M by (simp add: match_loop_step [OF GetOp2_opcode [OF M(1)]] match_op_def)
  moreover have "match_loop [] ?s [OP_SMALLINTEGER, OP_PUBKEYS, OP_SMALLINTEGER, OP_CHECKMULTISIG] =
      Some ([of_nat m] # keys @ [[of_nat n]])"
  proof -
    have "match_loop [] ?s [OP_SMALLINTEGER, OP_PUBKEYS, OP_SMALLINTEGER, OP_CHECKMULTISIG] =
        match_loop [[of_nat m]] (push_data k @ ?tail) [OP_PUBKEYS, OP_SMALLINTEGER, OP_CHECKMULTISIG]"
      unfolding s using M DecodeOP_N_Encode [OF assms(1) mn(3)]
      by (simp add: match_loop_step [OF GetOp2_opcode [OF M(1)]] match_op_def)
    also have "\<dots> = match_loop ([of_nat m] # (k # ks) @ [[of_nat n]]) [OP_CHECKMULTISIG] [OP_CHECKMULTISIG]"
      using N DecodeOP_N_Encode [OF mn(1,2)]
      by (subst match_loop.simps)
        (simp add: GetOp2_push_data [OF k(1)] GetOp2_opcode collect_pubkeys_push [OF k(4,2,3) N(1)] match_op_def)
    also have "\<dots> = Some ([of_nat m] # keys @ [[of_nat n]])"
      by (simp add: match_loop_step [OF GetOp2_opcode] match_loop_end match_op_def keys)
    finally show ?thesis .
  qed
  moreover have "\<not> IsPayToScriptHash ?s" "?s ! 0 \<noteq> OP_RETURN" using M by (simp_all add: IsPayToScriptHash_def s)
  moreover have "unat (of_nat m :: byte) = m" "unat (of_nat n :: byte) = n"
    using mn assms by (simp_all add: unat_of_nat)
  moreover have "keys \<noteq> []" by (simp add: keys)
  ultimately have "Solver ?s = (True, TX_MULTISIG, [of_nat m] # keys @ [[of_nat n]])"
    using mn assms(1) by (simp add: Solver_def mTemplates_def word_less_nat_alt not_less n_def Let_def)
  then show ?thesis by (simp add: built n_def)
qed

theorem multisig_script_solved_witness:
  "map_option Solver (GetScriptForMultisig 1 [replicate 33 2, replicate 33 3]) =
     Some (True, TX_MULTISIG, [[1], replicate 33 2, replicate 33 3, [2]])"
  using multisig_script_solved [of 1 "[replicate 33 2, replicate 33 3]"] by simp

end
