(* ===== verification/Contract.thy ===== *)
theory Contract
  imports SimpleVM_Semantics ContractDB Standard
begin

text \<open>
  The bridge between transactions and the contract virtual machine,
  \<open>src/src/qtum/hthcontract.cpp\<close>: contract outputs are recognised, checked and parsed, and the
  contracts of a block run with storage in the contract database.  A step of the block loop maps the
  global \<open>pcontractdb\<close> to an outcome and a new value of it; \<open>None\<close> is a run of the virtual machine
  that does not end, \<open>Throw\<close> a database exception, \<open>Undefined\<close> undefined behaviour of the machine.
\<close>

unbundle bit_operations_syntax

type_synonym 'db pcontractdb = "'db cdb_wrapper option"

subsection \<open>The contract database behind its global pointer\<close>

definition GetContractCode :: "'db leveldb \<Rightarrow> bytes \<Rightarrow> 'db pcontractdb \<Rightarrow> exn + bytes" where
  "GetContractCode ldb address g = (case g of None \<Rightarrow> Inr []
     | Some db \<Rightarrow> (case ReadCode ldb address db of
         Inl e \<Rightarrow> Inl e | Inr (Some code) \<Rightarrow> Inr code | Inr None \<Rightarrow> Inr []))"

definition GetContractStorage :: "'db leveldb \<Rightarrow> bytes \<Rightarrow> bytes \<Rightarrow> 'db pcontractdb \<Rightarrow> exn + bytes" where
  "GetContractStorage ldb address key g = (case g of None \<Rightarrow> Inr (replicate 32 0)
     | Some db \<Rightarrow> (case ReadStorage ldb address key db of
         Inl e \<Rightarrow> Inl e | Inr (Some value) \<Rightarrow> Inr value | Inr None \<Rightarrow> Inr (replicate 32 0)))"

definition SetContractCode :: "'db leveldb \<Rightarrow> bytes \<Rightarrow> bytes \<Rightarrow> 'db pcontractdb \<Rightarrow> exn + (bool \<times> 'db pcontractdb)" where
  "SetContractCode ldb address code g = (case g of None \<Rightarrow> Inr (False, g)
     | Some db \<Rightarrow> (case WriteCode ldb address code db of Inl e \<Rightarrow> Inl e | Inr db' \<Rightarrow> Inr (True, Some db')))"

definition SetContractStorage :: "'db leveldb \<Rightarrow> bytes \<Rightarrow> bytes \<Rightarrow> bytes \<Rightarrow> 'db pcontractdb
    \<Rightarrow> exn + (bool \<times> 'db pcontractdb)" where
  "SetContractStorage ldb address key value g = (case g of None \<Rightarrow> Inr (False, g)
     | Some db \<Rightarrow> (case WriteStorage ldb address key value db of Inl e \<Rightarrow> Inl e | Inr db' \<Rightarrow> Inr (True, Some db')))"

definition ContractExists :: "'db leveldb \<Rightarrow> bytes \<Rightarrow> 'db pcontractdb \<Rightarrow> exn + bool" where
  "ContractExists ldb address g = (case g of None \<Rightarrow> Inr False | Some db \<Rightarrow> HasCode ldb address db)"

definition BlockContractStorage :: "'db leveldb \<Rightarrow> bytes \<Rightarrow> 'db pcontractdb storage_interface" where
  "BlockContractStorage ldb contractAddr =
     \<lparr>getStorage = GetContractStorage ldb contractAddr,
      setStorage = (\<lambda>key value g. map_sum id snd (SetContractStorage ldb contractAddr key value g))\<rparr>"

definition InitializeEVMState :: "(string \<Rightarrow> exn + 'db cdb_wrapper) \<Rightarrow> string \<Rightarrow> bool \<Rightarrow> 'db pcontractdb
    \<Rightarrow> bool \<times> 'db pcontractdb" where
  "InitializeEVMState opens path fReset g =
     (case InitContractDB opens path g of (ok, g') \<Rightarrow> if \<not> ok then (False, g') else (True, g'))"

definition ShutdownEVMState :: "'db leveldb \<Rightarrow> 'db pcontractdb \<Rightarrow> exn + 'db pcontractdb" where
  "ShutdownEVMState ldb g = ShutdownContractDB ldb g"

definition GetEVMStateRoot :: bytes where
  "GetEVMStateRoot = replicate 32 0"

subsection \<open>Addresses\<close>

definition tx_GetHash :: "crypto \<Rightarrow> transaction \<Rightarrow> bytes" where
  "tx_GetHash cr tx = Hash256 cr (Serialize_tx tx)"

definition CalculateContractAddress :: "crypto \<Rightarrow> bytes \<Rightarrow> u32 \<Rightarrow> bytes" where
  "CalculateContractAddress cr txid voutIndex =
     (let txIdAndVout = txid @ le_bytes 4 voutIndex in RIPEMD160 cr (SHA256 cr txIdAndVout))"

text \<open>The first loop of \<open>GetSenderAddress\<close>: the first pay-to-public-key-hash output that is not a
  contract output.\<close>

fun sender_from_outputs :: "tx_out list \<Rightarrow> bytes option" where
  "sender_from_outputs [] = None" |
  "sender_from_outputs (out # outs) =
    (if HasOpCreate (scriptPubKey out) \<or> HasOpCall (scriptPubKey out) then sender_from_outputs outs
     else case Solver (scriptPubKey out) of (ok, typ, solutions) \<Rightarrow>
       if ok \<and> typ = TX_PUBKEYHASH \<and> length solutions \<ge> 1 \<and> length (solutions ! 0) = 20 then Some (solutions ! 0)
       else sender_from_outputs outs)"

definition sender_from_input :: "crypto \<Rightarrow> script \<Rightarrow> bytes option" where
  "sender_from_input cr ss =
    (if length ss \<ge> 33 then
       (case GetOp2 ss of (ok, _, _, pc) \<Rightarrow>
          if ok then (case GetOp2 pc of (ok', _, dat, _) \<Rightarrow>
            if ok' \<and> (length dat = 33 \<or> length dat = 65) then Some (RIPEMD160 cr (SHA256 cr dat)) else None)
          else None)
     else None)"

definition sender_from_coin :: "crypto \<Rightarrow> coin option \<Rightarrow> bytes option" where
  "sender_from_coin cr co = (case co of None \<Rightarrow> None
     | Some coin \<Rightarrow>
       if TxOut_IsNull (coin_out coin) then None
       else case Solver (scriptPubKey (coin_out coin)) of (ok, typ, solutions) \<Rightarrow>
         if \<not> ok then None
         else if typ = TX_PUBKEYHASH \<and> length solutions \<ge> 1 \<and> length (solutions ! 0) = 20 then Some (solutions ! 0)
         else if typ = TX_SCRIPTHASH \<and> length solutions \<ge> 1 \<and> length (solutions ! 0) = 20 then Some (solutions ! 0)
         else if typ = TX_PUBKEY \<and> length solutions \<ge> 1 then Some (RIPEMD160 cr (SHA256 cr (solutions ! 0)))
         else None)"

definition GetSenderAddress :: "crypto \<Rightarrow> transaction \<Rightarrow> (out_point \<rightharpoonup> coin) \<Rightarrow> bytes" where
  "GetSenderAddress cr tx view =
    (let zero = replicate 20 0 in
     if IsCoinBase tx then zero
     else if vin tx = [] then zero
     else case sender_from_outputs (vout tx) of Some a \<Rightarrow> a
     | None \<Rightarrow> (case sender_from_input cr (scriptSig (vin tx ! 0)) of Some a \<Rightarrow> a
       | None \<Rightarrow> (case sender_from_coin cr (view (prevout (vin tx ! 0))) of Some a \<Rightarrow> a | None \<Rightarrow> zero)))"

subsection \<open>Recognising and checking contract transactions\<close>

text \<open>The consensus parameter and the legacy global variable of the same name.\<close>

definition IsEVMEnabled :: "int \<Rightarrow> int \<Rightarrow> int \<Rightarrow> bool" where
  "IsEVMEnabled nHeight params_start global_start =
    (let activationHeight = (if params_start > 0 then params_start else global_start)
     in activationHeight > 0 \<and> nHeight \<ge> activationHeight)"

definition HasContractOps :: "transaction \<Rightarrow> bool" where
  "HasContractOps tx \<longleftrightarrow> (\<exists>out \<in> set (vout tx). HasOpCreate (scriptPubKey out) \<or> HasOpCall (scriptPubKey out))"

fun check_contract_outputs :: "tx_out list \<Rightarrow> verdict" where
  "check_contract_outputs [] = Valid" |
  "check_contract_outputs (out # outs) =
    (let s = scriptPubKey out in
     if HasOpCreate s \<and> length s < 5 then Reject 100 ''bad-contract-create''
     else if HasOpCall s \<and> length s < 25 then Reject 100 ''bad-contract-call''
     else if HasOpSender s \<and> \<not> HasOpCreate s \<and> \<not> HasOpCall s then Reject 100 ''bad-op-sender''
     else check_contract_outputs outs)"

definition CheckContractTx :: "int \<Rightarrow> int \<Rightarrow> transaction \<Rightarrow> int \<Rightarrow> verdict" where
  "CheckContractTx params_start global_start tx nHeight =
    (if \<not> IsEVMEnabled nHeight params_start global_start then
       (if HasContractOps tx then Reject 100 ''contract-before-hardfork'' else Valid)
     else check_contract_outputs (vout tx))"

subsection \<open>Parsing\<close>

record contract_params =
  cp_version :: u64
  cp_gasLimit :: u64
  cp_gasPrice :: u64
  cp_data :: bytes
  cp_contractAddr :: bytes

text \<open>What one instruction adds to the parser's stack.\<close>

definition parsed_item :: "byte \<Rightarrow> bytes \<Rightarrow> bytes list" where
  "parsed_item opcode vchPushValue =
    (if length vchPushValue > 0 then [vchPushValue]
     else if opcode = OP_0 then [[0]]
     else if OP_1 \<le> opcode \<and> opcode \<le> OP_16 then [[opcode - OP_1 + 1]]
     else if opcode = OP_1NEGATE then [[0x81]]
     else [])"

function parse_loop :: "bytes list \<Rightarrow> script \<Rightarrow> bytes list option" where
  "parse_loop items pc =
    (if pc = [] then Some items
     else case GetOp2 pc of (ok, opcode, vchPushValue, pc') \<Rightarrow>
       if \<not> ok then None
       else if opcode = OP_CREATE \<or> opcode = OP_CALL then Some items
       else parse_loop (items @ parsed_item opcode vchPushValue) pc')"
  by pat_completeness auto
termination
  by (relation "measure (\<lambda>(_, pc). length pc)") (auto intro: GetOp2_decreases [OF sym])

declare parse_loop.simps [simp del]

definition parse_u64 :: "bytes \<Rightarrow> u64" where
  "parse_u64 item = fold (\<lambda>i acc. acc OR push_bit (8 * i) (ucast (item ! i))) [0..<min (length item) 8] 0"

definition ParseContractScript :: "script \<Rightarrow> bool \<Rightarrow> contract_params option" where
  "ParseContractScript scr isCreate = (case parse_loop [] scr of None \<Rightarrow> None
     | Some items \<Rightarrow>
       let expectedSize = (if isCreate then 4 else 5) in
       if length items < expectedSize then None
       else
         let version = (if length (items ! 0) = 1 then ucast (items ! 0 ! 0)
                        else if length (items ! 0) > 1 then parse_u64 (items ! 0) else 0);
             p = \<lparr>cp_version = version, cp_gasLimit = parse_u64 (items ! 1), cp_gasPrice = parse_u64 (items ! 2),
                  cp_data = items ! 3, cp_contractAddr = []\<rparr>
         in if \<not> isCreate \<and> length items \<ge> 5 then
              (if length (items ! 4) \<noteq> 20 then None else Some (p\<lparr>cp_contractAddr := items ! 4\<rparr>))
            else Some p)"

subsection \<open>Building\<close>

text \<open>The output scripts of the wallet commands \<open>createcontract\<close> and \<open>sendtocontract\<close>.\<close>

definition create_script :: "u64 \<Rightarrow> int \<Rightarrow> bytes \<Rightarrow> script" where
  "create_script nGasLimit nGasPrice bytecode =
     push_data (ScriptNum_serialize 1) @ push_data (ScriptNum_serialize (sint nGasLimit)) @
     push_data (ScriptNum_serialize nGasPrice) @ push_data bytecode @ [OP_CREATE]"

definition call_script :: "u64 \<Rightarrow> int \<Rightarrow> bytes \<Rightarrow> bytes \<Rightarrow> script" where
  "call_script nGasLimit nGasPrice dat contractAddr =
     push_data (ScriptNum_serialize 1) @ push_data (ScriptNum_serialize (sint nGasLimit)) @
     push_data (ScriptNum_serialize nGasPrice) @ push_data dat @ push_data contractAddr @ [OP_CALL]"

subsection \<open>Running the contracts of a block\<close>

type_synonym ('g, 'a) node = "'g \<Rightarrow> ('a SimpleVM.outcome \<times> 'g) option"

definition nret :: "'a \<Rightarrow> ('g, 'a) node" where
  "nret x g = Some (Ret x, g)"

definition nbind :: "('g, 'a) node \<Rightarrow> ('a \<Rightarrow> ('g, 'b) node) \<Rightarrow> ('g, 'b) node" where
  "nbind m f g = (case m g of None \<Rightarrow> None
     | Some (Ret x, g') \<Rightarrow> f x g'
     | Some (Throw e, g') \<Rightarrow> Some (Throw e, g')
     | Some (Undefined u, g') \<Rightarrow> Some (Undefined u, g'))"

definition nread :: "('g \<Rightarrow> exn + 'a) \<Rightarrow> ('g, 'a) node" where
  "nread r g = (case r g of Inl e \<Rightarrow> Some (Throw e, g) | Inr x \<Rightarrow> Some (Ret x, g))"

definition nwrite :: "('g \<Rightarrow> exn + ('a \<times> 'g)) \<Rightarrow> ('g, 'a) node" where
  "nwrite w g = (case w g of Inl e \<Rightarrow> Some (Throw e, g) | Inr (x, g') \<Rightarrow> Some (Ret x, g'))"

text \<open>What a block run depends on: the machine's and the hash parameters, the database, the chain
  position and the coins view.\<close>

record 'db block_env =
  be_vm :: vm_env
  be_crypto :: crypto
  be_ldb :: "'db leveldb"
  be_nHeight :: int
  be_nTime :: u32
  be_params_start :: int
  be_global_start :: int
  be_view :: "out_point \<rightharpoonup> coin"

definition contract_ctx :: "'db block_env \<Rightarrow> transaction \<Rightarrow> tx_out \<Rightarrow> bytes \<Rightarrow> contract_params \<Rightarrow> bytes \<Rightarrow> bytes
    \<Rightarrow> 'db pcontractdb vm_context" where
  "contract_ctx env tx out contractAddr p data code =
    (let senderAddr = GetSenderAddress (be_crypto env) tx (be_view env) in
     \<lparr>contractAddress = contractAddr, callerAddress = senderAddr, originAddress = senderAddr,
      callData = data, ctx_code = code, gasLimit = cp_gasLimit p, ctx_value = word_of_int (nValue out),
      blockNumber = word_of_int (be_nHeight env), timestamp = ucast (be_nTime env), gasPrice = cp_gasPrice p,
      ctx_storage = Some (BlockContractStorage (be_ldb env) contractAddr), readOnly = False\<rparr>)"

definition deployed_code :: "bytes \<Rightarrow> execution_result \<Rightarrow> bytes" where
  "deployed_code initCode result =
     (if er_success result \<and> er_output result \<noteq> [] then er_output result else initCode)"

text \<open>The branch for \<open>OP_CREATE\<close>; false is the \<open>continue\<close> after a script that does not parse.\<close>

definition exec_create :: "'db block_env \<Rightarrow> transaction \<Rightarrow> nat \<Rightarrow> tx_out \<Rightarrow> ('db pcontractdb, bool) node" where
  "exec_create env tx i out = (case ParseContractScript (scriptPubKey out) True of None \<Rightarrow> nret False
     | Some p \<Rightarrow>
       let contractAddr = CalculateContractAddress (be_crypto env) (tx_GetHash (be_crypto env) tx) (of_nat i);
           initCode = cp_data p
       in nbind (Execute (be_vm env) (contract_ctx env tx out contractAddr p [] initCode)) (\<lambda>result.
          nbind (nwrite (SetContractCode (be_ldb env) contractAddr (deployed_code initCode result))) (\<lambda>stored.
          nret True)))"

definition exec_call :: "'db block_env \<Rightarrow> transaction \<Rightarrow> tx_out \<Rightarrow> ('db pcontractdb, unit) node" where
  "exec_call env tx out = (case ParseContractScript (scriptPubKey out) False of None \<Rightarrow> nret ()
     | Some p \<Rightarrow>
       let contractAddr = cp_contractAddr p in
       nbind (nread (ContractExists (be_ldb env) contractAddr)) (\<lambda>ex.
       if \<not> ex then nret ()
       else nbind (nread (GetContractCode (be_ldb env) contractAddr)) (\<lambda>code.
         if code = [] then nret ()
         else nbind (Execute (be_vm env) (contract_ctx env tx out contractAddr p (cp_data p) code)) (\<lambda>result.
           nret ()))))"

definition exec_output :: "'db block_env \<Rightarrow> transaction \<Rightarrow> nat \<Rightarrow> tx_out \<Rightarrow> ('db pcontractdb, unit) node" where
  "exec_output env tx i out =
     nbind (if HasOpCreate (scriptPubKey out) then exec_create env tx i out else nret True) (\<lambda>go.
     if go \<and> HasOpCall (scriptPubKey out) then exec_call env tx out else nret ())"

fun exec_outputs :: "'db block_env \<Rightarrow> transaction \<Rightarrow> nat \<Rightarrow> tx_out list \<Rightarrow> ('db pcontractdb, unit) node" where
  "exec_outputs env tx i [] = nret ()" |
  "exec_outputs env tx i (out # outs) = nbind (exec_output env tx i out) (\<lambda>_. exec_outputs env tx (Suc i) outs)"

fun exec_txs :: "'db block_env \<Rightarrow> transaction list \<Rightarrow> ('db pcontractdb, verdict) node" where
  "exec_txs env [] = nret Valid" |
  "exec_txs env (tx # txs) =
    (if \<not> HasContractOps tx then exec_txs env txs
     else case CheckContractTx (be_params_start env) (be_global_start env) tx (be_nHeight env) of
       Valid \<Rightarrow> nbind (exec_outputs env tx 0 (vout tx)) (\<lambda>_. exec_txs env txs)
     | v \<Rightarrow> nret v)"

definition flush_contracts :: "'db leveldb \<Rightarrow> 'db pcontractdb \<Rightarrow> exn + (unit \<times> 'db pcontractdb)" where
  "flush_contracts ldb g = (case g of None \<Rightarrow> Inr ((), g)
     | Some db \<Rightarrow> (case ContractDB_Flush ldb db of Inl e \<Rightarrow> Inl e | Inr db' \<Rightarrow> Inr ((), Some db')))"

definition ExecuteBlockContracts :: "'db block_env \<Rightarrow> transaction list \<Rightarrow> ('db pcontractdb, verdict) node" where
  "ExecuteBlockContracts env vtx =
    (if \<not> IsEVMEnabled (be_nHeight env) (be_params_start env) (be_global_start env) then nret Valid
     else nbind (exec_txs env vtx) (\<lambda>v.
       if v \<noteq> Valid then nret v
       else nbind (nwrite (flush_contracts (be_ldb env))) (\<lambda>_. nret Valid)))"

end
