(* ===== verification/Contract_Safety.thy ===== *)
theory Contract_Safety
  imports Contract
begin

text \<open>
  Properties of the contract bridge: what the wallet's script builders write is what the block
  processor parses, blocks change only the accounts they name, the contract state keeps its types,
  and when the block loop ends.
\<close>

unbundle bit_operations_syntax

subsection \<open>Scripts built by the wallet are parsed back\<close>

lemma parse_u64_value: "unat (parse_u64 item) = le_val (take 8 item)"
  using set_vch_fold [of "min (length item) 8" item] unfolding parse_u64_def by (simp add: min_def split: if_splits)

lemma parse_loop_Nil [simp]: "parse_loop items [] = Some items"
  by (simp add: parse_loop.simps)

lemma parse_loop_stop: "opc = OP_CREATE \<or> opc = OP_CALL \<Longrightarrow> parse_loop items (opc # rest) = Some items"
  by (auto simp: parse_loop.simps GetOp2.simps(2))

text \<open>A pushed byte vector comes back, an empty one as a single zero byte.\<close>

definition pushed :: "bytes \<Rightarrow> bytes" where
  "pushed b = (if b = [] then [0] else b)"

lemma parse_loop_push:
  assumes "length b < 2 ^ 32"
  shows "parse_loop items (push_data b @ rest) = parse_loop (items @ [pushed b]) rest"
proof -
  have "push_data b \<noteq> []" by (simp add: push_data_def)
  moreover have "push_opcode b \<noteq> OP_CREATE" "push_opcode b \<noteq> OP_CALL"
    using push_opcode_le [OF assms] by auto
  moreover have "parsed_item (push_opcode b) b = [pushed b]"
    by (auto simp: parsed_item_def pushed_def push_opcode_def)
  ultimately show ?thesis
    by (subst parse_loop.simps) (simp add: GetOp2_push_data [OF assms])
qed

lemma parse_number:
  assumes "0 \<le> n" and "n < 2 ^ 63"
  shows "length (ScriptNum_serialize n) \<le> 8" and "uint (parse_u64 (pushed (ScriptNum_serialize n))) = n"
proof -
  let ?v = "ScriptNum_serialize n"
  show l: "length ?v \<le> 8" using length_serialize [of n 8] assms by simp
  have nv: "num_val ?v = n" using serialize_properties(1) [of n] assms by simp
  have "int (le_val ?v) = n"
  proof (cases "?v \<noteq> [] \<and> bit (last ?v) 7")
    case True
    then have "- int (le_val (butlast ?v @ [take_bit 7 (last ?v)])) = n" using nv by (simp add: num_val_def)
    with assms(1) have z: "n = 0" by linarith
    have "?v = []" unfolding z by (simp add: ScriptNum_serialize_def)
    with True show ?thesis by simp
  next
    case False
    then show ?thesis using nv by (auto simp: num_val_def split: if_splits)
  qed
  moreover have "le_val (take 8 (pushed ?v)) = le_val ?v" using l by (simp add: pushed_def)
  ultimately show "uint (parse_u64 (pushed ?v)) = n" by (metis parse_u64_value uint_nat)
qed

lemma parse_number_1: "ScriptNum_serialize 1 = [1]"
  by (simp add: ScriptNum_serialize_def serialize_loop.simps)

lemma Find_push:
  assumes "length b < 2 ^ 32" and "OP_PUSHDATA4 < opc"
  shows "Find opc (push_data b @ rest) = Find opc rest"
proof -
  have "push_opcode b \<noteq> opc" using push_opcode_le [OF assms(1)] assms(2) by auto
  then show ?thesis
    unfolding Find_count by (subst instructions.simps) (simp add: GetOp2_push_data [OF assms(1)] split: prod.splits)
qed

lemma Find_last: "OP_PUSHDATA4 < opc \<Longrightarrow> Find op [opc] = (if op = opc then 1 else 0)"
  by (simp add: Find_count instructions.simps [of "[opc]"] GetOp2_opcode)

lemma contract_scripts_parsed:
  assumes "unat gl < 2 ^ 63" and "0 \<le> gp" and "gp < 2 ^ 63" and "length dat < 2 ^ 32" and "length addr = 20"
  shows "HasOpCreate (create_script gl gp dat) \<and> HasOpCall (call_script gl gp dat addr) \<and>
    ParseContractScript (create_script gl gp dat) True =
      Some \<lparr>cp_version = 1, cp_gasLimit = gl, cp_gasPrice = word_of_int gp,
            cp_data = (if dat = [] then [0] else dat), cp_contractAddr = []\<rparr> \<and>
    ParseContractScript (call_script gl gp dat addr) False =
      Some \<lparr>cp_version = 1, cp_gasLimit = gl, cp_gasPrice = word_of_int gp,
            cp_data = (if dat = [] then [0] else dat), cp_contractAddr = addr\<rparr>"
proof -
  have "int (unat gl) < int (2 ^ 63)" using assms(1) by (simp only: of_nat_less_iff)
  then have gl: "sint gl = uint gl" "uint gl < 2 ^ 63" "0 \<le> uint gl" using sint_of_unat [OF assms(1)] by simp_all
  note L = parse_number(1) and P = parse_number(2)
  have len: "length (ScriptNum_serialize 1) < 2 ^ 32" "length (ScriptNum_serialize (uint gl)) < 2 ^ 32"
    "length (ScriptNum_serialize gp) < 2 ^ 32" "length addr < 2 ^ 32"
    using L [OF gl(3,2)] L [OF assms(2,3)] assms(5) by (simp_all add: parse_number_1)
  have u: "parse_u64 (pushed (ScriptNum_serialize (uint gl))) = gl"
    "parse_u64 (pushed (ScriptNum_serialize gp)) = word_of_int gp"
    using P [OF gl(3,2)] P [OF assms(2,3)] by (metis word_of_int_uint)+
  have v: "pushed [1] = [1]" "pushed addr = addr" using assms(5) by (auto simp: pushed_def)
  have "HasOpCreate (create_script gl gp dat)" "HasOpCall (call_script gl gp dat addr)"
    unfolding HasOpCreate_def HasOpCall_def create_script_def call_script_def gl(1)
    using len assms(4) by (simp_all add: Find_push Find_last)
  moreover have "parse_loop [] (create_script gl gp dat) =
      Some [[1], pushed (ScriptNum_serialize (uint gl)), pushed (ScriptNum_serialize gp), pushed dat]"
    unfolding create_script_def gl(1) using len assms(4) v
    by (simp add: parse_loop_push parse_loop_stop parse_number_1)
  moreover have "parse_loop [] (call_script gl gp dat addr) =
      Some [[1], pushed (ScriptNum_serialize (uint gl)), pushed (ScriptNum_serialize gp), pushed dat, addr]"
    unfolding call_script_def gl(1) using len assms(4) v
    by (simp add: parse_loop_push parse_loop_stop parse_number_1)
  ultimately show ?thesis
    unfolding ParseContractScript_def using u assms(5) by (simp add: pushed_def [of dat])
qed

text \<open>C39. The block processor reads back what the wallet writes: from the script that
  \<open>createcontract\<close> builds it parses version 1, the gas limit, the gas price and the bytecode, and
  from the script of \<open>sendtocontract\<close> also the contract's address, for gas amounts below
  \<open>2 ^ 63\<close>; both scripts are recognised as contract outputs.  Empty call data is the exception: it
  is pushed as \<open>OP_0\<close> and read back as one zero byte.\<close>

theorem contract_script_roundtrip:
  assumes "unat gl < 2 ^ 63" and "0 \<le> gp" and "gp < 2 ^ 63" and "length dat < 2 ^ 32" and "length addr = 20"
  shows "HasOpCreate (create_script gl gp dat) \<and> HasOpCall (call_script gl gp dat addr) \<and>
    ParseContractScript (create_script gl gp dat) True =
      Some \<lparr>cp_version = 1, cp_gasLimit = gl, cp_gasPrice = word_of_int gp,
            cp_data = (if dat = [] then [0] else dat), cp_contractAddr = []\<rparr> \<and>
    ParseContractScript (call_script gl gp dat addr) False =
      Some \<lparr>cp_version = 1, cp_gasLimit = gl, cp_gasPrice = word_of_int gp,
            cp_data = (if dat = [] then [0] else dat), cp_contractAddr = addr\<rparr>"
  by (rule contract_scripts_parsed [OF assms])

theorem contract_script_roundtrip_witness:
  "ParseContractScript (create_script 250000 40 [0x60, 0x00]) True =
     Some \<lparr>cp_version = 1, cp_gasLimit = 250000, cp_gasPrice = 40, cp_data = [0x60, 0x00], cp_contractAddr = []\<rparr>"
  using contract_script_roundtrip [of 250000 40 "[0x60, 0x00]" "replicate 20 1"] by simp

subsection \<open>The caller of a contract\<close>


lemma P2PKH_no_contract:
  assumes "length h = 20" and "s = GetScriptForDestination (CKeyID h)"
  shows "\<not> HasOpCreate s" "\<not> HasOpCall s"
proof -
  have "fst (instructions s) = [(OP_DUP, []), (OP_HASH160, []), (20, h), (OP_EQUALVERIFY, []), (OP_CHECKSIG, [])]"
    using assms GetOp2_push_data [of h "[OP_EQUALVERIFY, OP_CHECKSIG]"]
    by (simp add: instructions.simps GetOp2_opcode push_opcode_def)
  then show "\<not> HasOpCreate s" "\<not> HasOpCall s" by (simp_all add: HasOpCreate_def HasOpCall_def Find_count)
qed

lemma sender_from_outputs_first:
  assumes "length h = 20" and "scriptPubKey chg = GetScriptForDestination (CKeyID h)"
    and "\<forall>x \<in> set pre. HasOpCreate (scriptPubKey x) \<or> HasOpCall (scriptPubKey x) \<or> fst (snd (Solver (scriptPubKey x))) \<noteq> TX_PUBKEYHASH"
  shows "sender_from_outputs (pre @ chg # outs) = Some h"
  using assms(3)
proof (induction pre)
  case Nil
  then show ?case using assms(1,2) P2PKH_no_contract [OF assms(1,2)] Solver_P2PKH [OF assms(1)] by simp
next
  case (Cons x pre)
  then show ?case by (auto split: prod.splits)
qed

text \<open>C40. The caller a contract sees is not authenticated: whatever the inputs of a transaction are, if
  an output pays to the public-key hash \<open>h\<close> and every output before it is a contract output or is not
  classified as paying to a public-key hash, then \<open>h\<close> is passed to the contract as its caller and
  origin.\<close>

theorem sender_is_chosen_by_output:
  assumes "\<not> IsCoinBase tx" and "vin tx \<noteq> []" and "length h = 20"
    and "vout tx = pre @ chg # outs" and "scriptPubKey chg = GetScriptForDestination (CKeyID h)"
    and "\<forall>x \<in> set pre. HasOpCreate (scriptPubKey x) \<or> HasOpCall (scriptPubKey x) \<or> fst (snd (Solver (scriptPubKey x))) \<noteq> TX_PUBKEYHASH"
  shows "GetSenderAddress cr tx view = h \<and>
    callerAddress (contract_ctx (env\<lparr>be_crypto := cr, be_view := view\<rparr>) tx out addr p dat code) = h \<and>
    originAddress (contract_ctx (env\<lparr>be_crypto := cr, be_view := view\<rparr>) tx out addr p dat code) = h"
proof -
  have "sender_from_outputs (vout tx) = Some h"
    using sender_from_outputs_first [OF assms(3,5,6)] assms(4) by simp
  then have "GetSenderAddress cr tx view = h" for view using assms(1,2) by (simp add: GetSenderAddress_def)
  then show ?thesis by (simp add: contract_ctx_def)
qed

theorem sender_is_chosen_by_output_witness:
  "GetSenderAddress const_crypto
     (sample_tx\<lparr>vout := [\<lparr>nValue = 1, scriptPubKey = create_script 250000 40 [0x60, 0x00], nRounds = - 10\<rparr>,
        \<lparr>nValue = 1, scriptPubKey = GetScriptForDestination (CKeyID (replicate 20 7)), nRounds = - 10\<rparr>]\<rparr>)
     Map.empty = replicate 20 7"
proof -
  have "replicate 32 1 \<noteq> replicate 32 (0 :: byte)" by (simp add: numeral_eq_Suc)
  then have cb: "\<not> IsCoinBase (sample_tx\<lparr>vout := vs\<rparr>)" for vs
    by (simp add: IsCoinBase_def sample_tx_def OutPoint_IsNull_def)
  have "HasOpCreate (create_script 250000 40 [0x60, 0x00])"
    using contract_scripts_parsed [of 250000 40 "[0x60, 0x00]" "replicate 20 1"] by simp
  then show ?thesis
    by (intro sender_is_chosen_by_output [where
          pre = "[\<lparr>nValue = 1, scriptPubKey = create_script 250000 40 [0x60, 0x00], nRounds = - 10\<rparr>]" and
          chg = "\<lparr>nValue = 1, scriptPubKey = GetScriptForDestination (CKeyID (replicate 20 7)), nRounds = - 10\<rparr>" and
          outs = "[]", THEN conjunct1] cb) (simp_all add: sample_tx_def)
qed

subsection \<open>Effects of a block on the contract state\<close>

text \<open>A step of the block loop has effects in \<open>R\<close> if every run of it that returns relates the state
  before to the state after.\<close>

definition effects :: "('g \<Rightarrow> 'g \<Rightarrow> bool) \<Rightarrow> ('g, 'a) node \<Rightarrow> bool" where
  "effects R m \<longleftrightarrow> (\<forall>g x g'. m g = Some (Ret x, g') \<longrightarrow> R g g')"

lemma effectsI: "(\<And>g x g'. m g = Some (Ret x, g') \<Longrightarrow> R g g') \<Longrightarrow> effects R m"
  by (simp add: effects_def)

lemma nbind_Ret:
  "nbind m f g = Some (Ret y, g'') \<longleftrightarrow> (\<exists>x g'. m g = Some (Ret x, g') \<and> f x g' = Some (Ret y, g''))"
  by (auto simp: nbind_def split: option.splits SimpleVM.outcome.splits)

locale effect_order =
  fixes R :: "'g \<Rightarrow> 'g \<Rightarrow> bool"
  assumes R_refl: "R g g" and R_trans: "R a b \<Longrightarrow> R b c \<Longrightarrow> R a c"
begin

lemma effects_ret: "effects R (nret x)"
  by (simp add: effects_def nret_def R_refl)

lemma effects_read: "effects R (nread r)"
  by (auto simp: effects_def nread_def R_refl split: sum.splits)

lemma effects_bind:
  "effects R m \<Longrightarrow> (\<And>x g g'. m g = Some (Ret x, g') \<Longrightarrow> effects R (f x)) \<Longrightarrow> effects R (nbind m f)"
  unfolding effects_def nbind_Ret by (meson R_trans)

lemma effects_Execute:
  assumes "ctx_storage ctx = Some io"
    and "\<And>k v g g'. length k = 32 \<Longrightarrow> length v = 32 \<Longrightarrow> setStorage io k v g = Inr g' \<Longrightarrow> R g g'"
  shows "effects R (Execute env ctx)"
proof (rule effectsI)
  fix g r g' assume "Execute env ctx g = Some (Ret r, g')"
  then have "store_reach ctx g g'" by (rule Execute_store)
  then show "R g g'"
    by (induction rule: store_reach.induct) (use assms R_refl R_trans in auto)
qed

end

definition new_address :: "'db block_env \<Rightarrow> transaction \<Rightarrow> nat \<Rightarrow> bytes" where
  "new_address env tx i = CalculateContractAddress (be_crypto env) (tx_GetHash (be_crypto env) tx) (of_nat i)"

text \<open>What the block loop asks of a preorder on contract states: it holds across each of the four
  kinds of database update the loop makes.\<close>

locale contract_effects = effect_order R for R :: "'db pcontractdb \<Rightarrow> 'db pcontractdb \<Rightarrow> bool" +
  fixes env :: "'db block_env" and vtx :: "transaction list"
  assumes store_call: "tx \<in> set vtx \<Longrightarrow> out \<in> set (vout tx) \<Longrightarrow> HasOpCall (scriptPubKey out) \<Longrightarrow>
      ParseContractScript (scriptPubKey out) False = Some p \<Longrightarrow> length k = 32 \<Longrightarrow> length v = 32 \<Longrightarrow>
      SetContractStorage (be_ldb env) (cp_contractAddr p) k v g = Inr (b, g') \<Longrightarrow> R g g'"
    and store_create: "tx \<in> set vtx \<Longrightarrow> i < length (vout tx) \<Longrightarrow> HasOpCreate (scriptPubKey (vout tx ! i)) \<Longrightarrow>
      length k = 32 \<Longrightarrow> length v = 32 \<Longrightarrow>
      SetContractStorage (be_ldb env) (new_address env tx i) k v g = Inr (b, g') \<Longrightarrow> R g g'"
    and deploy: "tx \<in> set vtx \<Longrightarrow> i < length (vout tx) \<Longrightarrow> HasOpCreate (scriptPubKey (vout tx ! i)) \<Longrightarrow>
      ParseContractScript (scriptPubKey (vout tx ! i)) True = Some p \<Longrightarrow>
      code = cp_data p \<or> (code \<noteq> [] \<and> length code \<le> 1048576) \<Longrightarrow>
      SetContractCode (be_ldb env) (new_address env tx i) code g = Inr (b, g') \<Longrightarrow> R g g'"
    and flush: "flush_contracts (be_ldb env) g = Inr (u, g') \<Longrightarrow> R g g'"
begin

lemma effects_write: "(\<And>g x g'. w g = Inr (x, g') \<Longrightarrow> R g g') \<Longrightarrow> effects R (nwrite w)"
  by (auto simp: effects_def nwrite_def split: sum.splits)

lemma effects_contract:
  assumes "\<And>k v g b g'. length k = 32 \<Longrightarrow> length v = 32 \<Longrightarrow> SetContractStorage (be_ldb env) addr k v g = Inr (b, g') \<Longrightarrow> R g g'"
  shows "effects R (Execute vm (contract_ctx env tx out addr p dat code))"
proof (rule effects_Execute)
  show "ctx_storage (contract_ctx env tx out addr p dat code) = Some (BlockContractStorage (be_ldb env) addr)"
    by (simp add: contract_ctx_def Let_def)
  fix k v g g' assume "length k = 32" "length v = 32" and s: "setStorage (BlockContractStorage (be_ldb env) addr) k v g = Inr g'"
  then show "R g g'"
    using assms by (cases "SetContractStorage (be_ldb env) addr k v g") (auto simp: BlockContractStorage_def)
qed

lemma effects_create:
  assumes "tx \<in> set vtx" "i < length (vout tx)" "HasOpCreate (scriptPubKey (vout tx ! i))"
  shows "effects R (exec_create env tx i (vout tx ! i))"
proof (cases "ParseContractScript (scriptPubKey (vout tx ! i)) True")
  case None
  then show ?thesis by (simp add: exec_create_def effects_ret)
next
  case (Some p)
  have "deployed_code (cp_data p) r = cp_data p \<or>
      (deployed_code (cp_data p) r \<noteq> [] \<and> length (deployed_code (cp_data p) r) \<le> 1048576)"
    if "Execute vm ctx g = Some (Ret r, g')" for vm ctx r and g g' :: "'db pcontractdb"
    using Execute_output_size [OF that] by (simp add: deployed_code_def)
  then have "effects R (nwrite (SetContractCode (be_ldb env) (new_address env tx i) (deployed_code (cp_data p) r)))"
    if "Execute vm ctx g = Some (Ret r, g')" for vm ctx r and g g' :: "'db pcontractdb"
    using that deploy [OF assms Some] by (blast intro: effects_write)
  moreover have "effects R (Execute (be_vm env) (contract_ctx env tx out (new_address env tx i) p dat code))" for out dat code
    using store_create [OF assms] by (rule effects_contract)
  ultimately show ?thesis
    by (auto simp: exec_create_def Some Let_def new_address_def [symmetric] intro!: effects_bind effects_ret)
qed

lemma effects_call:
  assumes "tx \<in> set vtx" "out \<in> set (vout tx)" "HasOpCall (scriptPubKey out)"
  shows "effects R (exec_call env tx out)"
proof (cases "ParseContractScript (scriptPubKey out) False")
  case None
  then show ?thesis by (simp add: exec_call_def effects_ret)
next
  case (Some p)
  have "effects R (Execute (be_vm env) (contract_ctx env tx out (cp_contractAddr p) p dat code))" for dat code
    using store_call [OF assms Some] by (rule effects_contract)
  then show ?thesis
    by (auto simp: exec_call_def Some Let_def intro!: effects_bind effects_ret effects_read)
qed

lemma effects_output:
  "tx \<in> set vtx \<Longrightarrow> i < length (vout tx) \<Longrightarrow> effects R (exec_output env tx i (vout tx ! i))"
  unfolding exec_output_def by (auto intro!: effects_bind effects_ret effects_create effects_call)

lemma effects_outputs:
  "tx \<in> set vtx \<Longrightarrow> outs = drop i (vout tx) \<Longrightarrow> effects R (exec_outputs env tx i outs)"
proof (induction outs arbitrary: i)
  case (Cons out outs)
  have i: "i < length (vout tx)" using Cons.prems(2) by (rule_tac ccontr) simp
  have o: "out = vout tx ! i" "outs = drop (Suc i) (vout tx)"
    using Cons.prems(2) Cons_nth_drop_Suc [OF i] by (metis list.inject)+
  have "effects R (exec_output env tx i out)" using effects_output [OF Cons.prems(1) i] o by simp
  moreover have "effects R (exec_outputs env tx (Suc i) outs)" using Cons.IH [of "Suc i"] Cons.prems(1) o by simp
  ultimately show ?case by (auto intro!: effects_bind)
qed (simp add: effects_ret)

lemma effects_txs: "set txs \<subseteq> set vtx \<Longrightarrow> effects R (exec_txs env txs)"
proof (induction txs)
  case (Cons tx txs)
  then show ?case
    using effects_outputs [of tx "vout tx" 0] by (auto intro!: effects_bind effects_ret split: verdict.split)
qed (simp add: effects_ret)

lemma effects_block: "effects R (ExecuteBlockContracts env vtx)"
  unfolding ExecuteBlockContracts_def
  using effects_txs [of vtx] flush by (auto intro!: effects_bind effects_ret effects_write)

end

text \<open>The accounts of a contract state, and that its database is in order.\<close>

definition accounts_of :: "'db leveldb \<Rightarrow> 'db pcontractdb \<Rightarrow> accounts" where
  "accounts_of ldb g = (case g of
       None \<Rightarrow> \<lparr>acc_code = Map.empty, acc_storage = Map.empty, acc_nonce = Map.empty, acc_balance = Map.empty\<rparr>
     | Some db \<Rightarrow> abs_accounts ldb db)"

definition db_ok :: "('db \<Rightarrow> bool) \<Rightarrow> 'db pcontractdb \<Rightarrow> bool" where
  "db_ok healthy g \<longleftrightarrow> (case g of None \<Rightarrow> True | Some db \<Rightarrow> healthy (pdb db))"

definition frame :: "'db leveldb \<Rightarrow> ('db \<Rightarrow> bool) \<Rightarrow> bytes set \<Rightarrow> bytes set \<Rightarrow> 'db pcontractdb \<Rightarrow> 'db pcontractdb \<Rightarrow> bool" where
  "frame ldb healthy C T g g' \<longleftrightarrow> (db_ok healthy g \<longrightarrow> db_ok healthy g' \<and>
     (\<forall>a. a \<notin> C \<longrightarrow> acc_code (accounts_of ldb g') a = acc_code (accounts_of ldb g) a) \<and>
     (\<forall>a k. a \<notin> T \<longrightarrow> acc_storage (accounts_of ldb g') (a, k) = acc_storage (accounts_of ldb g) (a, k)))"

text \<open>The types of the contract state: code is not empty, storage maps words to words.\<close>

definition typed_accounts :: "accounts \<Rightarrow> bool" where
  "typed_accounts s \<longleftrightarrow> (\<forall>a c. acc_code s a = Some c \<longrightarrow> c \<noteq> []) \<and>
     (\<forall>a k v. acc_storage s (a, k) = Some v \<longrightarrow> length k = 32 \<and> length v = 32)"

definition typed :: "'db leveldb \<Rightarrow> ('db \<Rightarrow> bool) \<Rightarrow> 'db pcontractdb \<Rightarrow> bool" where
  "typed ldb healthy g \<longleftrightarrow> db_ok healthy g \<and> typed_accounts (accounts_of ldb g)"

lemma typed_accounts_exec:
  "typed_accounts s \<Longrightarrow> length k = 32 \<Longrightarrow> length v = 32 \<Longrightarrow> typed_accounts (spec_exec (WStorage a k v) s)"
  "typed_accounts s \<Longrightarrow> c \<noteq> [] \<Longrightarrow> typed_accounts (spec_exec (WCode a c) s)"
  unfolding typed_accounts_def by (simp_all split: if_splits)

definition created :: "'db block_env \<Rightarrow> transaction list \<Rightarrow> bytes set" where
  "created env vtx = {new_address env tx i | tx i. tx \<in> set vtx \<and> i < length (vout tx) \<and> HasOpCreate (scriptPubKey (vout tx ! i))}"

definition called :: "transaction list \<Rightarrow> bytes set" where
  "called vtx = {cp_contractAddr p | tx out p. tx \<in> set vtx \<and> out \<in> set (vout tx) \<and> HasOpCall (scriptPubKey out) \<and>
     ParseContractScript (scriptPubKey out) False = Some p}"

lemma GetOp2_data_le: "GetOp2 pc = (True, opc, d, pc') \<Longrightarrow> length d \<le> length pc"
  by (cases pc) (auto simp: GetOp2.simps(2) GetOp2_operand_def split: if_splits)

lemma parse_loop_items:
  "parse_loop items scr = Some items' \<Longrightarrow> b \<in> set items' \<Longrightarrow> b \<in> set items \<or> (b \<noteq> [] \<and> length b \<le> max 1 (length scr))"
proof (induction items scr rule: parse_loop.induct)
  case (1 items pc)
  obtain ok opc d pc' where g: "GetOp2 pc = (ok, opc, d, pc')" by (cases "GetOp2 pc") auto
  show ?case
  proof (cases "pc = [] \<or> \<not> ok \<or> opc = OP_CREATE \<or> opc = OP_CALL")
    case True
    then show ?thesis using "1.prems" g by (subst (asm) parse_loop.simps) (auto split: if_splits)
  next
    case False
    then have "parse_loop (items @ parsed_item opc d) pc' = Some items'"
      using "1.prems"(1) g by (subst (asm) parse_loop.simps) simp
    with "1.IH" [OF _ g [symmetric]] False "1.prems"(2)
    have "b \<in> set (items @ parsed_item opc d) \<or> (b \<noteq> [] \<and> length b \<le> max 1 (length pc'))" by auto
    moreover have "length pc' < length pc" "length d \<le> length pc"
      using g False GetOp2_decreases [of pc opc d pc'] GetOp2_data_le [of pc opc d pc'] by auto
    ultimately show ?thesis by (auto simp: parsed_item_def split: if_splits)
  qed
qed

lemma ParseContractScript_data:
  assumes "ParseContractScript scr c = Some p"
  shows "cp_data p \<noteq> []" "length (cp_data p) \<le> max 1 (length scr)" "c \<or> length (cp_contractAddr p) = 20"
proof -
  obtain items where i: "parse_loop [] scr = Some items" "4 \<le> length items" "cp_data p = items ! 3"
    "c \<or> length (cp_contractAddr p) = 20"
    using assms by (auto simp: ParseContractScript_def Let_def split: option.splits if_splits)
  then have "items ! 3 \<in> set items" by simp
  from parse_loop_items [OF i(1) this] i show "cp_data p \<noteq> []" "length (cp_data p) \<le> max 1 (length scr)" "c \<or> length (cp_contractAddr p) = 20"
    by simp_all
qed

subsection \<open>A block over a healthy database\<close>

locale block_run = leveldb_backend ldb entries healthy
  for ldb :: "'db leveldb" and entries :: "'db \<Rightarrow> bytes \<rightharpoonup> bytes" and healthy :: "'db \<Rightarrow> bool" +
  fixes env :: "'db block_env" and vtx :: "transaction list"
  assumes env_ldb: "be_ldb env = ldb"
    and env_crypto: "crypto_wf (be_crypto env)"
    and script_sizes: "tx \<in> set vtx \<Longrightarrow> out \<in> set (vout tx) \<Longrightarrow> length (scriptPubKey out) \<le> MAX_SIZE"
begin

lemma new_address_valid: "valid_addr (new_address env tx i)"
  using env_crypto by (simp add: new_address_def CalculateContractAddress_def crypto_wf_def valid_addr_def)

lemma set_storage_accounts:
  assumes "db_ok healthy g" and "valid_addr a" and "length k = 32" and "length v = 32"
    and "SetContractStorage (be_ldb env) a k v g = Inr (b, g')"
  shows "db_ok healthy g' \<and> (accounts_of ldb g' = spec_exec (WStorage a k v) (accounts_of ldb g) \<or> accounts_of ldb g' = accounts_of ldb g)"
proof (cases g)
  case (Some db)
  with assms show ?thesis
    using db_exec_refines [of db "WStorage a k v"]
    by (auto simp: SetContractStorage_def env_ldb db_ok_def accounts_of_def valid_slot_def MAX_SIZE_def)
qed (use assms in \<open>auto simp: SetContractStorage_def\<close>)

lemma set_code_accounts:
  assumes "db_ok healthy g" and "valid_addr a" and "length c \<le> MAX_SIZE"
    and "SetContractCode (be_ldb env) a c g = Inr (b, g')"
  shows "db_ok healthy g' \<and> (accounts_of ldb g' = spec_exec (WCode a c) (accounts_of ldb g) \<or> accounts_of ldb g' = accounts_of ldb g)"
proof (cases g)
  case (Some db)
  with assms show ?thesis
    using db_exec_refines [of db "WCode a c"] by (auto simp: SetContractCode_def env_ldb db_ok_def accounts_of_def)
qed (use assms in \<open>auto simp: SetContractCode_def\<close>)

lemma flush_accounts:
  assumes "db_ok healthy g" and "flush_contracts (be_ldb env) g = Inr (u, g')"
  shows "db_ok healthy g' \<and> accounts_of ldb g' = accounts_of ldb g"
proof (cases g)
  case (Some db)
  with assms show ?thesis
    using db_exec_refines [of db Flush] by (auto simp: flush_contracts_def env_ldb db_ok_def accounts_of_def)
qed (use assms in \<open>auto simp: flush_contracts_def\<close>)

lemma deployed_size:
  assumes "tx \<in> set vtx" "i < length (vout tx)" "ParseContractScript (scriptPubKey (vout tx ! i)) True = Some p"
    "code = cp_data p \<or> code \<noteq> [] \<and> length code \<le> 1048576"
  shows "code \<noteq> []" "length code \<le> MAX_SIZE"
  using assms ParseContractScript_data [OF assms(3)] script_sizes [of tx "vout tx ! i"] by (auto simp: MAX_SIZE_def)

lemma called_valid: "ParseContractScript scr False = Some p \<Longrightarrow> valid_addr (cp_contractAddr p)"
  using ParseContractScript_data(3) [of scr False p] by (simp add: valid_addr_def)

end

sublocale block_run \<subseteq> fr: contract_effects "frame ldb healthy (created env vtx) (created env vtx \<union> called vtx)" env vtx
proof
  fix tx out p k v g b g'
  assume "tx \<in> set vtx" "out \<in> set (vout tx)" "HasOpCall (scriptPubKey out)"
    and p: "ParseContractScript (scriptPubKey out) False = Some p"
    and s: "length k = 32" "length v = 32" "SetContractStorage (be_ldb env) (cp_contractAddr p) k v g = Inr (b, g')"
  then have "cp_contractAddr p \<in> called vtx" by (auto simp: called_def)
  then show "frame ldb healthy (created env vtx) (created env vtx \<union> called vtx) g g'"
    using set_storage_accounts [OF _ called_valid [OF p] s] by (auto simp: frame_def)
next
  fix tx i k v g b g'
  assume "tx \<in> set vtx" "i < length (vout tx)" "HasOpCreate (scriptPubKey (vout tx ! i))"
    and s: "length k = 32" "length v = 32" "SetContractStorage (be_ldb env) (new_address env tx i) k v g = Inr (b, g')"
  then have "new_address env tx i \<in> created env vtx" by (auto simp: created_def)
  then show "frame ldb healthy (created env vtx) (created env vtx \<union> called vtx) g g'"
    using set_storage_accounts [OF _ new_address_valid s] by (auto simp: frame_def)
next
  fix tx i p code g b g'
  assume a: "tx \<in> set vtx" "i < length (vout tx)" "HasOpCreate (scriptPubKey (vout tx ! i))"
    "ParseContractScript (scriptPubKey (vout tx ! i)) True = Some p"
    "code = cp_data p \<or> code \<noteq> [] \<and> length code \<le> 1048576"
    and s: "SetContractCode (be_ldb env) (new_address env tx i) code g = Inr (b, g')"
  then have "new_address env tx i \<in> created env vtx" by (auto simp: created_def)
  then show "frame ldb healthy (created env vtx) (created env vtx \<union> called vtx) g g'"
    using set_code_accounts [OF _ new_address_valid deployed_size(2) [OF a(1,2,4,5)] s] by (auto simp: frame_def)
next
  fix g u g' assume "flush_contracts (be_ldb env) g = Inr (u, g')"
  then show "frame ldb healthy (created env vtx) (created env vtx \<union> called vtx) g g'"
    using flush_accounts by (auto simp: frame_def)
qed (auto simp: frame_def)

sublocale block_run \<subseteq> ty: contract_effects "\<lambda>g g'. typed ldb healthy g \<longrightarrow> typed ldb healthy g'" env vtx
proof
  fix tx out p k v g b g'
  assume p: "ParseContractScript (scriptPubKey out) False = Some p"
    and s: "length k = 32" "length v = 32" "SetContractStorage (be_ldb env) (cp_contractAddr p) k v g = Inr (b, g')"
  then show "typed ldb healthy g \<longrightarrow> typed ldb healthy g'"
    using set_storage_accounts [OF _ called_valid [OF p] s] typed_accounts_exec(1) [OF _ s(1,2)] unfolding typed_def by metis
next
  fix tx i k v g b g'
  assume s: "length k = 32" "length v = 32" "SetContractStorage (be_ldb env) (new_address env tx i) k v g = Inr (b, g')"
  then show "typed ldb healthy g \<longrightarrow> typed ldb healthy g'"
    using set_storage_accounts [OF _ new_address_valid s] typed_accounts_exec(1) [OF _ s(1,2)] unfolding typed_def by metis
next
  fix tx i p code g b g'
  assume a: "tx \<in> set vtx" "i < length (vout tx)" "HasOpCreate (scriptPubKey (vout tx ! i))"
    "ParseContractScript (scriptPubKey (vout tx ! i)) True = Some p"
    "code = cp_data p \<or> code \<noteq> [] \<and> length code \<le> 1048576"
    and s: "SetContractCode (be_ldb env) (new_address env tx i) code g = Inr (b, g')"
  then show "typed ldb healthy g \<longrightarrow> typed ldb healthy g'"
    using set_code_accounts [OF _ new_address_valid deployed_size(2) [OF a(1,2,4,5)] s] typed_accounts_exec(2) [OF _ deployed_size(1) [OF a(1,2,4,5)]]
    unfolding typed_def by metis
next
  fix g u g' assume "flush_contracts (be_ldb env) g = Inr (u, g')"
  then show "typed ldb healthy g \<longrightarrow> typed ldb healthy g'"
    using flush_accounts [of g u g'] by (auto simp: typed_def)
qed auto

context block_run
begin

lemmas frame_block = fr.effects_block

lemmas typed_block = ty.effects_block

end

subsection \<open>Reading through the accounts\<close>

context leveldb_backend
begin

lemma GetContractCode_accounts:
  assumes "db_ok healthy g" and "valid_addr a"
  shows "GetContractCode ldb a g = Inr (case acc_code (accounts_of ldb g) a of None \<Rightarrow> [] | Some c \<Rightarrow> c)"
  using assms
  by (cases g) (auto simp: GetContractCode_def accounts_of_def abs_accounts_def db_ok_def ReadCode_def answer_def
      DB_Read_healthy split: option.splits sum.splits)

lemma GetContractStorage_accounts:
  assumes "db_ok healthy g" and "valid_addr a" and "length k = 32"
  shows "GetContractStorage ldb a k g = Inr (case acc_storage (accounts_of ldb g) (a, k) of None \<Rightarrow> replicate 32 0 | Some v \<Rightarrow> v)"
proof -
  have "valid_slot k" using assms(3) by (simp add: valid_slot_def MAX_SIZE_def)
  then show ?thesis
    using assms
    by (cases g) (auto simp: GetContractStorage_def accounts_of_def abs_accounts_def db_ok_def ReadStorage_def answer_def
        DB_Read_healthy Let_def split: option.splits sum.splits)
qed

end

text \<open>A concrete node: an in-memory database and a block that deploys one contract.\<close>

definition demo_block_env :: "(bytes \<rightharpoonup> bytes) block_env" where
  "demo_block_env = \<lparr>be_vm = demo_env, be_crypto = const_crypto, be_ldb = mem_leveldb, be_nHeight = 5, be_nTime = 7,
     be_params_start = 1, be_global_start = 0, be_view = Map.empty\<rparr>"

definition contract_tx :: "script \<Rightarrow> transaction" where
  "contract_tx s = sample_tx\<lparr>vout := [\<lparr>nValue = 1, scriptPubKey = s, nRounds = - 10\<rparr>]\<rparr>"

interpretation demo: block_run mem_leveldb "\<lambda>db. db" "\<lambda>_. True" demo_block_env "[contract_tx (create_script 100 40 [0x00])]"
proof unfold_locales
  have "length (create_script 100 40 [0x00]) \<le> MAX_SIZE"
    using parse_number(1) [of 100] parse_number(1) [of 40]
    by (simp add: create_script_def push_data_def MAX_SIZE_def parse_number_1)
  then show "tx \<in> set [contract_tx (create_script 100 40 [0x00])] \<Longrightarrow> out \<in> set (vout tx) \<Longrightarrow> length (scriptPubKey out) \<le> MAX_SIZE"
    for tx out by (simp add: contract_tx_def)
qed (simp_all add: demo_block_env_def crypto_wf_const)

lemma demo_create: "HasOpCreate (create_script 100 40 [0x00])" "\<not> HasOpCall (create_script 100 40 [0x00])"
  "ParseContractScript (create_script 100 40 [0x00]) True =
     Some \<lparr>cp_version = 1, cp_gasLimit = 100, cp_gasPrice = 40, cp_data = [0x00], cp_contractAddr = []\<rparr>"
proof -
  show "HasOpCreate (create_script 100 40 [0x00])"
    "ParseContractScript (create_script 100 40 [0x00]) True =
     Some \<lparr>cp_version = 1, cp_gasLimit = 100, cp_gasPrice = 40, cp_data = [0x00], cp_contractAddr = []\<rparr>"
    using contract_scripts_parsed [of 100 40 "[0x00]" "replicate 20 1"] by simp_all
  have "length (ScriptNum_serialize 100) < 2 ^ 32" "length (ScriptNum_serialize 40) < 2 ^ 32"
    using parse_number(1) [of 100] parse_number(1) [of 40] by simp_all
  then show "\<not> HasOpCall (create_script 100 40 [0x00])"
    by (simp add: HasOpCall_def create_script_def Find_push parse_number_1 Find_last)
qed

lemma demo_not_call: "ParseContractScript (create_script 100 40 [0x00]) False = None"
proof -
  have "length (ScriptNum_serialize 100) < 2 ^ 32" "length (ScriptNum_serialize 40) < 2 ^ 32"
    using parse_number(1) [of 100] parse_number(1) [of 40] by simp_all
  then have "parse_loop [] (create_script 100 40 [0x00]) =
      Some [[1], pushed (ScriptNum_serialize 100), pushed (ScriptNum_serialize 40), pushed [0]]"
    by (simp add: create_script_def parse_loop_push parse_loop_stop parse_number_1 pushed_def [of "[1]"])
  then show ?thesis by (simp add: ParseContractScript_def)
qed

lemma demo_fields:
  "be_vm demo_block_env = demo_env" "be_ldb demo_block_env = mem_leveldb" "be_nHeight demo_block_env = 5"
  "be_params_start demo_block_env = 1" "be_global_start demo_block_env = 0"
  by (simp_all add: demo_block_env_def)

lemma demo_run:
  "\<exists>g'. ExecuteBlockContracts demo_block_env [contract_tx (create_script 100 40 [0x00])]
     (Some \<lparr>pdb = Map.empty, obfuscate_key = [3]\<rparr>) = Some (Ret Valid, g')"
proof -
  let ?g = "Some \<lparr>pdb = Map.empty :: bytes \<rightharpoonup> bytes, obfuscate_key = [3]\<rparr>"
  have "\<not> length (create_script 100 40 [0x00]) < 5" by (simp add: create_script_def push_data_def parse_number_1)
  then have c: "CheckContractTx 1 0 (contract_tx (create_script 100 40 [0x00])) 5 = Valid"
    using demo_create by (simp add: CheckContractTx_def IsEVMEnabled_def contract_tx_def Let_def)
  have x: "Execute demo_env (contract_ctx demo_block_env tx out addr \<lparr>cp_version = 1, cp_gasLimit = 100, cp_gasPrice = 40,
      cp_data = [0x00], cp_contractAddr = []\<rparr> [] [0x00]) ?g =
      Some (Ret \<lparr>er_success = True, er_output = [], er_gasUsed = 3, er_error = []\<rparr>, ?g)" for tx out addr
    by (simp add: vm_eval op_STOP_def contract_ctx_def Let_def)
  have w: "\<exists>g'. SetContractCode mem_leveldb a c ?g = Inr (True, Some g')" for a c
    by (auto simp: SetContractCode_def WriteCode_def DB_Write_def WriteBatch_def mem_leveldb_def Batch_Write_def CDBBatch_def Let_def)
  have f: "\<exists>g'. flush_contracts mem_leveldb (Some db) = Inr ((), g')" for db
    by (simp add: flush_contracts_def ContractDB_Flush_def DB_Sync_def WriteBatch_def mem_leveldb_def CDBBatch_def)
  have "HasContractOps (contract_tx (create_script 100 40 [0x00]))"
    using demo_create(1) by (simp add: HasContractOps_def contract_tx_def)
  note ops = this
  let ?a = "new_address demo_block_env (contract_tx (create_script 100 40 [0x00])) 0"
  obtain g1 where g1: "SetContractCode mem_leveldb ?a [0x00] ?g = Inr (True, Some g1)" using w by blast
  obtain g2 where g2: "flush_contracts mem_leveldb (Some g1) = Inr ((), g2)" using f by blast
  have "exec_create demo_block_env (contract_tx (create_script 100 40 [0x00])) 0
      \<lparr>nValue = 1, scriptPubKey = create_script 100 40 [0x00], nRounds = - 10\<rparr> ?g = Some (Ret True, Some g1)"
    unfolding exec_create_def Let_def new_address_def [symmetric]
    using x g1 by (simp add: demo_create(3) demo_fields nbind_def nwrite_def nret_def deployed_code_def)
  then have "exec_txs demo_block_env [contract_tx (create_script 100 40 [0x00])] ?g = Some (Ret Valid, Some g1)"
    using ops c demo_create(1,2)
    by (simp add: exec_output_def nbind_def nret_def demo_fields) (simp add: contract_tx_def exec_output_def nbind_def nret_def)
  then show ?thesis
    using g2 by (simp add: ExecuteBlockContracts_def nbind_def demo_fields IsEVMEnabled_def nwrite_def nret_def)
qed

text \<open>C6. A block changes only the accounts it names: an account that no contract-creating output of
  the block makes keeps its code, and one that is neither made nor called keeps every storage slot.\<close>

theorem block_contracts_isolated:
  assumes "block_run ldb entries healthy env vtx" and "db_ok healthy g"
    and "ExecuteBlockContracts env vtx g = Some (Ret v, g')" and "length a = 20"
  shows "(a \<notin> created env vtx \<longrightarrow> GetContractCode ldb a g' = GetContractCode ldb a g) \<and>
    (a \<notin> created env vtx \<union> called vtx \<longrightarrow>
      (\<forall>k. length k = 32 \<longrightarrow> GetContractStorage ldb a k g' = GetContractStorage ldb a k g))"
proof -
  have a: "valid_addr a" using assms(4) by (simp add: valid_addr_def)
  have b: "leveldb_backend ldb entries healthy" using assms(1) by (simp add: block_run_def)
  have "effects (frame ldb healthy (created env vtx) (created env vtx \<union> called vtx)) (ExecuteBlockContracts env vtx)"
    using block_run.frame_block [OF assms(1)] .
  then have "frame ldb healthy (created env vtx) (created env vtx \<union> called vtx) g g'"
    using assms(3) by (simp add: effects_def)
  then show ?thesis
    using assms(2) a leveldb_backend.GetContractCode_accounts [OF b] leveldb_backend.GetContractStorage_accounts [OF b]
    by (simp add: frame_def)
qed

theorem block_contracts_isolated_witness:
  "\<exists>g'. ExecuteBlockContracts demo_block_env [contract_tx (create_script 100 40 [0x00])]
      (Some \<lparr>pdb = Map.empty, obfuscate_key = [3]\<rparr>) = Some (Ret Valid, g') \<and>
    (replicate 20 9 \<notin> created demo_block_env [contract_tx (create_script 100 40 [0x00])] \<longrightarrow>
      GetContractCode mem_leveldb (replicate 20 9) g' =
      GetContractCode mem_leveldb (replicate 20 9) (Some \<lparr>pdb = Map.empty, obfuscate_key = [3]\<rparr>))"
proof -
  obtain g' where g': "ExecuteBlockContracts demo_block_env [contract_tx (create_script 100 40 [0x00])]
      (Some \<lparr>pdb = Map.empty, obfuscate_key = [3]\<rparr>) = Some (Ret Valid, g')" using demo_run by blast
  from block_contracts_isolated [OF demo.block_run_axioms _ this, of "replicate 20 9"] g' show ?thesis
    by (simp add: db_ok_def)
qed

text \<open>C16. The contract state keeps its types: if stored code is never empty and every storage slot
  maps a 32-byte word to a 32-byte word, the same holds after any block; in particular a contract
  that exists has code.\<close>

theorem contract_state_typed:
  assumes "block_run ldb entries healthy env vtx" and "typed ldb healthy g"
    and "ExecuteBlockContracts env vtx g = Some (Ret v, g')"
  shows "typed ldb healthy g'"
  using block_run.typed_block [OF assms(1)] assms(2,3) unfolding effects_def by blast

theorem contract_state_typed_witness:
  "\<exists>g'. ExecuteBlockContracts demo_block_env [contract_tx (create_script 100 40 [0x00])]
      (Some \<lparr>pdb = Map.empty, obfuscate_key = [3]\<rparr>) = Some (Ret Valid, g') \<and> typed mem_leveldb (\<lambda>_. True) g'"
proof -
  obtain g' where g': "ExecuteBlockContracts demo_block_env [contract_tx (create_script 100 40 [0x00])]
      (Some \<lparr>pdb = Map.empty, obfuscate_key = [3]\<rparr>) = Some (Ret Valid, g')" using demo_run by blast
  have "typed mem_leveldb (\<lambda>_. True) (Some \<lparr>pdb = Map.empty, obfuscate_key = [3]\<rparr>)"
    by (simp add: typed_def db_ok_def typed_accounts_def accounts_of_def abs_accounts_def ReadCode_def ReadStorage_def
        DB_Read_def ReadDataStream_def mem_leveldb_def answer_def Let_def)
  from contract_state_typed [OF demo.block_run_axioms this g'] g' show ?thesis by blast
qed

subsection \<open>When the block loop ends\<close>

text \<open>A step makes progress if from every state satisfying \<open>P\<close> it ends, without an exception, and
  returns only to states satisfying \<open>P\<close>.\<close>

definition progress :: "('g \<Rightarrow> bool) \<Rightarrow> ('g, 'a) node \<Rightarrow> bool" where
  "progress P m \<longleftrightarrow> (\<forall>g. P g \<longrightarrow> (\<exists>r g'. m g = Some (r, g') \<and> (\<forall>e. r \<noteq> Throw e) \<and> (\<forall>x. r = Ret x \<longrightarrow> P g')))"

lemma progress_ret: "progress P (nret x)"
  by (simp add: progress_def nret_def)

lemma progress_bind:
  assumes "progress P m" and "\<And>x g g'. m g = Some (Ret x, g') \<Longrightarrow> progress P (f x)"
  shows "progress P (nbind m f)"
  unfolding progress_def
proof (intro allI impI)
  fix g assume "P g"
  then obtain r g' where r: "m g = Some (r, g')" "\<And>e. r \<noteq> Throw e" "\<And>x. r = Ret x \<Longrightarrow> P g'"
    using assms(1) unfolding progress_def by blast
  show "\<exists>r g'. nbind m f g = Some (r, g') \<and> (\<forall>e. r \<noteq> Throw e) \<and> (\<forall>x. r = Ret x \<longrightarrow> P g')"
  proof (cases r)
    case (Ret x)
    then have "progress P (f x)" "P g'" using assms(2) r by auto
    then show ?thesis using r Ret by (simp add: nbind_def progress_def)
  qed (use r in \<open>simp_all add: nbind_def\<close>)
qed

text \<open>The gas limits that the outputs of a block ask for leave the 64-bit gas counter room.\<close>

definition gas_limits_ok :: "transaction list \<Rightarrow> bool" where
  "gas_limits_ok vtx \<longleftrightarrow> (\<forall>tx \<in> set vtx. \<forall>out \<in> set (vout tx). \<forall>c p.
     ParseContractScript (scriptPubKey out) c = Some p \<longrightarrow> unat (cp_gasLimit p) + 2195456 < 2 ^ 64)"

lemma Execute_progress:
  assumes "unat (gasLimit ctx) + 2195456 < 2 ^ 64" and "effects (\<lambda>g g'. P g \<longrightarrow> P g') (Execute env ctx)"
  shows "progress P (Execute env ctx)"
  unfolding progress_def
proof (intro allI impI)
  fix g assume "P g"
  have "gas_safe ctx" using assms(1) by (simp add: gas_safe_def MAX_MEMORY_COST_def)
  then have "\<exists>r. run_loop env ctx (init_vm g) = Some r"
    by (rule run_loop_terminates [OF _ vpost_init]) simp
  then obtain q s where "run_loop env ctx (init_vm g) = Some (q, s)" by auto
  then have "\<exists>r g'. Execute env ctx g = Some (r, g') \<and> (\<forall>e. r \<noteq> Throw e)"
    by (cases q) (simp_all add: Execute_def)
  then show "\<exists>r g'. Execute env ctx g = Some (r, g') \<and> (\<forall>e. r \<noteq> Throw e) \<and> (\<forall>x. r = Ret x \<longrightarrow> P g')"
    using assms(2) \<open>P g\<close> unfolding effects_def by blast
qed

context block_run
begin

lemma progress_contract:
  assumes "valid_addr addr" and "unat (cp_gasLimit p) + 2195456 < 2 ^ 64"
  shows "progress (db_ok healthy) (Execute (be_vm env) (contract_ctx env tx out addr p dat code))"
proof (rule Execute_progress)
  show "unat (gasLimit (contract_ctx env tx out addr p dat code)) + 2195456 < 2 ^ 64"
    using assms(2) by (simp add: contract_ctx_def Let_def)
  have eo: "effect_order (\<lambda>g g'. db_ok healthy g \<longrightarrow> db_ok healthy g')" by unfold_locales auto
  show "effects (\<lambda>g g'. db_ok healthy g \<longrightarrow> db_ok healthy g') (Execute (be_vm env) (contract_ctx env tx out addr p dat code))"
  proof (rule effect_order.effects_Execute [OF eo])
    show "ctx_storage (contract_ctx env tx out addr p dat code) = Some (BlockContractStorage (be_ldb env) addr)"
      by (simp add: contract_ctx_def Let_def)
    fix k v g g'
    assume "length k = 32" "length v = 32" "setStorage (BlockContractStorage (be_ldb env) addr) k v g = Inr g'"
    then show "db_ok healthy g \<longrightarrow> db_ok healthy g'"
      using set_storage_accounts [OF _ assms(1)]
      by (cases "SetContractStorage (be_ldb env) addr k v g") (auto simp: BlockContractStorage_def)
  qed
qed

lemma progress_set_code:
  assumes "valid_addr a" and "length c \<le> MAX_SIZE"
  shows "progress (db_ok healthy) (nwrite (SetContractCode (be_ldb env) a c))"
  unfolding progress_def
proof (intro allI impI)
  fix g assume g: "db_ok healthy g"
  have "\<exists>b g'. SetContractCode (be_ldb env) a c g = Inr (b, g')"
  proof (cases g)
    case (Some db)
    then show ?thesis using g db_exec_refines [of db "WCode a c"] assms by (auto simp: SetContractCode_def db_ok_def env_ldb)
  qed (auto simp: SetContractCode_def)
  then show "\<exists>r g'. nwrite (SetContractCode (be_ldb env) a c) g = Some (r, g') \<and> (\<forall>e. r \<noteq> Throw e) \<and> (\<forall>x. r = Ret x \<longrightarrow> db_ok healthy g')"
    using set_code_accounts [OF g assms] by (auto simp: nwrite_def)
qed

lemma progress_flush: "progress (db_ok healthy) (nwrite (flush_contracts (be_ldb env)))"
  unfolding progress_def
proof (intro allI impI)
  fix g assume g: "db_ok healthy g"
  have "\<exists>b g'. flush_contracts (be_ldb env) g = Inr (b, g')"
  proof (cases g)
    case (Some db)
    then show ?thesis using g db_exec_refines [of db Flush] by (auto simp: flush_contracts_def db_ok_def env_ldb)
  qed (simp add: flush_contracts_def)
  then show "\<exists>r g'. nwrite (flush_contracts (be_ldb env)) g = Some (r, g') \<and> (\<forall>e. r \<noteq> Throw e) \<and> (\<forall>x. r = Ret x \<longrightarrow> db_ok healthy g')"
    using flush_accounts [OF g] by (auto simp: nwrite_def)
qed

lemma progress_read_code: "valid_addr a \<Longrightarrow> progress (db_ok healthy) (nread (GetContractCode (be_ldb env) a))"
  by (auto simp: progress_def nread_def env_ldb GetContractCode_accounts)

lemma progress_exists: "progress (db_ok healthy) (nread (ContractExists (be_ldb env) a))"
  by (auto simp: progress_def nread_def env_ldb ContractExists_def db_ok_def HasCode_abs split: option.split)

lemmas progress_rules = progress_bind progress_ret progress_flush progress_exists

lemma progress_output:
  assumes gas: "gas_limits_ok vtx" and tx: "tx \<in> set vtx" and i: "i < length (vout tx)"
  shows "progress (db_ok healthy) (exec_output env tx i (vout tx ! i))"
proof -
  let ?s = "scriptPubKey (vout tx ! i)"
  have limit: "unat (cp_gasLimit p) + 2195456 < 2 ^ 64" if "ParseContractScript ?s c = Some p" for c p
    using gas tx i that unfolding gas_limits_ok_def by (meson nth_mem)
  have size: "length (deployed_code (cp_data p) r) \<le> MAX_SIZE"
    if "ParseContractScript ?s True = Some p" "Execute vm ctx g = Some (Ret r, g')" for p vm ctx r and g g' :: "'db pcontractdb"
    using deployed_size(2) [OF tx i that(1), of "deployed_code (cp_data p) r"] Execute_output_size [OF that(2)]
    by (auto simp: deployed_code_def)
  have "progress (db_ok healthy) (exec_create env tx i (vout tx ! i))"
    unfolding exec_create_def Let_def new_address_def [symmetric]
    by (auto split: option.split intro!: progress_rules progress_contract progress_set_code new_address_valid limit size)
  moreover have "progress (db_ok healthy) (exec_call env tx (vout tx ! i))"
    unfolding exec_call_def Let_def
    by (auto split: option.split intro!: progress_rules progress_contract progress_read_code limit called_valid)
  ultimately show ?thesis unfolding exec_output_def by (auto intro!: progress_rules)
qed

lemma progress_outputs:
  "gas_limits_ok vtx \<Longrightarrow> tx \<in> set vtx \<Longrightarrow> outs = drop i (vout tx) \<Longrightarrow> progress (db_ok healthy) (exec_outputs env tx i outs)"
proof (induction outs arbitrary: i)
  case (Cons out outs)
  have i: "i < length (vout tx)" using Cons.prems(3) by (rule_tac ccontr) simp
  have o: "out = vout tx ! i" "outs = drop (Suc i) (vout tx)"
    using Cons.prems(3) Cons_nth_drop_Suc [OF i] by (metis list.inject)+
  then show ?case
    using progress_output [OF Cons.prems(1,2) i] Cons.IH [of "Suc i"] Cons.prems(1,2) by (auto intro!: progress_bind)
qed (simp add: progress_ret)

lemma progress_txs: "gas_limits_ok vtx \<Longrightarrow> set txs \<subseteq> set vtx \<Longrightarrow> progress (db_ok healthy) (exec_txs env txs)"
proof (induction txs)
  case (Cons tx txs)
  then show ?case
    using progress_outputs [of tx "vout tx" 0] by (auto intro!: progress_rules split: verdict.split)
qed (simp add: progress_ret)

lemma progress_block: "gas_limits_ok vtx \<Longrightarrow> progress (db_ok healthy) (ExecuteBlockContracts env vtx)"
  unfolding ExecuteBlockContracts_def using progress_txs [of vtx] by (auto intro!: progress_rules)

end

text \<open>C15. Running the contracts of a block ends, whatever the contracts do, if the gas limits the
  outputs ask for are 2195456 below \<open>2 ^ 64\<close>: the node returns a verdict, or has met undefined
  behaviour in the machine, but neither loops nor throws.\<close>

theorem block_contracts_terminate:
  assumes "block_run ldb entries healthy env vtx" and "db_ok healthy g" and "gas_limits_ok vtx"
  shows "\<exists>r g'. ExecuteBlockContracts env vtx g = Some (r, g') \<and> ((\<exists>v. r = Ret v) \<or> (\<exists>u. r = Undefined u))"
  using block_run.progress_block [OF assms(1,3)] assms(2) unfolding progress_def
  by (metis SimpleVM.outcome.exhaust)

theorem block_contracts_terminate_witness:
  "\<exists>r g'. ExecuteBlockContracts demo_block_env [contract_tx (create_script 100 40 [0x00])] None = Some (r, g')"
proof -
  have "unat (cp_gasLimit p) + 2195456 < 2 ^ 64" if "ParseContractScript (create_script 100 40 [0x00]) c = Some p" for c p
    using that demo_create(3) demo_not_call by (cases c) auto
  then have "gas_limits_ok [contract_tx (create_script 100 40 [0x00])]"
    unfolding gas_limits_ok_def contract_tx_def by auto
  from block_contracts_terminate [OF demo.block_run_axioms _ this, of None] show ?thesis by (auto simp: db_ok_def)
qed

text \<open>The script of a contract output with gas limit \<open>2 ^ 64 - 1\<close> whose code loops.\<close>

definition hang_script :: script where
  "hang_script = push_data [1] @ push_data [0xff, 0xff, 0xff, 0xff, 0xff, 0xff, 0xff, 0xff] @ push_data [1] @ push_data [0x5b, 0x60, 0x00, 0x56] @ [OP_CREATE]"

lemma hang_script_parsed:
  "HasOpCreate hang_script" "\<not> HasOpCall hang_script" "\<not> HasOpSender hang_script" "5 \<le> length hang_script"
  "ParseContractScript hang_script True =
     Some \<lparr>cp_version = 1, cp_gasLimit = - 1, cp_gasPrice = 1, cp_data = [0x5b, 0x60, 0x00, 0x56], cp_contractAddr = []\<rparr>"
proof -
  show "HasOpCreate hang_script" "\<not> HasOpCall hang_script" "\<not> HasOpSender hang_script"
    by (simp_all add: HasOpCreate_def HasOpCall_def HasOpSender_def hang_script_def Find_push Find_last)
  show "5 \<le> length hang_script" by (simp add: hang_script_def push_data_def)
  have "parse_loop [] hang_script = Some [[1], [0xff, 0xff, 0xff, 0xff, 0xff, 0xff, 0xff, 0xff], [1], [0x5b, 0x60, 0x00, 0x56]]"
    unfolding hang_script_def by (simp add: parse_loop_push parse_loop_stop pushed_def)
  moreover have "unat (parse_u64 [0xff, 0xff, 0xff, 0xff, 0xff, 0xff, 0xff, 0xff]) = unat (- 1 :: u64)"
    "unat (parse_u64 [1]) = unat (1 :: u64)"
    by (simp_all add: parse_u64_value unsigned_minus_1_eq_mask mask_eq_exp_minus_1)
  then have "parse_u64 [0xff, 0xff, 0xff, 0xff, 0xff, 0xff, 0xff, 0xff] = - 1" "parse_u64 [1] = 1"
    by (simp_all only: word_unat_eq_iff)
  ultimately show "ParseContractScript hang_script True =
     Some \<lparr>cp_version = 1, cp_gasLimit = - 1, cp_gasPrice = 1, cp_data = [0x5b, 0x60, 0x00, 0x56], cp_contractAddr = []\<rparr>"
    by (simp add: ParseContractScript_def)
qed

text \<open>C38. The bound on the gas limits is needed, and nothing in the node enforces it: a transaction
  whose first output carries a four-byte looping contract with gas limit \<open>2 ^ 64 - 1\<close> passes
  \<open>CheckContractTx\<close>, and every node that connects a block starting with it runs forever.\<close>

theorem block_contracts_hang:
  assumes "IsEVMEnabled (be_nHeight env) (be_params_start env) (be_global_start env)"
    and "vout tx = [\<lparr>nValue = v, scriptPubKey = hang_script, nRounds = r\<rparr>]"
  shows "CheckContractTx (be_params_start env) (be_global_start env) tx (be_nHeight env) = Valid \<and>
    ExecuteBlockContracts env (tx # txs) g = None"
proof -
  have c: "CheckContractTx (be_params_start env) (be_global_start env) tx (be_nHeight env) = Valid"
    using assms hang_script_parsed by (simp add: CheckContractTx_def Let_def)
  have "Execute vm (contract_ctx env tx out addr \<lparr>cp_version = 1, cp_gasLimit = - 1, cp_gasPrice = 1,
      cp_data = [0x5b, 0x60, 0x00, 0x56], cp_contractAddr = []\<rparr> [] [0x5b, 0x60, 0x00, 0x56]) g = None" for vm out addr
    by (rule loop_program_diverges) (simp_all add: contract_ctx_def loop_program_def Let_def)
  then have "exec_create env tx 0 \<lparr>nValue = v, scriptPubKey = hang_script, nRounds = r\<rparr> g = None"
    by (simp add: exec_create_def hang_script_parsed Let_def nbind_def)
  moreover have "HasContractOps tx" using assms(2) hang_script_parsed by (simp add: HasContractOps_def)
  ultimately show ?thesis
    using c assms hang_script_parsed by (simp add: ExecuteBlockContracts_def nbind_def exec_output_def)
qed

theorem block_contracts_hang_witness: "ExecuteBlockContracts demo_block_env [contract_tx hang_script] None = None"
  by (rule block_contracts_hang [THEN conjunct2]) (simp_all add: demo_block_env_def IsEVMEnabled_def contract_tx_def)

end
