(* ===== verification/Compressor.thy ===== *)
theory Compressor
  imports Standard
begin

text \<open>
  The compact serialization of unspent outputs, \<open>src/src/compressor.h\<close> and
  \<open>src/src/compressor.cpp\<close>, and of coins, \<open>src/src/coins.h\<close>.  The two operations on curve points the
  script compressor calls, the validity test and the decompression of a public key, are parameters:
  \<open>src/src/pubkey.cpp\<close> passes them on to the bundled libsecp256k1, whose field and curve arithmetic is
  not modelled.  The locale \<open>secp_points\<close> states that decompressing inverts compressing for valid keys.
\<close>

unbundle bit_operations_syntax

subsection \<open>Amounts\<close>

function compress_loop :: "u64 \<Rightarrow> nat \<Rightarrow> u64 \<times> nat" where
  "compress_loop n e = (if n mod 10 = 0 \<and> e < 9 then compress_loop (n div 10) (Suc e) else (n, e))"
  by pat_completeness auto
termination
  by (relation "measure (\<lambda>(_, e). 9 - e)") auto

declare compress_loop.simps [simp del]

definition CompressAmount :: "u64 \<Rightarrow> u64" where
  "CompressAmount n0 =
    (if n0 = 0 then 0
     else case compress_loop n0 0 of (n, e) \<Rightarrow>
       if e < 9 then (let d = n mod 10; n = n div 10 in 1 + (n * 9 + d - 1) * 10 + of_nat e)
       else 1 + (n - 1) * 10 + 9)"

definition DecompressAmount :: "u64 \<Rightarrow> u64" where
  "DecompressAmount x0 =
    (if x0 = 0 then 0
     else
       let x = x0 - 1; e = unat (x mod 10); x = x div 10;
           n = (if e < 9 then (let d = x mod 9 + 1; x = x div 9 in x * 10 + d) else x + 1)
       in ((\<lambda>n. n * 10) ^^ e) n)"

subsection \<open>Scripts\<close>

record secp =
  IsFullyValid :: "bytes \<Rightarrow> bool"
  PubKey_Decompress :: "bytes \<Rightarrow> bytes option"

definition nSpecialScripts :: nat where
  "nSpecialScripts = 6"

definition IsToKeyID :: "script \<Rightarrow> bytes option" where
  "IsToKeyID s =
    (if length s = 25 \<and> s ! 0 = OP_DUP \<and> s ! 1 = OP_HASH160 \<and> s ! 2 = 20 \<and> s ! 23 = OP_EQUALVERIFY \<and> s ! 24 = OP_CHECKSIG
     then Some (take 20 (drop 3 s)) else None)"

definition IsToScriptID :: "script \<Rightarrow> bytes option" where
  "IsToScriptID s =
    (if length s = 23 \<and> s ! 0 = OP_HASH160 \<and> s ! 1 = 20 \<and> s ! 22 = OP_EQUAL then Some (take 20 (drop 2 s)) else None)"

definition IsToPubKey :: "secp \<Rightarrow> script \<Rightarrow> bytes option" where
  "IsToPubKey sp s =
    (if length s = 35 \<and> s ! 0 = 33 \<and> s ! 34 = OP_CHECKSIG \<and> (s ! 1 = 0x02 \<or> s ! 1 = 0x03) then Some (take 33 (drop 1 s))
     else if length s = 67 \<and> s ! 0 = 65 \<and> s ! 66 = OP_CHECKSIG \<and> s ! 1 = 0x04 then
       (let pubkey = take 65 (drop 1 s) in if IsFullyValid sp pubkey then Some pubkey else None)
     else None)"

definition Compress :: "secp \<Rightarrow> script \<Rightarrow> bytes option" where
  "Compress sp s =
    (case IsToKeyID s of Some keyID \<Rightarrow> Some (0x00 # keyID)
     | None \<Rightarrow> (case IsToScriptID s of Some scriptID \<Rightarrow> Some (0x01 # scriptID)
     | None \<Rightarrow> (case IsToPubKey sp s of None \<Rightarrow> None
     | Some pubkey \<Rightarrow>
         let x = take 32 (drop 1 pubkey) in
         if pubkey ! 0 = 0x02 \<or> pubkey ! 0 = 0x03 then Some (pubkey ! 0 # x)
         else if pubkey ! 0 = 0x04 then Some ((0x04 OR (pubkey ! 64 AND 0x01)) # x)
         else None)))"

definition GetSpecialSize :: "nat \<Rightarrow> nat" where
  "GetSpecialSize nSize =
    (if nSize = 0 \<or> nSize = 1 then 20 else if nSize = 2 \<or> nSize = 3 \<or> nSize = 4 \<or> nSize = 5 then 32 else 0)"

text \<open>\<open>Decompress\<close> returns the new script, or \<open>None\<close> when it returns false and leaves the script.\<close>

definition Decompress :: "secp \<Rightarrow> nat \<Rightarrow> bytes \<Rightarrow> script option" where
  "Decompress sp nSize inp =
    (if nSize = 0 then Some ([OP_DUP, OP_HASH160, 20] @ take 20 inp @ [OP_EQUALVERIFY, OP_CHECKSIG])
     else if nSize = 1 then Some ([OP_HASH160, 20] @ take 20 inp @ [OP_EQUAL])
     else if nSize = 2 \<or> nSize = 3 then Some ([33, of_nat nSize] @ take 32 inp @ [OP_CHECKSIG])
     else if nSize = 4 \<or> nSize = 5 then
       (case PubKey_Decompress sp (of_nat (nSize - 2) # take 32 inp) of None \<Rightarrow> None
        | Some pubkey \<Rightarrow> Some ([65] @ pubkey @ [OP_CHECKSIG]))
     else None)"

definition Serialize_cscript :: "secp \<Rightarrow> script \<Rightarrow> bytes" where
  "Serialize_cscript sp s =
    (case Compress sp s of Some compr \<Rightarrow> compr
     | None \<Rightarrow> WriteVarInt (of_nat (length s + nSpecialScripts) :: u32) @ s)"

text \<open>The reader fills an empty script.\<close>

definition Unserialize_cscript :: "secp \<Rightarrow> script reader" where
  "Unserialize_cscript sp = rbind ReadVarInt (\<lambda>nSize32 :: u32.
     let nSize = unat nSize32 in
     if nSize < nSpecialScripts then
       rbind (read_bytes (GetSpecialSize nSize)) (\<lambda>v.
         rret (case Decompress sp nSize v of Some s \<Rightarrow> s | None \<Rightarrow> []))
     else
       let nSize = nSize - nSpecialScripts in
       if nSize > MAX_SCRIPT_SIZE then rbind (read_bytes nSize) (\<lambda>_. rret [OP_RETURN])
       else read_bytes nSize)"

subsection \<open>Outputs and coins\<close>

definition Serialize_ctxout :: "secp \<Rightarrow> tx_out \<Rightarrow> bytes" where
  "Serialize_ctxout sp out =
     WriteVarInt (CompressAmount (word_of_int (nValue out))) @ Serialize_cscript sp (scriptPubKey out)"

definition Unserialize_ctxout :: "secp \<Rightarrow> tx_out reader" where
  "Unserialize_ctxout sp = rbind ReadVarInt (\<lambda>nVal.
     rbind (Unserialize_cscript sp) (\<lambda>s.
       rret \<lparr>nValue = sint (DecompressAmount nVal), scriptPubKey = s, nRounds = - 10\<rparr>))"

definition Coin_IsSpent :: "coin \<Rightarrow> bool" where
  "Coin_IsSpent c \<longleftrightarrow> TxOut_IsNull (coin_out c)"

definition Coin_Clear :: "coin \<Rightarrow> coin" where
  "Coin_Clear c = \<lparr>coin_out = TxOut_SetNull, fCoinBase = False, coin_nHeight = 0\<rparr>"

definition coinEmpty :: coin where
  "coinEmpty = \<lparr>coin_out = TxOut_SetNull, fCoinBase = False, coin_nHeight = 0\<rparr>"

text \<open>\<open>None\<close> is the failed assertion that a spent coin is not written.\<close>

definition Serialize_coin :: "secp \<Rightarrow> coin \<Rightarrow> bytes option" where
  "Serialize_coin sp c =
    (if Coin_IsSpent c then None
     else
       let code = (word_of_int (coin_nHeight c) * 2 + (if fCoinBase c then 1 else 0) :: u32)
       in Some (WriteVarInt code @ Serialize_ctxout sp (coin_out c)))"

definition Unserialize_coin :: "secp \<Rightarrow> coin reader" where
  "Unserialize_coin sp = rbind ReadVarInt (\<lambda>code :: u32.
     rbind (Unserialize_ctxout sp) (\<lambda>out.
       rret \<lparr>coin_out = out, fCoinBase = (code AND 1 \<noteq> 0), coin_nHeight = int (unat (drop_bit 1 code))\<rparr>))"

subsection \<open>Amounts are read back\<close>

lemma unat_mod_10: "unat ((n :: u64) mod 10) = unat n mod 10" "unat ((n :: u64) div 10) = unat n div 10"
  by (simp_all add: unat_mod unat_div)

lemma compress_loop_value:
  assumes "compress_loop n e = (m, e')" and "e \<le> 9" and "n \<noteq> 0"
  shows "e \<le> e'" "e' \<le> 9" "unat n = unat m * 10 ^ (e' - e)" "e' < 9 \<Longrightarrow> unat m mod 10 \<noteq> 0"
proof -
  have "e \<le> e' \<and> e' \<le> 9 \<and> unat n = unat m * 10 ^ (e' - e) \<and> (e' < 9 \<longrightarrow> unat m mod 10 \<noteq> 0)"
    using assms
  proof (induction n e rule: compress_loop.induct)
    case (1 n e)
    show ?case
    proof (cases "n mod 10 = 0 \<and> e < 9")
      case True
      then have m: "unat n mod 10 = 0" by (metis unat_0 unat_mod_10(1))
      have "n div 10 \<noteq> 0"
      proof
        assume "n div 10 = 0"
        then have "unat n div 10 = 0" by (metis unat_0 unat_mod_10(2))
        then have "unat n = 0" using m by (simp add: div_eq_0_iff)
        with 1(4) show False by (simp add: word_unat_eq_iff)
      qed
      moreover have "compress_loop (n div 10) (Suc e) = (m, e')"
        using 1(2) True by (simp add: compress_loop.simps [of n e])
      ultimately have ih: "Suc e \<le> e' \<and> e' \<le> 9 \<and> unat n div 10 = unat m * 10 ^ (e' - Suc e) \<and> (e' < 9 \<longrightarrow> unat m mod 10 \<noteq> 0)"
        using 1(1) [OF True] True by (simp add: unat_mod_10)
      then have "unat n = unat m * (10 * 10 ^ (e' - Suc e))" using m by (metis mult.left_commute mult_div_mod_eq add_0_right)
      moreover have "10 * 10 ^ (e' - Suc e) = (10 :: nat) ^ (e' - e)"
        using ih by (metis Suc_diff_Suc Suc_le_eq power_Suc)
      ultimately show ?thesis using ih by simp
    next
      case False
      then have "m = n" "e' = e" using 1(2) by (simp_all add: compress_loop.simps [of n e] split: if_splits)
      moreover have "e < 9 \<Longrightarrow> unat n mod 10 \<noteq> 0" using False by (metis unat_eq_zero unat_mod_10(1))
      ultimately show ?thesis using 1(3) by simp
    qed
  qed
  then show "e \<le> e'" "e' \<le> 9" "unat n = unat m * 10 ^ (e' - e)" "e' < 9 \<Longrightarrow> unat m mod 10 \<noteq> 0" by auto
qed

lemma times_10_pow: "((\<lambda>n :: u64. n * 10) ^^ e) n = n * 10 ^ e"
  by (induction e arbitrary: n) (simp_all add: ac_simps)

lemma unat_u64_eqI: "w = of_nat n \<Longrightarrow> n < 2 ^ 64 \<Longrightarrow> unat (w :: u64) = n"
  by (simp add: unat_of_nat)

lemma CompressAmount_eval:
  assumes n: "n \<noteq> 0" and l: "compress_loop n 0 = (w, e)"
  shows "CompressAmount n =
    (if e < 9 then 1 + (of_nat (unat w div 10) * 9 + of_nat (unat w mod 10) - 1) * 10 + of_nat e else 1 + (w - 1) * 10 + 9)"
  using n by (simp add: CompressAmount_def l Let_def word_arith_nat_div word_arith_nat_mod)

lemma compress_amount_value:
  assumes n: "n \<noteq> 0" and bound: "9 * unat n + 9 < 2 ^ 64"
  obtains m e where "unat n = m * 10 ^ e" "e \<le> 9" "e < 9 \<Longrightarrow> m mod 10 \<noteq> 0" "0 < m"
    "unat (CompressAmount n) = (if e < 9 then 1 + (m div 10 * 9 + m mod 10 - 1) * 10 + e else 10 * m)"
proof -
  obtain w e where l: "compress_loop n 0 = (w, e)" by (cases "compress_loop n 0")
  have v: "e \<le> 9" "unat n = unat w * 10 ^ e" "e < 9 \<Longrightarrow> unat w mod 10 \<noteq> 0"
    using compress_loop_value [OF l _ n] by simp_all
  have n0: "unat n \<noteq> 0" using n by (simp add: word_unat_eq_iff)
  have w: "0 < unat w" using v(2) n0 by (cases "unat w") simp_all
  have "1 \<le> (10 :: nat) ^ e" by simp
  then have "unat w * 1 \<le> unat w * 10 ^ e" by (rule mult_le_mono2)
  then have le: "unat w \<le> unat n" using v(2) by simp
  have "unat (CompressAmount n) = (if e < 9 then 1 + (unat w div 10 * 9 + unat w mod 10 - 1) * 10 + e else 10 * unat w)"
  proof (cases "e < 9")
    case True
    obtain q d where q: "q = unat w div 10" and d: "d = unat w mod 10" by simp
    have d1: "1 \<le> d" "d < 10" using v(3) True d by simp_all
    have "q * 10 + d = unat w" using q d by simp
    then have b: "1 + (q * 9 + d - 1) * 10 + e < 2 ^ 64" using bound le d1 True by linarith
    have "CompressAmount n = of_nat (1 + (q * 9 + d - 1) * 10 + e)"
      unfolding CompressAmount_eval [OF n l] q [symmetric] d [symmetric] using True d1 by (simp add: of_nat_diff)
    from unat_u64_eqI [OF this b] show ?thesis using True unfolding q d by simp
  next
    case False
    then have "e = 9" using v(1) by simp
    then have "unat n = 1000000000 * unat w" using v(2) by simp
    then have b: "1 + (unat w - 1) * 10 + 9 < 2 ^ 64" using bound w by linarith
    have "CompressAmount n = of_nat (1 + (unat w - 1) * 10 + 9)"
      unfolding CompressAmount_eval [OF n l] using False w by (simp add: of_nat_diff)
    from unat_u64_eqI [OF this b] show ?thesis using False w by simp
  qed
  from that [OF v(2,1) v(3) w this] show ?thesis .
qed

text \<open>Decompression as a computation on naturals.\<close>

lemma decompress_amount_value:
  assumes "unat x = 1 + 10 * y + e" and "e \<le> 9" and "n = (if e < 9 then y div 9 * 10 + y mod 9 + 1 else y + 1)"
    and "n * 10 ^ e < 2 ^ 64"
  shows "unat (DecompressAmount x) = n * 10 ^ e"
proof -
  have x: "x \<noteq> 0" using assms(1) by auto
  have x1: "unat (x - 1) = 10 * y + e" using assms(1) x by (simp add: unat_minus_one)
  then have m: "unat ((x - 1) mod 10) = e mod 10" "unat ((x - 1) div 10) = y + e div 10" by (simp_all add: unat_mod_10)
  have e: "e mod 10 = e" "e div 10 = 0" using assms(2) by simp_all
  let ?y = "(x - 1) div 10"
  have "of_nat (unat ?y) = ?y" by simp
  then have Y: "?y = of_nat y" by (simp only: m e add_0_right)
  have D: "?y div 9 = of_nat (y div 9)" "?y mod 9 = of_nat (y mod 9)"
    using m(2) e by (simp_all add: word_arith_nat_div word_arith_nat_mod)
  have E: "unat ((x - 1) mod 10) = e" using m(1) e by simp
  have "DecompressAmount x = ((\<lambda>n. n * 10) ^^ e) (if e < 9 then of_nat (y div 9) * 10 + (of_nat (y mod 9) + 1) else of_nat y + 1)"
    using x by (simp only: DecompressAmount_def Let_def if_False E Y D [unfolded Y])
  also have "\<dots> = of_nat n * 10 ^ e" using assms(3) by (simp add: times_10_pow ac_simps)
  finally have "DecompressAmount x = of_nat n * 10 ^ e" .
  then have "DecompressAmount x = of_nat (n * 10 ^ e)" by simp
  then show ?thesis by (rule unat_u64_eqI [OF _ assms(4)])
qed

lemma amount_round:
  assumes "9 * unat n + 9 < 2 ^ 64"
  shows "DecompressAmount (CompressAmount n) = n"
proof (cases "n = 0")
  case False
  obtain m e where v: "unat n = m * 10 ^ e" "e \<le> 9" "e < 9 \<Longrightarrow> m mod 10 \<noteq> 0" "0 < m"
    and c: "unat (CompressAmount n) = (if e < 9 then 1 + (m div 10 * 9 + m mod 10 - 1) * 10 + e else 10 * m)"
    using compress_amount_value [OF False assms] by blast
  define y where "y = (if e < 9 then m div 10 * 9 + (m mod 10 - 1) else m - 1)"
  have d: "e < 9 \<Longrightarrow> m div 10 * 9 + m mod 10 - 1 = m div 10 * 9 + (m mod 10 - 1)" using v(3) by simp
  have "unat (CompressAmount n) = 1 + 10 * y + e"
  proof (cases "e < 9")
    case True
    then show ?thesis using c d [OF True] by (simp add: y_def mult.commute)
  next
    case False
    then show ?thesis using c v(2,4) by (simp add: y_def)
  qed
  moreover have "m = (if e < 9 then y div 9 * 10 + y mod 9 + 1 else y + 1)"
  proof (cases "e < 9")
    case True
    then have "m mod 10 - 1 < 9" "1 \<le> m mod 10" using v(3) [OF True] by linarith+
    moreover obtain r where r: "r = m mod 10 - 1" by simp
    moreover have "y = r + 9 * (m div 10)" using True r by (simp add: y_def)
    ultimately have "r < 9" "y = r + 9 * (m div 10)" by simp_all
    then have "y div 9 = m div 10" "y mod 9 = m mod 10 - 1" unfolding r [symmetric] by simp_all
    then show ?thesis using True \<open>1 \<le> m mod 10\<close> by simp
  next
    case False
    then show ?thesis using v(4) by (simp add: y_def)
  qed
  moreover have "m * 10 ^ e < 2 ^ 64" using assms v(1) by simp
  ultimately have "unat (DecompressAmount (CompressAmount n)) = m * 10 ^ e"
    using v(2) by (intro decompress_amount_value)
  then show ?thesis using v(1) unfolding word_unat_eq_iff by (rule trans [OF _ sym])
qed (simp add: CompressAmount_def DecompressAmount_def)

text \<open>Every amount of money the node accepts, and more, survives the compact encoding: the
  division, multiplication and the 64-bit wrap-around lose nothing as long as nine times the amount
  fits.\<close>

theorem CompressAmount_roundtrip:
  assumes "9 * unat n + 9 < 2 ^ 64"
  shows "DecompressAmount (CompressAmount n) = n"
  by (rule amount_round [OF assms])

theorem CompressAmount_roundtrip_witness: "DecompressAmount (CompressAmount 700000000000000000) = 700000000000000000"
  by (rule CompressAmount_roundtrip) simp

subsection \<open>Scripts are read back\<close>

locale secp_points =
  fixes sp :: secp
  assumes decompress: "length pk = 65 \<Longrightarrow> pk ! 0 = 0x04 \<Longrightarrow> IsFullyValid sp pk \<Longrightarrow>
    PubKey_Decompress sp ((0x02 OR (pk ! 64 AND 0x01)) # take 32 (drop 1 pk)) = Some pk"

lemma list_middle:
  assumes "length s = a + n + b"
  shows "s = map ((!) s) [0..<a] @ take n (drop a s) @ map ((!) s) [a + n..<a + n + b]"
proof (rule nth_equalityI)
  fix i assume "i < length s"
  then show "s ! i = (map ((!) s) [0..<a] @ take n (drop a s) @ map ((!) s) [a + n..<a + n + b]) ! i"
    using assms by (auto simp: nth_append)
qed (use assms in simp)

lemma special_first:
  "k \<in> {0, 1, 2, 3, 4, 5} \<Longrightarrow> ReadVarInt (k # s) = Inr (ucast k :: u32, s)"
  by (auto simp: ReadVarInt_def)

lemma parity_byte: "(b :: byte) AND 1 = 0 \<or> b AND 1 = 1"
  by (simp add: and_one_eq mod2_eq_if)

context secp_points
begin

lemma Compress_round:
  assumes "Compress sp s = Some c"
  shows "Unserialize_cscript sp (c @ rest) = Inr (s, rest)"
proof -
  consider h where "IsToKeyID s = Some h" "c = 0x00 # h"
    | h where "IsToScriptID s = Some h" "c = 0x01 # h"
    | pk where "IsToPubKey sp s = Some pk" "pk ! 0 = 0x02 \<or> pk ! 0 = 0x03" "c = pk ! 0 # take 32 (drop 1 pk)"
    | pk where "IsToPubKey sp s = Some pk" "pk ! 0 = 0x04" "c = (0x04 OR (pk ! 64 AND 0x01)) # take 32 (drop 1 pk)"
    using assms by (auto simp: Compress_def Let_def split: option.splits if_splits)
  then show ?thesis
  proof cases
    case 1
    then have l: "length s = 3 + 20 + 2" and h: "h = take 20 (drop 3 s)" "length h = 20"
      and f: "s ! 0 = OP_DUP" "s ! 1 = OP_HASH160" "s ! 2 = 20" "s ! 23 = OP_EQUALVERIFY" "s ! 24 = OP_CHECKSIG"
      by (auto simp: IsToKeyID_def split: if_splits)
    have "s ! Suc (Suc 0) = 20" using f(3) by (simp add: numeral_2_eq_2)
    then have "s = [OP_DUP, OP_HASH160, 20] @ h @ [OP_EQUALVERIFY, OP_CHECKSIG]"
      using list_middle [OF l] f h by (simp add: upt_rec)
    then show ?thesis using 1(2) h(2)
      by (simp add: Unserialize_cscript_def special_first nSpecialScripts_def GetSpecialSize_def read_bytes_append rret_def Decompress_def)
  next
    case 2
    then have l: "length s = 2 + 20 + 1" and h: "h = take 20 (drop 2 s)" "length h = 20"
      and f: "s ! 0 = OP_HASH160" "s ! 1 = 20" "s ! 22 = OP_EQUAL"
      by (auto simp: IsToScriptID_def split: if_splits)
    have "s = [OP_HASH160, 20] @ h @ [OP_EQUAL]"
      using list_middle [OF l] f h by (simp add: upt_rec)
    then show ?thesis using 2(2) h(2)
      by (simp add: Unserialize_cscript_def special_first nSpecialScripts_def GetSpecialSize_def read_bytes_append rret_def Decompress_def)
  next
    case 3
    then have l: "length s = 2 + 32 + 1" and pk: "pk = take 33 (drop 1 s)" and f: "s ! 0 = 33" "s ! 34 = OP_CHECKSIG"
      by (auto simp: IsToPubKey_def Let_def split: if_splits)
    have x: "take 32 (drop 1 pk) = take 32 (drop 2 s)" "pk ! 0 = s ! 1" "length (take 32 (drop 2 s)) = 32"
      using l unfolding pk by (simp_all add: drop_take numeral_2_eq_2)
    have "s = [33, s ! 1] @ take 32 (drop 2 s) @ [OP_CHECKSIG]"
      using list_middle [OF l] f by (simp add: upt_rec)
    then show ?thesis using 3(2,3) x
      by (auto simp: Unserialize_cscript_def special_first nSpecialScripts_def GetSpecialSize_def read_bytes_append rret_def Decompress_def)
  next
    case 4
    then have l: "length s = 1 + 65 + 1" and pk: "pk = take 65 (drop 1 s)" and f: "s ! 0 = 65" "s ! 66 = OP_CHECKSIG"
      and v: "IsFullyValid sp pk"
      by (auto simp: IsToPubKey_def Let_def split: if_splits)
    have pl: "length pk = 65" using pk l by simp
    have "s = [65] @ pk @ [OP_CHECKSIG]" using list_middle [OF l] f pk by (simp add: upt_rec)
    moreover have "length (take 32 (drop 1 pk)) = 32" using pl by simp
    moreover note decompress [OF pl 4(2) v] and parity_byte [of "pk ! 64"]
    ultimately show ?thesis unfolding 4(3)
      by (auto simp: Unserialize_cscript_def special_first nSpecialScripts_def GetSpecialSize_def read_bytes_append rret_def Decompress_def)
  qed
qed

lemma cscript_round:
  assumes "length s \<le> MAX_SCRIPT_SIZE"
  shows "Unserialize_cscript sp (Serialize_cscript sp s @ rest) = Inr (s, rest)"
proof (cases "Compress sp s")
  case None
  have u: "unat (of_nat (length s + nSpecialScripts) :: u32) = length s + nSpecialScripts"
    using assms unat_u32_of_nat [of "length s + nSpecialScripts"] by (simp add: MAX_SCRIPT_SIZE_def nSpecialScripts_def)
  have "ReadVarInt (WriteVarInt (of_nat (length s + nSpecialScripts) :: u32) @ s @ rest) =
      Inr (of_nat (length s + nSpecialScripts) :: u32, s @ rest)"
    by (rule varint.round) simp
  then show ?thesis
    using None u assms by (simp add: Serialize_cscript_def Unserialize_cscript_def read_bytes_append)
qed (simp add: Serialize_cscript_def Compress_round)

end

text \<open>A coin as the database can hold it.\<close>

definition coin_wf :: "coin \<Rightarrow> bool" where
  "coin_wf c \<longleftrightarrow> MoneyRange (nValue (coin_out c)) \<and> nRounds (coin_out c) = - 10 \<and>
     length (scriptPubKey (coin_out c)) \<le> MAX_SCRIPT_SIZE \<and> 0 \<le> coin_nHeight c \<and> coin_nHeight c < 2 ^ 31"

lemma amount_u64:
  assumes "MoneyRange v"
  shows "sint (DecompressAmount (CompressAmount (word_of_int v))) = v"
proof -
  have v: "0 \<le> v" "v \<le> 700000000000000000" using assms by (simp_all add: MoneyRange_def MAX_MONEY_def COIN_def)
  then have "uint (word_of_int v :: u64) = v" by (simp add: uint_word_of_int_eq take_bit_int_eq_self)
  then have "unat (word_of_int v :: u64) = nat v" by (metis nat_int unat_eq_nat_uint)
  then have "9 * unat (word_of_int v :: u64) + 9 < 2 ^ 64" using v by simp
  from amount_round [OF this] show ?thesis using v by (simp add: sint_word_of_int_64)
qed

lemma height_code:
  assumes "0 \<le> h" and "h < 2 ^ 31"
  shows "int (unat (drop_bit 1 (word_of_int h * 2 + (if b then 1 else 0) :: u32))) = h"
    and "((word_of_int h * 2 + (if b then 1 else 0) :: u32) AND 1 \<noteq> 0) = b"
proof -
  let ?c = "word_of_int h * 2 + (if b then 1 else 0) :: u32"
  have "uint ?c = h * 2 + of_bool b"
  proof -
    have "?c = word_of_int (h * 2 + of_bool b)" by simp
    moreover have "0 \<le> h * 2 + of_bool b" "h * 2 + of_bool b < 2 ^ 32" using assms by (cases b; simp)+
    ultimately show ?thesis by (simp only: uint_word_of_int_eq take_bit_int_eq_self) (simp add: take_bit_int_eq_self)
  qed
  then obtain c where c: "c = ?c" "uint c = h * 2 + of_bool b" by blast
  have "uint (drop_bit 1 c) = h" using c(2) by (simp add: drop_bit_eq_div uint_div)
  then show "int (unat (drop_bit 1 ?c)) = h" unfolding c(1) [symmetric] by simp
  have "uint (c AND 1) = uint c mod 2" by (simp add: and_one_eq uint_mod)
  also have "\<dots> = of_bool b" using c(2) by simp
  finally show "(?c AND 1 \<noteq> 0) = b" unfolding c(1) [symmetric] word_uint_eq_iff by (cases b) auto
qed

context secp_points
begin

lemma coin_round:
  assumes "coin_wf c"
  obtains w where "Serialize_coin sp c = Some w" "\<And>rest. Unserialize_coin sp (w @ rest) = Inr (c, rest)"
proof -
  let ?out = "coin_out c"
  let ?code = "word_of_int (coin_nHeight c) * 2 + (if fCoinBase c then 1 else 0) :: u32"
  have "\<not> Coin_IsSpent c"
    using assms by (simp add: Coin_IsSpent_def TxOut_IsNull_def coin_wf_def MoneyRange_def)
  then have "Serialize_coin sp c = Some (WriteVarInt ?code @ Serialize_ctxout sp ?out)"
    by (simp add: Serialize_coin_def)
  moreover have "Unserialize_ctxout sp (Serialize_ctxout sp ?out @ rest) = Inr (?out, rest)" for rest
    using assms cscript_round [of "scriptPubKey ?out" rest] amount_u64 [of "nValue ?out"]
    by (simp add: Unserialize_ctxout_def Serialize_ctxout_def varint.round rret_def coin_wf_def)
  then have "Unserialize_coin sp ((WriteVarInt ?code @ Serialize_ctxout sp ?out) @ rest) = Inr (c, rest)" for rest
    using assms height_code [of "coin_nHeight c" "fCoinBase c"]
    by (simp add: Unserialize_coin_def varint.round rret_def coin_wf_def)
  ultimately show ?thesis using that by blast
qed

end

text \<open>Curve operations under which no uncompressed key is valid.\<close>

definition no_points :: secp where
  "no_points = \<lparr>IsFullyValid = \<lambda>_. False, PubKey_Decompress = \<lambda>_. None\<rparr>"

interpretation np: secp_points no_points
  by unfold_locales (simp add: no_points_def)

text \<open>A second instance has one valid key, the uncompressed form of the generator of the curve.\<close>

definition generator_key :: bytes where
  "generator_key =
   [0x04, 0x79, 0xbe, 0x66, 0x7e, 0xf9, 0xdc, 0xbb, 0xac, 0x55, 0xa0, 0x62, 0x95,
    0xce, 0x87, 0x0b, 0x07, 0x02, 0x9b, 0xfc, 0xdb, 0x2d, 0xce, 0x28, 0xd9, 0x59,
    0xf2, 0x81, 0x5b, 0x16, 0xf8, 0x17, 0x98, 0x48, 0x3a, 0xda, 0x77, 0x26, 0xa3,
    0xc4, 0x65, 0x5d, 0xa4, 0xfb, 0xfc, 0x0e, 0x11, 0x08, 0xa8, 0xfd, 0x17, 0xb4,
    0x48, 0xa6, 0x85, 0x54, 0x19, 0x9c, 0x47, 0xd0, 0x8f, 0xfb, 0x10, 0xd4, 0xb8]"

definition generator_points :: secp where
  "generator_points = \<lparr>IsFullyValid = \<lambda>pk. pk = generator_key,
     PubKey_Decompress = \<lambda>pk. if pk = 0x02 # take 32 (drop 1 generator_key) then Some generator_key else None\<rparr>"

interpretation gp: secp_points generator_points
  by unfold_locales (simp add: generator_points_def generator_key_def)

text \<open>C19. A coin with an amount in the money range and a script that can be spent is read back from
  the compact form in which the chain state stores it, given that decompressing a public key undoes
  compressing it for valid keys.\<close>

theorem coin_roundtrip:
  assumes "secp_points sp" and "coin_wf c"
  shows "\<exists>w. Serialize_coin sp c = Some w \<and> (\<forall>rest. Unserialize_coin sp (w @ rest) = Inr (c, rest))"
  using secp_points.coin_round [OF assms] by blast

theorem coin_roundtrip_witness:
  "\<exists>w. Serialize_coin generator_points
       (sample_coin\<lparr>coin_out := \<lparr>nValue = 50, scriptPubKey = 65 # generator_key @ [OP_CHECKSIG], nRounds = - 10\<rparr>, coin_nHeight := 77\<rparr>) = Some w \<and>
     Unserialize_coin generator_points w =
       Inr (sample_coin\<lparr>coin_out := \<lparr>nValue = 50, scriptPubKey = 65 # generator_key @ [OP_CHECKSIG], nRounds = - 10\<rparr>, coin_nHeight := 77\<rparr>, [])"
proof -
  have "coin_wf (sample_coin\<lparr>coin_out := \<lparr>nValue = 50, scriptPubKey = 65 # generator_key @ [OP_CHECKSIG], nRounds = - 10\<rparr>, coin_nHeight := 77\<rparr>)"
    by (simp add: coin_wf_def sample_coin_def MoneyRange_def MAX_MONEY_def COIN_def generator_key_def MAX_SCRIPT_SIZE_def)
  from coin_roundtrip [OF gp.secp_points_axioms this] show ?thesis by (metis append_Nil2)
qed

end
