(* ===== verification/Coins.thy ===== *)
theory Coins
  imports Compressor "HOL-Library.AList"
begin

text \<open>
  The coins cache \<open>src/src/coins.h\<close>, \<open>src/src/coins.cpp\<close>.  A view of the unspent outputs is a record
  of the virtual functions of \<open>CCoinsView\<close> over the state of the view; the reading functions also
  return a state because a cache fills itself on reads.  \<open>CCoinsViewCache\<close> makes a view from a
  backing view, so caches stack.  The locale \<open>coins_backend\<close> states what a cache relies on in its
  base, and a cache meets the same contract towards the cache above it.  The two flag bits of an
  entry are two truth values.  The memory statistics of the cache are left out.
\<close>

subsection \<open>Entries, views and failures\<close>

record cache_entry =
  ce_coin :: coin
  ce_dirty :: bool
  ce_fresh :: bool

type_synonym coins_map = "(out_point \<times> cache_entry) list"

datatype failure = Exception exn | Logic_error string | Assert_failed

record 'b coins_ops =
  cv_GetCoin :: "out_point \<Rightarrow> 'b \<Rightarrow> failure + (coin option \<times> 'b)"
  cv_HaveCoin :: "out_point \<Rightarrow> 'b \<Rightarrow> failure + (bool \<times> 'b)"
  cv_GetBestBlock :: "'b \<Rightarrow> failure + (bytes \<times> 'b)"
  cv_BatchWrite :: "coins_map \<Rightarrow> bytes \<Rightarrow> 'b \<Rightarrow> failure + (bool \<times> 'b)"

definition fbind :: "('s \<Rightarrow> failure + ('a \<times> 's)) \<Rightarrow> ('a \<Rightarrow> 's \<Rightarrow> failure + ('b \<times> 's)) \<Rightarrow> 's \<Rightarrow> failure + ('b \<times> 's)" where
  "fbind m f s = (case m s of Inl e \<Rightarrow> Inl e | Inr (x, s') \<Rightarrow> f x s')"

definition fret :: "'a \<Rightarrow> 's \<Rightarrow> failure + ('a \<times> 's)" where
  "fret x s = Inr (x, s)"

lemma fbind_Inr [simp]: "m s = Inr (x, s') \<Longrightarrow> fbind m f s = f x s'"
  by (simp add: fbind_def)

lemma fbind_Inl [simp]: "m s = Inl e \<Longrightarrow> fbind m f s = Inl e"
  by (simp add: fbind_def)

definition null_hash :: bytes where
  "null_hash = replicate 32 0"

subsection \<open>The cache\<close>

record 'b coins_cache =
  cacheCoins :: coins_map
  cc_hashBlock :: bytes
  cc_base :: 'b

definition CCoinsViewCache :: "'b \<Rightarrow> 'b coins_cache" where
  "CCoinsViewCache base = \<lparr>cacheCoins = [], cc_hashBlock = null_hash, cc_base = base\<rparr>"

definition FetchCoin :: "'b coins_ops \<Rightarrow> out_point \<Rightarrow> 'b coins_cache \<Rightarrow> failure + (cache_entry option \<times> 'b coins_cache)" where
  "FetchCoin ops outpoint c = (case map_of (cacheCoins c) outpoint of
       Some e \<Rightarrow> Inr (Some e, c)
     | None \<Rightarrow> (case cv_GetCoin ops outpoint (cc_base c) of
         Inl e \<Rightarrow> Inl e
       | Inr (None, b) \<Rightarrow> Inr (None, c\<lparr>cc_base := b\<rparr>)
       | Inr (Some tmp, b) \<Rightarrow>
           let e = \<lparr>ce_coin = tmp, ce_dirty = False, ce_fresh = Coin_IsSpent tmp\<rparr>
           in Inr (Some e, c\<lparr>cacheCoins := (outpoint, e) # cacheCoins c, cc_base := b\<rparr>)))"

definition Cache_GetCoin :: "'b coins_ops \<Rightarrow> out_point \<Rightarrow> 'b coins_cache \<Rightarrow> failure + (coin option \<times> 'b coins_cache)" where
  "Cache_GetCoin ops outpoint = fbind (FetchCoin ops outpoint) (\<lambda>it.
     fret (case it of None \<Rightarrow> None | Some e \<Rightarrow> if Coin_IsSpent (ce_coin e) then None else Some (ce_coin e)))"

definition AddCoin :: "out_point \<Rightarrow> coin \<Rightarrow> bool \<Rightarrow> 'b coins_cache \<Rightarrow> failure + (unit \<times> 'b coins_cache)" where
  "AddCoin outpoint coin possible_overwrite c =
    (if Coin_IsSpent coin then Inl Assert_failed
     else if IsUnspendable (scriptPubKey (coin_out coin)) then Inr ((), c)
     else
       let it = (case map_of (cacheCoins c) outpoint of Some e \<Rightarrow> e
                 | None \<Rightarrow> \<lparr>ce_coin = coinEmpty, ce_dirty = False, ce_fresh = False\<rparr>)
       in if \<not> possible_overwrite \<and> \<not> Coin_IsSpent (ce_coin it)
          then Inl (Logic_error ''Adding new coin that replaces non-pruned entry'')
          else
            let fresh = (\<not> possible_overwrite \<and> \<not> ce_dirty it)
            in Inr ((), c\<lparr>cacheCoins := AList.update outpoint
                 \<lparr>ce_coin = coin, ce_dirty = True, ce_fresh = ce_fresh it \<or> fresh\<rparr> (cacheCoins c)\<rparr>))"

fun AddCoins_from :: "bytes \<Rightarrow> bool \<Rightarrow> int \<Rightarrow> nat \<Rightarrow> tx_out list \<Rightarrow> 'b coins_cache \<Rightarrow> failure + (unit \<times> 'b coins_cache)" where
  "AddCoins_from txid fCoinbase nHeight i [] = fret ()" |
  "AddCoins_from txid fCoinbase nHeight i (out # outs) =
     fbind (AddCoin \<lparr>op_hash = txid, op_n = of_nat i\<rparr> \<lparr>coin_out = out, fCoinBase = fCoinbase, coin_nHeight = nHeight\<rparr> fCoinbase)
       (\<lambda>_. AddCoins_from txid fCoinbase nHeight (Suc i) outs)"

definition AddCoins :: "crypto \<Rightarrow> transaction \<Rightarrow> int \<Rightarrow> 'b coins_cache \<Rightarrow> failure + (unit \<times> 'b coins_cache)" where
  "AddCoins cr tx nHeight = AddCoins_from (Hash256 cr (Serialize_tx tx)) (IsCoinBase tx) nHeight 0 (vout tx)"

text \<open>\<open>SpendCoin\<close> with the coin it moves out.\<close>

definition SpendCoin :: "'b coins_ops \<Rightarrow> out_point \<Rightarrow> 'b coins_cache \<Rightarrow> failure + (coin option \<times> 'b coins_cache)" where
  "SpendCoin ops outpoint = fbind (FetchCoin ops outpoint) (\<lambda>it c.
     case it of None \<Rightarrow> Inr (None, c)
     | Some e \<Rightarrow>
       if ce_fresh e then Inr (Some (ce_coin e), c\<lparr>cacheCoins := AList.delete outpoint (cacheCoins c)\<rparr>)
       else Inr (Some (ce_coin e), c\<lparr>cacheCoins := AList.update outpoint
              (e\<lparr>ce_dirty := True, ce_coin := Coin_Clear (ce_coin e)\<rparr>) (cacheCoins c)\<rparr>))"

definition AccessCoin :: "'b coins_ops \<Rightarrow> out_point \<Rightarrow> 'b coins_cache \<Rightarrow> failure + (coin \<times> 'b coins_cache)" where
  "AccessCoin ops outpoint = fbind (FetchCoin ops outpoint) (\<lambda>it.
     fret (case it of None \<Rightarrow> coinEmpty | Some e \<Rightarrow> ce_coin e))"

definition Cache_HaveCoin :: "'b coins_ops \<Rightarrow> out_point \<Rightarrow> 'b coins_cache \<Rightarrow> failure + (bool \<times> 'b coins_cache)" where
  "Cache_HaveCoin ops outpoint = fbind (FetchCoin ops outpoint) (\<lambda>it.
     fret (case it of None \<Rightarrow> False | Some e \<Rightarrow> \<not> Coin_IsSpent (ce_coin e)))"

definition HaveCoinInCache :: "out_point \<Rightarrow> 'b coins_cache \<Rightarrow> bool" where
  "HaveCoinInCache outpoint c = (case map_of (cacheCoins c) outpoint of None \<Rightarrow> False | Some e \<Rightarrow> \<not> Coin_IsSpent (ce_coin e))"

definition Cache_GetBestBlock :: "'b coins_ops \<Rightarrow> 'b coins_cache \<Rightarrow> failure + (bytes \<times> 'b coins_cache)" where
  "Cache_GetBestBlock ops c =
    (if cc_hashBlock c = null_hash then
       (case cv_GetBestBlock ops (cc_base c) of Inl e \<Rightarrow> Inl e
        | Inr (h, b) \<Rightarrow> Inr (h, c\<lparr>cc_hashBlock := h, cc_base := b\<rparr>))
     else Inr (cc_hashBlock c, c))"

definition SetBestBlock :: "bytes \<Rightarrow> 'b coins_cache \<Rightarrow> 'b coins_cache" where
  "SetBestBlock hashBlockIn c = c\<lparr>cc_hashBlock := hashBlockIn\<rparr>"

text \<open>The loop of \<open>BatchWrite\<close>, on the entries of the child in the order the child's map yields them.\<close>

fun batch_write_loop :: "coins_map \<Rightarrow> coins_map \<Rightarrow> failure + coins_map" where
  "batch_write_loop [] us = Inr us" |
  "batch_write_loop ((p, e) # es) us =
    (if \<not> ce_dirty e then batch_write_loop es us
     else case map_of us p of
       None \<Rightarrow>
         if ce_fresh e \<and> Coin_IsSpent (ce_coin e) then batch_write_loop es us
         else batch_write_loop es (AList.update p \<lparr>ce_coin = ce_coin e, ce_dirty = True, ce_fresh = ce_fresh e\<rparr> us)
     | Some itUs \<Rightarrow>
         if ce_fresh e \<and> \<not> Coin_IsSpent (ce_coin itUs)
         then Inl (Logic_error ''FRESH flag misapplied to cache entry for base transaction with spendable outputs'')
         else if ce_fresh itUs \<and> Coin_IsSpent (ce_coin e) then batch_write_loop es (AList.delete p us)
         else batch_write_loop es (AList.update p (itUs\<lparr>ce_coin := ce_coin e, ce_dirty := True\<rparr>) us))"

definition Cache_BatchWrite :: "coins_map \<Rightarrow> bytes \<Rightarrow> 'b coins_cache \<Rightarrow> failure + (bool \<times> 'b coins_cache)" where
  "Cache_BatchWrite mapCoins hashBlockIn c = (case batch_write_loop mapCoins (cacheCoins c) of
       Inl e \<Rightarrow> Inl e
     | Inr us \<Rightarrow> Inr (True, c\<lparr>cacheCoins := us, cc_hashBlock := hashBlockIn\<rparr>))"

definition Cache_Flush :: "'b coins_ops \<Rightarrow> 'b coins_cache \<Rightarrow> failure + (bool \<times> 'b coins_cache)" where
  "Cache_Flush ops c = (case cv_BatchWrite ops (cacheCoins c) (cc_hashBlock c) (cc_base c) of
       Inl e \<Rightarrow> Inl e
     | Inr (fOk, b) \<Rightarrow> Inr (fOk, c\<lparr>cacheCoins := [], cc_base := b\<rparr>))"

definition Uncache :: "out_point \<Rightarrow> 'b coins_cache \<Rightarrow> 'b coins_cache" where
  "Uncache p c = (case map_of (cacheCoins c) p of None \<Rightarrow> c
     | Some e \<Rightarrow> if \<not> ce_dirty e \<and> \<not> ce_fresh e then c\<lparr>cacheCoins := AList.delete p (cacheCoins c)\<rparr> else c)"

definition GetCacheSize :: "'b coins_cache \<Rightarrow> nat" where
  "GetCacheSize c = length (cacheCoins c)"

fun value_in_loop :: "'b coins_ops \<Rightarrow> amount \<Rightarrow> tx_in list \<Rightarrow> 'b coins_cache \<Rightarrow> failure + (amount \<times> 'b coins_cache)" where
  "value_in_loop ops nResult [] = fret nResult" |
  "value_in_loop ops nResult (i # ins) = fbind (AccessCoin ops (prevout i)) (\<lambda>c.
     value_in_loop ops (nResult + nValue (coin_out c)) ins)"

definition GetValueIn :: "'b coins_ops \<Rightarrow> transaction \<Rightarrow> 'b coins_cache \<Rightarrow> failure + (amount \<times> 'b coins_cache)" where
  "GetValueIn ops tx = (if IsCoinBase tx then fret 0 else value_in_loop ops 0 (vin tx))"

fun have_inputs_loop :: "'b coins_ops \<Rightarrow> tx_in list \<Rightarrow> 'b coins_cache \<Rightarrow> failure + (bool \<times> 'b coins_cache)" where
  "have_inputs_loop ops [] = fret True" |
  "have_inputs_loop ops (i # ins) = fbind (Cache_HaveCoin ops (prevout i)) (\<lambda>ok.
     if \<not> ok then fret False else have_inputs_loop ops ins)"

definition Cache_HaveInputs :: "'b coins_ops \<Rightarrow> transaction \<Rightarrow> 'b coins_cache \<Rightarrow> failure + (bool \<times> 'b coins_cache)" where
  "Cache_HaveInputs ops tx = (if \<not> IsCoinBase tx then have_inputs_loop ops (vin tx) else fret True)"

text \<open>A cache is a view.\<close>

definition cache_ops :: "'b coins_ops \<Rightarrow> 'b coins_cache coins_ops" where
  "cache_ops ops = \<lparr>cv_GetCoin = Cache_GetCoin ops, cv_HaveCoin = Cache_HaveCoin ops,
     cv_GetBestBlock = Cache_GetBestBlock ops, cv_BatchWrite = Cache_BatchWrite\<rparr>"

subsection \<open>The contract of a view\<close>

definition live :: "coin \<Rightarrow> coin option" where
  "live c = (if Coin_IsSpent c then None else Some c)"

definition valid_outpoint :: "out_point \<Rightarrow> bool" where
  "valid_outpoint p \<longleftrightarrow> length (op_hash p) = 32"

text \<open>What writing a batch of entries does to the coins of a view.\<close>

definition apply_entries :: "coins_map \<Rightarrow> (out_point \<rightharpoonup> coin) \<Rightarrow> (out_point \<rightharpoonup> coin)" where
  "apply_entries es m = (\<lambda>p. case map_of es p of
       Some e \<Rightarrow> if ce_dirty e then live (ce_coin e) else m p | None \<Rightarrow> m p)"

text \<open>A batch a view accepts: an outpoint occurs once, the coins can be stored, and an entry is
  marked fresh only if the view has no coin for it.\<close>

definition batch_ok :: "coins_map \<Rightarrow> (out_point \<rightharpoonup> coin) \<Rightarrow> bool" where
  "batch_ok es m \<longleftrightarrow> distinct (map fst es) \<and> (\<forall>(p, e) \<in> set es. valid_outpoint p \<and>
     (\<not> Coin_IsSpent (ce_coin e) \<longrightarrow> coin_wf (ce_coin e)) \<and> (ce_fresh e \<longrightarrow> m p = None))"

locale coins_backend =
  fixes ops :: "'b coins_ops" and view :: "'b \<Rightarrow> out_point \<rightharpoonup> coin" and best :: "'b \<Rightarrow> bytes" and binv :: "'b \<Rightarrow> bool"
  assumes GetCoin: "binv b \<Longrightarrow> valid_outpoint p \<Longrightarrow>
      \<exists>b'. cv_GetCoin ops p b = Inr (view b p, b') \<and> binv b' \<and> view b' = view b \<and> best b' = best b"
    and GetBestBlock: "binv b \<Longrightarrow>
      \<exists>b'. cv_GetBestBlock ops b = Inr (best b, b') \<and> binv b' \<and> view b' = view b \<and> best b' = best b"
    and stored: "binv b \<Longrightarrow> view b p = Some c \<Longrightarrow> \<not> Coin_IsSpent c \<and> coin_wf c"
    and HaveCoin: "binv b \<Longrightarrow> valid_outpoint p \<Longrightarrow>
      \<exists>b'. cv_HaveCoin ops p b = Inr (view b p \<noteq> None, b') \<and> binv b' \<and> view b' = view b \<and> best b' = best b"
    and best_length: "binv b \<Longrightarrow> length (best b) = 32"
    and BatchWrite: "binv b \<Longrightarrow> batch_ok es (view b) \<Longrightarrow> length h = 32 \<Longrightarrow>
      \<exists>b'. cv_BatchWrite ops es h b = Inr (True, b') \<and> binv b' \<and> view b' = apply_entries es (view b) \<and>
        (h \<noteq> null_hash \<longrightarrow> best b' = h)"

text \<open>The coins a cache shows, and its invariant over the view below it.\<close>

definition cache_view :: "('b \<Rightarrow> out_point \<rightharpoonup> coin) \<Rightarrow> 'b coins_cache \<Rightarrow> out_point \<rightharpoonup> coin" where
  "cache_view view c p = (case map_of (cacheCoins c) p of Some e \<Rightarrow> live (ce_coin e) | None \<Rightarrow> view (cc_base c) p)"

definition cache_best :: "('b \<Rightarrow> bytes) \<Rightarrow> 'b coins_cache \<Rightarrow> bytes" where
  "cache_best best c = (if cc_hashBlock c = null_hash then best (cc_base c) else cc_hashBlock c)"

definition entry_ok :: "(out_point \<rightharpoonup> coin) \<Rightarrow> out_point \<Rightarrow> cache_entry \<Rightarrow> bool" where
  "entry_ok m p e \<longleftrightarrow> valid_outpoint p \<and> (\<not> Coin_IsSpent (ce_coin e) \<longrightarrow> coin_wf (ce_coin e)) \<and>
     (ce_fresh e \<longrightarrow> m p = None) \<and> (\<not> ce_dirty e \<longrightarrow> m p = live (ce_coin e))"

definition entries_ok :: "(out_point \<rightharpoonup> coin) \<Rightarrow> coins_map \<Rightarrow> bool" where
  "entries_ok m es \<longleftrightarrow> distinct (map fst es) \<and> (\<forall>p e. map_of es p = Some e \<longrightarrow> entry_ok m p e)"

definition cache_inv :: "('b \<Rightarrow> out_point \<rightharpoonup> coin) \<Rightarrow> ('b \<Rightarrow> bool) \<Rightarrow> 'b coins_cache \<Rightarrow> bool" where
  "cache_inv view binv c \<longleftrightarrow> binv (cc_base c) \<and> entries_ok (view (cc_base c)) (cacheCoins c) \<and> length (cc_hashBlock c) = 32"

lemma live_simps: "live c = None \<longleftrightarrow> Coin_IsSpent c" "live c = Some d \<longleftrightarrow> \<not> Coin_IsSpent c \<and> d = c"
  by (auto simp: live_def)

lemma Coin_Clear_spent [simp]: "Coin_IsSpent (Coin_Clear c)" "Coin_IsSpent coinEmpty"
  by (simp_all add: Coin_IsSpent_def Coin_Clear_def coinEmpty_def TxOut_SetNull_def TxOut_IsNull_def)

lemma entries_ok_simps [simp]:
  "entries_ok m []"
  "entries_ok m es \<Longrightarrow> entry_ok m p e \<Longrightarrow> entries_ok m (AList.update p e es)"
  "entries_ok m es \<Longrightarrow> entries_ok m (AList.delete p es)"
  by (auto simp: entries_ok_def update_conv' delete_conv' distinct_update distinct_delete split: if_splits)

lemma entries_ok_Cons:
  "entries_ok m es \<Longrightarrow> map_of es p = None \<Longrightarrow> entry_ok m p e \<Longrightarrow> entries_ok m ((p, e) # es)"
  by (auto simp: entries_ok_def map_of_eq_None_iff)

lemma entries_ok_batch: "entries_ok m es \<Longrightarrow> batch_ok es m"
  by (auto simp: entries_ok_def batch_ok_def entry_ok_def)

subsection \<open>The cache over a view that keeps the contract\<close>

context coins_backend
begin

abbreviation cview :: "'b coins_cache \<Rightarrow> out_point \<rightharpoonup> coin" where
  "cview \<equiv> cache_view view"

abbreviation cinv :: "'b coins_cache \<Rightarrow> bool" where
  "cinv \<equiv> cache_inv view binv"

lemma FetchCoin_ok:
  assumes "cinv c" and "valid_outpoint p"
  obtains it c' where "FetchCoin ops p c = Inr (it, c')" "cinv c'" "cview c' = cview c"
    "map_of (cacheCoins c') p = it" "it = None \<Longrightarrow> cview c p = None" "\<And>e. it = Some e \<Longrightarrow> cview c p = live (ce_coin e)"
    "cc_hashBlock c' = cc_hashBlock c" "best (cc_base c') = best (cc_base c)" "view (cc_base c') = view (cc_base c)"
proof (cases "map_of (cacheCoins c) p")
  case (Some e)
  then show ?thesis using assms by (intro that [of "Some e" c]) (auto simp: FetchCoin_def cache_view_def)
next
  case None
  obtain b where b: "cv_GetCoin ops p (cc_base c) = Inr (view (cc_base c) p, b)" "binv b" "view b = view (cc_base c)" "best b = best (cc_base c)"
    using GetCoin [of "cc_base c" p] assms by (auto simp: cache_inv_def)
  show ?thesis
  proof (cases "view (cc_base c) p")
    case N: None
    have "cview (c\<lparr>cc_base := b\<rparr>) = cview c"
      using b(3) by (intro ext) (simp add: cache_view_def split: option.split)
    moreover have "cview c p = None" using None N by (simp add: cache_view_def)
    ultimately show ?thesis using None N b assms
      by (intro that [of None "c\<lparr>cc_base := b\<rparr>"]) (auto simp: FetchCoin_def cache_inv_def)
  next
    case (Some tmp)
    let ?e = "\<lparr>ce_coin = tmp, ce_dirty = False, ce_fresh = Coin_IsSpent tmp\<rparr>"
    have t: "\<not> Coin_IsSpent tmp" "coin_wf tmp" using stored [OF _ Some] assms by (auto simp: cache_inv_def)
    have "entry_ok (view (cc_base c)) p ?e" using t Some assms(2) by (simp add: entry_ok_def live_def)
    then have "entries_ok (view (cc_base c)) ((p, ?e) # cacheCoins c)"
      using assms(1) None by (intro entries_ok_Cons) (auto simp: cache_inv_def)
    moreover have "cview (c\<lparr>cacheCoins := (p, ?e) # cacheCoins c, cc_base := b\<rparr>) = cview c"
      using None b(3) Some t(1) by (intro ext) (simp add: cache_view_def live_def split: option.split)
    moreover have "cview c p = live tmp" using None Some t(1) by (simp add: cache_view_def live_def)
    ultimately show ?thesis using None b Some t assms(1)
      by (intro that [of "Some ?e" "c\<lparr>cacheCoins := (p, ?e) # cacheCoins c, cc_base := b\<rparr>"])
        (auto simp: FetchCoin_def cache_inv_def Let_def)
  qed
qed

lemma Cache_GetCoin_ok:
  assumes "cinv c" and "valid_outpoint p"
  shows "\<exists>c'. Cache_GetCoin ops p c = Inr (cview c p, c') \<and> cinv c' \<and> cview c' = cview c \<and>
    cc_hashBlock c' = cc_hashBlock c \<and> best (cc_base c') = best (cc_base c)"
  by (rule FetchCoin_ok [OF assms]) (auto simp: Cache_GetCoin_def fret_def live_def split: option.splits)

lemma Cache_HaveCoin_ok:
  assumes "cinv c" and "valid_outpoint p"
  shows "\<exists>c'. Cache_HaveCoin ops p c = Inr (cview c p \<noteq> None, c') \<and> cinv c' \<and> cview c' = cview c \<and>
    cc_hashBlock c' = cc_hashBlock c \<and> best (cc_base c') = best (cc_base c)"
  by (rule FetchCoin_ok [OF assms]) (auto simp: Cache_HaveCoin_def fret_def live_def split: option.splits)

lemma AddCoin_ok:
  assumes c: "cinv c" and p: "valid_outpoint p" and coin: "coin_wf coin" "\<not> Coin_IsSpent coin"
    and new: "over \<or> cview c p = None"
  shows "\<exists>c'. AddCoin p coin over c = Inr ((), c') \<and> cinv c' \<and>
    cview c' = (if IsUnspendable (scriptPubKey (coin_out coin)) then cview c else (cview c)(p \<mapsto> coin)) \<and>
    cc_hashBlock c' = cc_hashBlock c \<and> cc_base c' = cc_base c"
proof (cases "IsUnspendable (scriptPubKey (coin_out coin))")
  case True
  then show ?thesis using coin c by (simp add: AddCoin_def)
next
  case False
  define it where "it = (case map_of (cacheCoins c) p of Some e \<Rightarrow> e
    | None \<Rightarrow> \<lparr>ce_coin = coinEmpty, ce_dirty = False, ce_fresh = False\<rparr>)"
  let ?e = "\<lparr>ce_coin = coin, ce_dirty = True, ce_fresh = ce_fresh it \<or> (\<not> over \<and> \<not> ce_dirty it)\<rparr>"
  let ?c = "c\<lparr>cacheCoins := AList.update p ?e (cacheCoins c)\<rparr>"
  have spent: "over \<or> Coin_IsSpent (ce_coin it)"
    using new by (auto simp: it_def cache_view_def live_simps split: option.splits)
  then have "AddCoin p coin over c = Inr ((), ?c)"
    using coin False by (auto simp: AddCoin_def it_def [symmetric] Let_def)
  moreover have "view (cc_base c) p = None" if "ce_fresh it \<or> (\<not> over \<and> \<not> ce_dirty it)"
  proof (cases "map_of (cacheCoins c) p")
    case None
    then show ?thesis using that new by (auto simp: it_def cache_view_def)
  next
    case (Some e)
    then have "entry_ok (view (cc_base c)) p e" using c by (simp add: cache_inv_def entries_ok_def)
    then show ?thesis using that new Some spent by (auto simp: it_def entry_ok_def live_def)
  qed
  then have "entry_ok (view (cc_base c)) p ?e" using p coin by (simp add: entry_ok_def)
  then have "cinv ?c" using c by (simp add: cache_inv_def)
  moreover have "cview ?c = (cview c)(p \<mapsto> coin)"
    using coin(2) by (intro ext) (simp add: cache_view_def update_conv' live_def split: option.split)
  ultimately show ?thesis using False by simp
qed

lemma SpendCoin_ok:
  assumes "cinv c" and "valid_outpoint p"
  shows "\<exists>r c'. SpendCoin ops p c = Inr (r, c') \<and> Option.bind r live = cview c p \<and> cinv c' \<and> cview c' = (cview c)(p := None) \<and>
    cc_hashBlock c' = cc_hashBlock c \<and> best (cc_base c') = best (cc_base c)"
proof (rule FetchCoin_ok [OF assms])
  fix it c1
  assume f: "FetchCoin ops p c = Inr (it, c1)" "cinv c1" "cview c1 = cview c" "map_of (cacheCoins c1) p = it"
    "it = None \<Longrightarrow> cview c p = None" "\<And>e. it = Some e \<Longrightarrow> cview c p = live (ce_coin e)"
    "cc_hashBlock c1 = cc_hashBlock c" "best (cc_base c1) = best (cc_base c)"
  show ?thesis
  proof (cases it)
    case None
    then have "(cview c)(p := None) = cview c" using f(5) by (intro ext) simp
    then show ?thesis using f None by (simp add: SpendCoin_def)
  next
    case (Some e)
    have e: "entry_ok (view (cc_base c1)) p e" using f(2,4) Some by (simp add: cache_inv_def entries_ok_def)
    show ?thesis
    proof (cases "ce_fresh e")
      case True
      let ?c = "c1\<lparr>cacheCoins := AList.delete p (cacheCoins c1)\<rparr>"
      have "cview ?c = (cview c1)(p := None)"
        using e True by (intro ext) (simp add: cache_view_def delete_conv' entry_ok_def split: option.split)
      moreover have "cinv ?c" using f(2) by (simp add: cache_inv_def)
      ultimately show ?thesis using f Some True by (simp add: SpendCoin_def)
    next
      case False
      let ?e = "e\<lparr>ce_dirty := True, ce_coin := Coin_Clear (ce_coin e)\<rparr>"
      let ?c = "c1\<lparr>cacheCoins := AList.update p ?e (cacheCoins c1)\<rparr>"
      have "cview ?c = (cview c1)(p := None)"
        by (intro ext) (simp add: cache_view_def update_conv' live_def split: option.split)
      moreover have "entry_ok (view (cc_base c1)) p ?e" using e False by (simp add: entry_ok_def)
      then have "cinv ?c" using f(2) by (simp add: cache_inv_def)
      ultimately show ?thesis using f Some False by (simp add: SpendCoin_def)
    qed
  qed
qed

lemma Uncache_ok:
  assumes "cinv c"
  shows "cinv (Uncache p c)" "cview (Uncache p c) = cview c"
proof -
  have "cinv (Uncache p c) \<and> cview (Uncache p c) = cview c"
  proof (cases "\<exists>e. map_of (cacheCoins c) p = Some e \<and> \<not> ce_dirty e \<and> \<not> ce_fresh e")
    case True
    then obtain e where e: "map_of (cacheCoins c) p = Some e" "\<not> ce_dirty e" "\<not> ce_fresh e" by blast
    then have "entry_ok (view (cc_base c)) p e" using assms by (simp add: cache_inv_def entries_ok_def)
    then have "cview (c\<lparr>cacheCoins := AList.delete p (cacheCoins c)\<rparr>) = cview c"
      using e by (intro ext) (simp add: cache_view_def delete_conv' entry_ok_def split: option.split)
    then show ?thesis using e assms by (simp add: Uncache_def cache_inv_def)
  next
    case False
    then have "Uncache p c = c" by (auto simp: Uncache_def split: option.splits)
    then show ?thesis using assms by simp
  qed
  then show "cinv (Uncache p c)" "cview (Uncache p c) = cview c" by auto
qed

lemma Flush_ok:
  assumes "cinv c"
  shows "\<exists>c'. Cache_Flush ops c = Inr (True, c') \<and> cinv c' \<and> cview c' = cview c \<and> view (cc_base c') = cview c \<and>
    cacheCoins c' = [] \<and> cc_hashBlock c' = cc_hashBlock c \<and> (cc_hashBlock c \<noteq> null_hash \<longrightarrow> best (cc_base c') = cc_hashBlock c)"
proof -
  have e: "entries_ok (view (cc_base c)) (cacheCoins c)" and b: "binv (cc_base c)" and h: "length (cc_hashBlock c) = 32" using assms by (simp_all add: cache_inv_def)
  obtain b' where b': "cv_BatchWrite ops (cacheCoins c) (cc_hashBlock c) (cc_base c) = Inr (True, b')" "binv b'"
    "view b' = apply_entries (cacheCoins c) (view (cc_base c))" "cc_hashBlock c \<noteq> null_hash \<longrightarrow> best b' = cc_hashBlock c"
    using BatchWrite [OF b entries_ok_batch [OF e] h] by blast
  have "apply_entries (cacheCoins c) (view (cc_base c)) = cview c"
    using e by (intro ext) (auto simp: apply_entries_def cache_view_def entries_ok_def entry_ok_def split: option.split)
  then show ?thesis using b' h
    by (auto simp: Cache_Flush_def cache_inv_def cache_view_def fun_eq_iff)
qed

text \<open>Writing the entries of a child cache, one at a time.\<close>

lemma batch_write_step:
  assumes us: "entries_ok m us" and p: "valid_outpoint p" and wf: "\<not> Coin_IsSpent (ce_coin e) \<longrightarrow> coin_wf (ce_coin e)"
    and fresh: "ce_fresh e \<longrightarrow> (case map_of us p of Some u \<Rightarrow> live (ce_coin u) | None \<Rightarrow> m p) = None" and d: "ce_dirty e"
  obtains us' where "batch_write_loop ((p, e) # es) us = batch_write_loop es us'" "entries_ok m us'"
    "\<And>q. (case map_of us' q of Some u \<Rightarrow> live (ce_coin u) | None \<Rightarrow> m q) =
      (if q = p then live (ce_coin e) else (case map_of us q of Some u \<Rightarrow> live (ce_coin u) | None \<Rightarrow> m q))"
proof (cases "map_of us p")
  case None
  show ?thesis
  proof (cases "ce_fresh e \<and> Coin_IsSpent (ce_coin e)")
    case True
    then show ?thesis using None us fresh d by (intro that [of us]) (auto simp: live_def)
  next
    case False
    let ?e = "\<lparr>ce_coin = ce_coin e, ce_dirty = True, ce_fresh = ce_fresh e\<rparr>"
    have "entry_ok m p ?e" using p wf fresh None by (simp add: entry_ok_def)
    then show ?thesis using None us False d by (intro that [of "AList.update p ?e us"]) (auto simp: update_conv')
  qed
next
  case (Some u)
  have u: "entry_ok m p u" using us Some by (simp add: entries_ok_def)
  have nt: "\<not> (ce_fresh e \<and> \<not> Coin_IsSpent (ce_coin u))" using fresh Some by (auto simp: live_simps)
  show ?thesis
  proof (cases "ce_fresh u \<and> Coin_IsSpent (ce_coin e)")
    case True
    then show ?thesis using Some us u nt d
      by (intro that [of "AList.delete p us"]) (auto simp: delete_conv' live_def entry_ok_def)
  next
    case False
    let ?e = "u\<lparr>ce_coin := ce_coin e, ce_dirty := True\<rparr>"
    have "entry_ok m p ?e" using p wf u by (simp add: entry_ok_def)
    then show ?thesis using Some us False nt d by (intro that [of "AList.update p ?e us"]) (auto simp: update_conv')
  qed
qed

lemma batch_write_loop_ok:
  assumes "entries_ok m us" and "batch_ok es (\<lambda>q. case map_of us q of Some u \<Rightarrow> live (ce_coin u) | None \<Rightarrow> m q)"
  shows "\<exists>us'. batch_write_loop es us = Inr us' \<and> entries_ok m us' \<and>
    (\<lambda>q. case map_of us' q of Some u \<Rightarrow> live (ce_coin u) | None \<Rightarrow> m q) =
    apply_entries es (\<lambda>q. case map_of us q of Some u \<Rightarrow> live (ce_coin u) | None \<Rightarrow> m q)"
  using assms
proof (induction es arbitrary: us)
  case Nil
  then show ?case by (simp add: apply_entries_def)
next
  case (Cons pe es)
  obtain p e where pe: "pe = (p, e)" by force
  let ?v = "\<lambda>us q. case map_of us q of Some u \<Rightarrow> live (ce_coin u) | None \<Rightarrow> m q"
  have b: "valid_outpoint p" "\<not> Coin_IsSpent (ce_coin e) \<longrightarrow> coin_wf (ce_coin e)" "ce_fresh e \<longrightarrow> ?v us p = None"
    "p \<notin> fst ` set es" "batch_ok es (?v us)"
    using Cons.prems(2) by (auto simp: pe batch_ok_def)
  have np: "map_of es p = None" using b(4) by (simp add: map_of_eq_None_iff)
  show ?case
  proof (cases "ce_dirty e")
    case False
    have "apply_entries (pe # es) (?v us) = apply_entries es (?v us)"
      using False np by (intro ext) (simp add: apply_entries_def pe)
    then show ?thesis using Cons.IH [OF Cons.prems(1) b(5)] False by (simp add: pe)
  next
    case True
    obtain us1 where us1: "batch_write_loop ((p, e) # es) us = batch_write_loop es us1" "entries_ok m us1"
      "\<And>q. ?v us1 q = (if q = p then live (ce_coin e) else ?v us q)"
      using batch_write_step [OF Cons.prems(1) b(1,2,3) True] by blast
    have "batch_ok es (?v us1)" using b(4,5) us1(3) by (force simp: batch_ok_def)
    from Cons.IH [OF us1(2) this] obtain us' where
      us': "batch_write_loop es us1 = Inr us'" "entries_ok m us'" "?v us' = apply_entries es (?v us1)" by blast
    have "apply_entries es (?v us1) = apply_entries (pe # es) (?v us)"
      using us1(3) True np by (intro ext) (simp add: apply_entries_def pe)
    then show ?thesis using us1(1) us' by (simp add: pe)
  qed
qed

lemma Cache_BatchWrite_ok:
  assumes "cinv c" and "batch_ok es (cview c)" and "length h = 32"
  shows "\<exists>c'. Cache_BatchWrite es h c = Inr (True, c') \<and> cinv c' \<and> cview c' = apply_entries es (cview c) \<and> cc_hashBlock c' = h"
proof -
  have v: "cview c = (\<lambda>q. case map_of (cacheCoins c) q of Some u \<Rightarrow> live (ce_coin u) | None \<Rightarrow> view (cc_base c) q)"
    by (intro ext) (simp add: cache_view_def)
  have "entries_ok (view (cc_base c)) (cacheCoins c)" using assms(1) by (simp add: cache_inv_def)
  from batch_write_loop_ok [OF this assms(2) [unfolded v]] obtain us' where
    us': "batch_write_loop es (cacheCoins c) = Inr us'" "entries_ok (view (cc_base c)) us'"
    "(\<lambda>q. case map_of us' q of Some u \<Rightarrow> live (ce_coin u) | None \<Rightarrow> view (cc_base c) q) = apply_entries es (cview c)"
    unfolding v by blast
  moreover have "cview (c\<lparr>cacheCoins := us', cc_hashBlock := h\<rparr>) =
      (\<lambda>q. case map_of us' q of Some u \<Rightarrow> live (ce_coin u) | None \<Rightarrow> view (cc_base c) q)"
    by (intro ext) (simp add: cache_view_def split: option.split)
  ultimately show ?thesis using assms by (simp add: Cache_BatchWrite_def cache_inv_def)
qed

lemma Cache_GetBestBlock_ok:
  assumes "cinv c"
  shows "\<exists>c'. Cache_GetBestBlock ops c = Inr (cache_best best c, c') \<and> cinv c' \<and> cview c' = cview c \<and>
    cache_best best c' = cache_best best c"
proof (cases "cc_hashBlock c = null_hash")
  case True
  obtain b where b: "cv_GetBestBlock ops (cc_base c) = Inr (best (cc_base c), b)" "binv b" "view b = view (cc_base c)"
    "best b = best (cc_base c)"
    using GetBestBlock [of "cc_base c"] assms by (auto simp: cache_inv_def)
  have "cview (c\<lparr>cc_hashBlock := best (cc_base c), cc_base := b\<rparr>) = cview c"
    using b(3) by (intro ext) (simp add: cache_view_def split: option.split)
  then show ?thesis using True b assms best_length [of "cc_base c"] by (simp add: Cache_GetBestBlock_def cache_best_def cache_inv_def)
qed (use assms in \<open>simp add: Cache_GetBestBlock_def cache_best_def\<close>)

lemma cache_stored:
  assumes "cinv c" and "cview c p = Some d"
  shows "\<not> Coin_IsSpent d \<and> coin_wf d"
proof (cases "map_of (cacheCoins c) p")
  case None
  then show ?thesis using assms stored [of "cc_base c" p d] by (simp add: cache_view_def cache_inv_def)
next
  case (Some e)
  then have "entry_ok (view (cc_base c)) p e" using assms(1) by (simp add: cache_inv_def entries_ok_def)
  then show ?thesis using assms(2) Some by (auto simp: cache_view_def live_simps entry_ok_def)
qed

text \<open>A cache keeps the contract its base keeps, so caches stack.\<close>

lemma cache_backend: "coins_backend (cache_ops ops) cview (cache_best best) cinv"
proof (rule coins_backend.intro)
  fix c :: "'b coins_cache" and p
  assume c: "cinv c" "valid_outpoint p"
  from Cache_GetCoin_ok [OF this]
  show "\<exists>b'. cv_GetCoin (cache_ops ops) p c = Inr (cview c p, b') \<and> cinv b' \<and> cview b' = cview c \<and> cache_best best b' = cache_best best c"
    unfolding cache_ops_def cache_best_def by force
  from Cache_HaveCoin_ok [OF c]
  show "\<exists>b'. cv_HaveCoin (cache_ops ops) p c = Inr (cview c p \<noteq> None, b') \<and> cinv b' \<and> cview b' = cview c \<and> cache_best best b' = cache_best best c"
    unfolding cache_ops_def cache_best_def by force
next
  fix c :: "'b coins_cache"
  assume c: "cinv c"
  from Cache_GetBestBlock_ok [OF this]
  show "\<exists>b'. cv_GetBestBlock (cache_ops ops) c = Inr (cache_best best c, b') \<and> cinv b' \<and> cview b' = cview c \<and>
      cache_best best b' = cache_best best c"
    by (simp add: cache_ops_def)
  show "length (cache_best best c) = 32"
    using c best_length [of "cc_base c"] by (simp add: cache_best_def cache_inv_def)
next
  fix c :: "'b coins_cache" and es :: coins_map and h :: bytes
  assume "cinv c" "batch_ok es (cview c)" "length h = 32"
  from Cache_BatchWrite_ok [OF this]
  show "\<exists>b'. cv_BatchWrite (cache_ops ops) es h c = Inr (True, b') \<and> cinv b' \<and> cview b' = apply_entries es (cview c) \<and>
      (h \<noteq> null_hash \<longrightarrow> cache_best best b' = h)"
    unfolding cache_ops_def cache_best_def by force
qed (rule cache_stored)

lemma AccessCoin_ok:
  assumes "cinv c" and "valid_outpoint p" and "cview c p = Some coin"
  shows "\<exists>c'. AccessCoin ops p c = Inr (coin, c') \<and> cinv c' \<and> cview c' = cview c \<and> cc_hashBlock c' = cc_hashBlock c \<and> best (cc_base c') = best (cc_base c)"
  by (rule FetchCoin_ok [OF assms(1,2)])
    (use assms(3) in \<open>auto simp: AccessCoin_def fret_def live_def cache_best_def split: option.splits if_splits\<close>)

lemma Cache_HaveInputs_ok:
  assumes "cinv c" and "\<forall>i \<in> set (vin tx). valid_outpoint (prevout i)"
  shows "\<exists>c'. Cache_HaveInputs ops tx c = Inr (HaveInputs (cview c) tx, c') \<and> cinv c' \<and> cview c' = cview c \<and>
    cc_hashBlock c' = cc_hashBlock c \<and> best (cc_base c') = best (cc_base c)"
proof -
  have "\<exists>c'. have_inputs_loop ops ins c = Inr (\<forall>i \<in> set ins. prevout i \<in> dom (cview c), c') \<and> cinv c' \<and>
      cview c' = cview c \<and> cc_hashBlock c' = cc_hashBlock c \<and> best (cc_base c') = best (cc_base c)"
    if "cinv c" "\<forall>i \<in> set ins. valid_outpoint (prevout i)" for ins c
    using that
  proof (induction ins arbitrary: c)
    case Nil
    then show ?case by (simp add: fret_def)
  next
    case (Cons i ins)
    have v: "valid_outpoint (prevout i)" using Cons.prems(2) by simp
    obtain c1 where c1: "Cache_HaveCoin ops (prevout i) c = Inr (cview c (prevout i) \<noteq> None, c1)" "cinv c1"
      "cview c1 = cview c" "cc_hashBlock c1 = cc_hashBlock c" "best (cc_base c1) = best (cc_base c)"
      using Cache_HaveCoin_ok [OF Cons.prems(1) v] by blast
    show ?case
    proof (cases "cview c (prevout i)")
      case None
      then have "prevout i \<notin> dom (cview c)" by blast
      then show ?thesis using c1 None by (simp add: fret_def)
    next
      case (Some d)
      then show ?thesis using c1 Cons.IH [OF c1(2)] Cons.prems(2) by auto
    qed
  qed
  from this [OF assms] show ?thesis using assms(1) by (auto simp: Cache_HaveInputs_def HaveInputs_def fret_def)
qed

lemma GetValueIn_ok:
  assumes "cinv c" and "\<forall>i \<in> set (vin tx). valid_outpoint (prevout i) \<and> prevout i \<in> dom (cview c)" and "\<not> IsCoinBase tx"
  shows "\<exists>c'. GetValueIn ops tx c = Inr (sum_list (map (\<lambda>i. nValue (coin_out (the (cview c (prevout i))))) (vin tx)), c') \<and>
    cinv c' \<and> cview c' = cview c \<and> cc_hashBlock c' = cc_hashBlock c \<and> best (cc_base c') = best (cc_base c)"
proof -
  have "\<exists>c'. value_in_loop ops r ins c = Inr (r + sum_list (map (\<lambda>i. nValue (coin_out (the (cview c (prevout i))))) ins), c') \<and>
    cinv c' \<and> cview c' = cview c \<and> cc_hashBlock c' = cc_hashBlock c \<and> best (cc_base c') = best (cc_base c)"
    if "cinv c" "\<forall>i \<in> set ins. valid_outpoint (prevout i) \<and> prevout i \<in> dom (cview c)" for ins c r
    using that
  proof (induction ins arbitrary: c r)
    case Nil
    then show ?case by (simp add: fret_def)
  next
    case (Cons i ins)
    obtain d where d: "valid_outpoint (prevout i)" "cview c (prevout i) = Some d" using Cons.prems(2) by auto
    obtain c1 where c1: "AccessCoin ops (prevout i) c = Inr (d, c1)" "cinv c1" "cview c1 = cview c"
      "cc_hashBlock c1 = cc_hashBlock c" "best (cc_base c1) = best (cc_base c)"
      using AccessCoin_ok [OF Cons.prems(1) d] by blast
    then show ?case using d(2) Cons.IH [OF c1(2), of "r + nValue (coin_out d)"] Cons.prems(2) by (simp add: add.assoc)
  qed
  from this [OF assms(1,2), of 0] show ?thesis using assms(3) by (simp add: GetValueIn_def)
qed

end

subsection \<open>A cache refines a map of coins\<close>

datatype coins_op =
  Get_coin out_point | Have_coin out_point | Add_coin out_point coin bool | Spend_coin out_point | Drop_coin out_point
  | Get_best | Set_best bytes | Flush_cache | Have_inputs transaction | Value_in transaction

datatype coins_answer = Coin_answer "coin option" | Bool_answer bool | Hash_answer bytes | Amount_answer amount | Done

definition fmap :: "('a \<Rightarrow> 'b) \<Rightarrow> failure + ('a \<times> 's) \<Rightarrow> failure + ('b \<times> 's)" where
  "fmap f r = (case r of Inl e \<Rightarrow> Inl e | Inr (x, s) \<Rightarrow> Inr (f x, s))"

lemma fmap_Inr [simp]: "fmap f (Inr (x, s)) = Inr (f x, s)"
  by (simp add: fmap_def)

fun cache_exec :: "'b coins_ops \<Rightarrow> coins_op \<Rightarrow> 'b coins_cache \<Rightarrow> failure + (coins_answer \<times> 'b coins_cache)" where
  "cache_exec ops (Get_coin p) c = fmap Coin_answer (Cache_GetCoin ops p c)" |
  "cache_exec ops (Have_coin p) c = fmap Bool_answer (Cache_HaveCoin ops p c)" |
  "cache_exec ops (Add_coin p coin over) c = fmap (\<lambda>_. Done) (AddCoin p coin over c)" |
  "cache_exec ops (Spend_coin p) c = fmap (\<lambda>r. Coin_answer (Option.bind r live)) (SpendCoin ops p c)" |
  "cache_exec ops (Drop_coin p) c = Inr (Done, Uncache p c)" |
  "cache_exec ops Get_best c = fmap Hash_answer (Cache_GetBestBlock ops c)" |
  "cache_exec ops (Set_best h) c = Inr (Done, SetBestBlock h c)" |
  "cache_exec ops Flush_cache c = fmap Bool_answer (Cache_Flush ops c)" |
  "cache_exec ops (Have_inputs tx) c = fmap Bool_answer (Cache_HaveInputs ops tx c)" |
  "cache_exec ops (Value_in tx) c = fmap Amount_answer (GetValueIn ops tx c)"

fun cache_run :: "'b coins_ops \<Rightarrow> coins_op list \<Rightarrow> 'b coins_cache \<Rightarrow> failure + (coins_answer list \<times> 'b coins_cache)" where
  "cache_run ops [] c = Inr ([], c)" |
  "cache_run ops (x # xs) c = (case cache_exec ops x c of Inl e \<Rightarrow> Inl e
     | Inr (a, c') \<Rightarrow> fmap ((#) a) (cache_run ops xs c'))"

text \<open>The specification: the unspent coins are a finite map and the best block a hash.  An operation
  the callers must not make has no result: a coin the database cannot hold or that is already there.\<close>

record utxo =
  u_coins :: "out_point \<rightharpoonup> coin"
  u_best :: bytes

fun utxo_exec :: "coins_op \<Rightarrow> utxo \<Rightarrow> (coins_answer \<times> utxo) option" where
  "utxo_exec (Get_coin p) u = (if valid_outpoint p then Some (Coin_answer (u_coins u p), u) else None)" |
  "utxo_exec (Have_coin p) u = (if valid_outpoint p then Some (Bool_answer (u_coins u p \<noteq> None), u) else None)" |
  "utxo_exec (Add_coin p coin over) u =
    (if valid_outpoint p \<and> coin_wf coin \<and> \<not> Coin_IsSpent coin \<and> (over \<or> u_coins u p = None)
     then Some (Done, if IsUnspendable (scriptPubKey (coin_out coin)) then u else u\<lparr>u_coins := (u_coins u)(p \<mapsto> coin)\<rparr>) else None)" |
  "utxo_exec (Spend_coin p) u =
    (if valid_outpoint p then Some (Coin_answer (u_coins u p), u\<lparr>u_coins := (u_coins u)(p := None)\<rparr>) else None)" |
  "utxo_exec (Drop_coin p) u = Some (Done, u)" |
  "utxo_exec Get_best u = Some (Hash_answer (u_best u), u)" |
  "utxo_exec (Set_best h) u = (if length h = 32 \<and> h \<noteq> null_hash then Some (Done, u\<lparr>u_best := h\<rparr>) else None)" |
  "utxo_exec Flush_cache u = Some (Bool_answer True, u)" |
  "utxo_exec (Have_inputs tx) u =
    (if \<forall>i \<in> set (vin tx). valid_outpoint (prevout i) then Some (Bool_answer (HaveInputs (u_coins u) tx), u) else None)" |
  "utxo_exec (Value_in tx) u =
    (if (\<forall>i \<in> set (vin tx). valid_outpoint (prevout i)) \<and> \<not> IsCoinBase tx \<and> HaveInputs (u_coins u) tx
     then Some (Amount_answer (sum_list (map (\<lambda>i. nValue (coin_out (the (u_coins u (prevout i))))) (vin tx))), u) else None)"

fun utxo_run :: "coins_op list \<Rightarrow> utxo \<Rightarrow> (coins_answer list \<times> utxo) option" where
  "utxo_run [] u = Some ([], u)" |
  "utxo_run (x # xs) u = (case utxo_exec x u of None \<Rightarrow> None
     | Some (a, u') \<Rightarrow> map_option (\<lambda>(as, u''). (a # as, u'')) (utxo_run xs u'))"

definition abs_utxo :: "('b \<Rightarrow> out_point \<rightharpoonup> coin) \<Rightarrow> ('b \<Rightarrow> bytes) \<Rightarrow> 'b \<Rightarrow> utxo" where
  "abs_utxo view best b = \<lparr>u_coins = view b, u_best = best b\<rparr>"

context coins_backend
begin

abbreviation cutxo :: "'b coins_cache \<Rightarrow> utxo" where
  "cutxo \<equiv> abs_utxo cview (cache_best best)"

lemma cache_exec_refines:
  assumes c: "cinv c" and h: "cc_hashBlock c \<noteq> null_hash" and x: "utxo_exec x (cutxo c) = Some (a, u)"
  shows "\<exists>c'. cache_exec ops x c = Inr (a, c') \<and> cinv c' \<and> cc_hashBlock c' \<noteq> null_hash \<and> cutxo c' = u"
proof (cases x)
  case (Get_coin p)
  then have p: "valid_outpoint p" "a = Coin_answer (cview c p)" "u = cutxo c" using x by (auto simp: abs_utxo_def split: if_splits)
  show ?thesis using Cache_GetCoin_ok [OF c p(1)] p(2,3) h Get_coin unfolding abs_utxo_def cache_best_def by force
next
  case (Have_coin p)
  then have p: "valid_outpoint p" "a = Bool_answer (cview c p \<noteq> None)" "u = cutxo c" using x by (auto simp: abs_utxo_def split: if_splits)
  show ?thesis using Cache_HaveCoin_ok [OF c p(1)] p(2,3) h Have_coin unfolding abs_utxo_def cache_best_def by force
next
  case (Add_coin p coin over)
  then have p: "valid_outpoint p" "coin_wf coin" "\<not> Coin_IsSpent coin" "over \<or> cview c p = None"
    "a = Done" "u = (if IsUnspendable (scriptPubKey (coin_out coin)) then cutxo c else (cutxo c)\<lparr>u_coins := (cview c)(p \<mapsto> coin)\<rparr>)"
    using x by (auto simp: abs_utxo_def split: if_splits)
  show ?thesis using AddCoin_ok [OF c p(1-4)] p(5,6) h Add_coin unfolding abs_utxo_def cache_best_def by force
next
  case (Spend_coin p)
  then have p: "valid_outpoint p" "a = Coin_answer (cview c p)" "u = (cutxo c)\<lparr>u_coins := (cview c)(p := None)\<rparr>"
    using x by (auto simp: abs_utxo_def split: if_splits)
  show ?thesis using SpendCoin_ok [OF c p(1)] p(2,3) h Spend_coin unfolding abs_utxo_def cache_best_def by force
next
  case (Drop_coin p)
  have "cc_hashBlock (Uncache p c) = cc_hashBlock c" by (simp add: Uncache_def split: option.split)
  then show ?thesis using x h Drop_coin Uncache_ok [OF c, of p] by (simp add: abs_utxo_def cache_best_def)
next
  case Get_best
  then show ?thesis using x h c by (simp add: abs_utxo_def Cache_GetBestBlock_def cache_best_def)
next
  case (Set_best h')
  have "cview (SetBestBlock h' c) = cview c" by (intro ext) (simp add: SetBestBlock_def cache_view_def split: option.split)
  then show ?thesis using x Set_best c by (auto simp: abs_utxo_def cache_inv_def SetBestBlock_def cache_best_def split: if_splits)
next
  case Flush_cache
  then show ?thesis using x h Flush_ok [OF c] unfolding abs_utxo_def cache_best_def by force
next
  case (Have_inputs tx)
  then have p: "\<forall>i \<in> set (vin tx). valid_outpoint (prevout i)" "a = Bool_answer (HaveInputs (cview c) tx)" "u = cutxo c"
    using x by (auto simp: abs_utxo_def split: if_splits)
  show ?thesis using Cache_HaveInputs_ok [OF c p(1)] p(2,3) h Have_inputs unfolding abs_utxo_def cache_best_def by force
next
  case (Value_in tx)
  then have p: "\<forall>i \<in> set (vin tx). valid_outpoint (prevout i) \<and> prevout i \<in> dom (cview c)" "\<not> IsCoinBase tx" "u = cutxo c"
    "a = Amount_answer (sum_list (map (\<lambda>i. nValue (coin_out (the (cview c (prevout i))))) (vin tx)))"
    using x by (auto simp: abs_utxo_def HaveInputs_def split: if_splits)
  show ?thesis using GetValueIn_ok [OF c p(1,2)] p(3,4) h Value_in unfolding abs_utxo_def cache_best_def by force
qed

lemma cache_run_refines:
  "cinv c \<Longrightarrow> cc_hashBlock c \<noteq> null_hash \<Longrightarrow> utxo_run xs (cutxo c) = Some (as, u) \<Longrightarrow>
   \<exists>c'. cache_run ops xs c = Inr (as, c') \<and> cinv c' \<and> cc_hashBlock c' \<noteq> null_hash \<and> cutxo c' = u"
proof (induction xs arbitrary: c as)
  case Nil
  then show ?case by simp
next
  case (Cons x xs)
  obtain a u1 as' where 1: "utxo_exec x (cutxo c) = Some (a, u1)" "utxo_run xs u1 = Some (as', u)" "as = a # as'"
    using Cons.prems(3) by (auto split: option.splits)
  obtain c1 where "cache_exec ops x c = Inr (a, c1)" "cinv c1" "cc_hashBlock c1 \<noteq> null_hash" "cutxo c1 = u1"
    using cache_exec_refines [OF Cons.prems(1,2) 1(1)] by blast
  then show ?case using Cons.IH [of c1 as'] 1 by auto
qed

lemma fresh_cache:
  assumes "binv b"
  shows "cinv (CCoinsViewCache b)" "cutxo (CCoinsViewCache b) = abs_utxo view best b"
  using assms by (simp_all add: CCoinsViewCache_def cache_inv_def null_hash_def abs_utxo_def cache_best_def cache_view_def fun_eq_iff)

lemma SetBestBlock_ok:
  assumes "cinv c" and "length h = 32" and "h \<noteq> null_hash"
  shows "cinv (SetBestBlock h c)" "cutxo (SetBestBlock h c) = (cutxo c)\<lparr>u_best := h\<rparr>" "cc_hashBlock (SetBestBlock h c) = h"
  using assms by (simp_all add: SetBestBlock_def cache_inv_def abs_utxo_def cache_best_def cache_view_def fun_eq_iff split: option.split)

text \<open>A run that ends with a flush leaves everything in the base.\<close>

lemma cache_run_flush:
  assumes "cinv c" and "cc_hashBlock c \<noteq> null_hash" and "utxo_run xs (cutxo c) = Some (as, u)"
  shows "\<exists>c' c''. cache_run ops xs c = Inr (as, c') \<and> cc_hashBlock c' \<noteq> null_hash \<and> Cache_Flush ops c' = Inr (True, c'') \<and> cinv c'' \<and>
    cacheCoins c'' = [] \<and> cutxo c'' = u \<and> abs_utxo view best (cc_base c'') = u"
proof -
  obtain c' where c': "cache_run ops xs c = Inr (as, c')" "cinv c'" "cc_hashBlock c' \<noteq> null_hash" "cutxo c' = u"
    using cache_run_refines [OF assms] by blast
  obtain c'' where c'': "Cache_Flush ops c' = Inr (True, c'')" "cinv c''" "cview c'' = cview c'" "view (cc_base c'') = cview c'"
    "cacheCoins c'' = []" "cc_hashBlock c'' = cc_hashBlock c'" "best (cc_base c'') = cc_hashBlock c'"
    using Flush_ok [OF c'(2)] c'(3) by blast
  have "cutxo c'' = u" "abs_utxo view best (cc_base c'') = u"
    using c'' c'(3,4) by (auto simp: abs_utxo_def cache_best_def)
  then show ?thesis using c'(1,3) c'' by blast
qed

end

lemma Flush_hash: "Cache_Flush (cache_ops ops) c = Inr (r, c') \<Longrightarrow> cc_hashBlock (cc_base c') = cc_hashBlock c"
  by (auto simp: Cache_Flush_def cache_ops_def Cache_BatchWrite_def split: sum.splits)

end
