(* ===== verification/CoinsDB.thy ===== *)
theory CoinsDB
  imports Coins DBWrapper
begin

text \<open>
  The chain state database \<open>CCoinsViewDB\<close> of \<open>src/src/txdb.cpp\<close>: coins and the best block in a
  \<open>CDBWrapper\<close>.  Over a LevelDB that keeps its entries it meets the contract \<open>coins_backend\<close> of a
  view, so the tower the node builds (a cache for the block being connected, over the cache of the tip,
  over the database) refines a map of coins.
\<close>

subsection \<open>Keys\<close>

definition DB_COIN :: byte where "DB_COIN = 0x43"
definition DB_BEST_BLOCK :: byte where "DB_BEST_BLOCK = 0x42"

definition CoinEntry :: "out_point \<Rightarrow> bytes" where
  "CoinEntry p = ser_writedata8 DB_COIN @ op_hash p @ WriteVarInt (op_n p)"

subsection \<open>Operations\<close>

definition lift_exn :: "exn + 'a \<Rightarrow> failure + 'a" where
  "lift_exn r = (case r of Inl e \<Rightarrow> Inl (Exception e) | Inr x \<Rightarrow> Inr x)"

lemma lift_exn_Inr [simp]: "lift_exn (Inr x) = Inr x"
  by (simp add: lift_exn_def)

definition DB_GetCoin :: "'db leveldb \<Rightarrow> secp \<Rightarrow> out_point \<Rightarrow> 'db cdb_wrapper \<Rightarrow> failure + (coin option \<times> 'db cdb_wrapper)" where
  "DB_GetCoin ldb sp outpoint db = map_sum id (\<lambda>r. (r, db)) (lift_exn (DB_Read ldb (Unserialize_coin sp) db (CoinEntry outpoint)))"

definition DB_HaveCoin :: "'db leveldb \<Rightarrow> out_point \<Rightarrow> 'db cdb_wrapper \<Rightarrow> failure + (bool \<times> 'db cdb_wrapper)" where
  "DB_HaveCoin ldb outpoint db = map_sum id (\<lambda>r. (r, db)) (lift_exn (DB_Exists ldb db (CoinEntry outpoint)))"

definition DB_GetBestBlock :: "'db leveldb \<Rightarrow> 'db cdb_wrapper \<Rightarrow> failure + (bytes \<times> 'db cdb_wrapper)" where
  "DB_GetBestBlock ldb db = map_sum id (\<lambda>r. (case r of None \<Rightarrow> null_hash | Some h \<Rightarrow> h, db))
     (lift_exn (DB_Read ldb (read_bytes 32) db (ser_writedata8 DB_BEST_BLOCK)))"

fun coin_batch_loop :: "secp \<Rightarrow> bytes \<Rightarrow> coins_map \<Rightarrow> db_batch \<Rightarrow> failure + db_batch" where
  "coin_batch_loop sp obf [] b = Inr b" |
  "coin_batch_loop sp obf ((p, e) # es) b =
    (if ce_dirty e then
       if Coin_IsSpent (ce_coin e) then coin_batch_loop sp obf es (Batch_Erase (CoinEntry p) b)
       else (case Serialize_coin sp (ce_coin e) of None \<Rightarrow> Inl Assert_failed
             | Some w \<Rightarrow> coin_batch_loop sp obf es (Batch_Write obf (CoinEntry p) w b))
     else coin_batch_loop sp obf es b)"

definition DB_BatchWrite :: "'db leveldb \<Rightarrow> secp \<Rightarrow> coins_map \<Rightarrow> bytes \<Rightarrow> 'db cdb_wrapper \<Rightarrow> failure + (bool \<times> 'db cdb_wrapper)" where
  "DB_BatchWrite ldb sp mapCoins hashBlock db = (case coin_batch_loop sp (obfuscate_key db) mapCoins CDBBatch of
       Inl e \<Rightarrow> Inl e
     | Inr b \<Rightarrow>
         let b = (if hashBlock \<noteq> null_hash then Batch_Write (obfuscate_key db) (ser_writedata8 DB_BEST_BLOCK) hashBlock b else b)
         in map_sum id (Pair True) (lift_exn (WriteBatch ldb b db)))"

definition CCoinsViewDB :: "'db leveldb \<Rightarrow> secp \<Rightarrow> 'db cdb_wrapper coins_ops" where
  "CCoinsViewDB ldb sp = \<lparr>cv_GetCoin = DB_GetCoin ldb sp, cv_HaveCoin = DB_HaveCoin ldb,
     cv_GetBestBlock = DB_GetBestBlock ldb, cv_BatchWrite = DB_BatchWrite ldb sp\<rparr>"

subsection \<open>What is stored\<close>

definition read_value :: "'v reader \<Rightarrow> bytes option \<Rightarrow> 'v option" where
  "read_value rd r = (case r of None \<Rightarrow> None | Some s \<Rightarrow> (case rd s of Inl _ \<Rightarrow> None | Inr (v, _) \<Rightarrow> Some v))"

lemma read_value_simps [simp]: "read_value rd None = None" "rd s = Inr (v, rest) \<Longrightarrow> read_value rd (Some s) = Some v"
  by (simp_all add: read_value_def)

definition db_view :: "'db leveldb \<Rightarrow> secp \<Rightarrow> 'db cdb_wrapper \<Rightarrow> out_point \<rightharpoonup> coin" where
  "db_view ldb sp w p = (if valid_outpoint p then read_value (Unserialize_coin sp) (raw_value ldb w (CoinEntry p)) else None)"

definition db_best :: "'db leveldb \<Rightarrow> 'db cdb_wrapper \<Rightarrow> bytes" where
  "db_best ldb w = (case read_value (read_bytes 32) (raw_value ldb w (ser_writedata8 DB_BEST_BLOCK)) of None \<Rightarrow> null_hash | Some h \<Rightarrow> h)"

definition db_coins_ok :: "'db leveldb \<Rightarrow> secp \<Rightarrow> 'db cdb_wrapper \<Rightarrow> bool" where
  "db_coins_ok ldb sp w \<longleftrightarrow> (\<forall>p v. valid_outpoint p \<longrightarrow> raw_value ldb w (CoinEntry p) = Some v \<longrightarrow>
     (\<exists>c. coin_wf c \<and> Serialize_coin sp c = Some v))"

definition db_inv :: "'db leveldb \<Rightarrow> ('db \<Rightarrow> bool) \<Rightarrow> secp \<Rightarrow> 'db cdb_wrapper \<Rightarrow> bool" where
  "db_inv ldb healthy sp w \<longleftrightarrow> healthy (pdb w) \<and> db_coins_ok ldb sp w"

lemma CoinEntry_inj: "valid_outpoint p \<Longrightarrow> valid_outpoint q \<Longrightarrow> CoinEntry p = CoinEntry q \<longleftrightarrow> p = q"
proof
  assume v: "valid_outpoint p" "valid_outpoint q" and e: "CoinEntry p = CoinEntry q"
  then have h: "op_hash p = op_hash q" and n: "WriteVarInt (op_n p) = WriteVarInt (op_n q)"
    by (auto simp: CoinEntry_def valid_outpoint_def)
  have "op_n p = op_n q" using varint.round [of "op_n p" "[]"] varint.round [of "op_n q" "[]"] n by simp
  then show "p = q" using h by (cases p, cases q) simp
qed simp

lemma CoinEntry_best [simp]: "CoinEntry p \<noteq> ser_writedata8 DB_BEST_BLOCK" "ser_writedata8 DB_BEST_BLOCK \<noteq> CoinEntry p"
  by (simp_all add: CoinEntry_def ser_writedata8_def DB_COIN_def DB_BEST_BLOCK_def)

lemma coin_wf_unspent: "coin_wf c \<Longrightarrow> \<not> Coin_IsSpent c"
  by (simp add: Coin_IsSpent_def TxOut_IsNull_def coin_wf_def MoneyRange_def)

text \<open>The operations a batch carries, in the clear.\<close>

fun plain_op :: "secp \<Rightarrow> out_point \<times> cache_entry \<Rightarrow> batch_op list" where
  "plain_op sp (p, e) = (if \<not> ce_dirty e then [] else if Coin_IsSpent (ce_coin e) then [BDelete (CoinEntry p)]
     else [BPut (CoinEntry p) (the (Serialize_coin sp (ce_coin e)))])"

fun hide_op :: "bytes \<Rightarrow> batch_op \<Rightarrow> batch_op" where
  "hide_op obf (BPut k v) = BPut k (vch (ds_Xor obf (ds_new v)))" |
  "hide_op obf (BDelete k) = BDelete k"

lemma coin_batch_loop_plain:
  "\<forall>(p, e) \<in> set es. \<not> Coin_IsSpent (ce_coin e) \<longrightarrow> Serialize_coin sp (ce_coin e) \<noteq> None \<Longrightarrow>
   \<exists>b'. coin_batch_loop sp obf es b = Inr b' \<and> batch b' = batch b @ map (hide_op obf) (concat (map (plain_op sp) es))"
proof (induction es arbitrary: b)
  case (Cons pe es)
  obtain p e where pe: "pe = (p, e)" by force
  consider (clean) "\<not> ce_dirty e" | (spent) "ce_dirty e" "Coin_IsSpent (ce_coin e)"
    | (put) w where "ce_dirty e" "\<not> Coin_IsSpent (ce_coin e)" "Serialize_coin sp (ce_coin e) = Some w"
    using Cons.prems pe by fastforce
  then show ?case
  proof cases
    case clean
    then show ?thesis using Cons pe by simp
  next
    case spent
    then show ?thesis using Cons.IH [of "Batch_Erase (CoinEntry p) b"] Cons.prems pe by (auto simp: Batch_Erase_def)
  next
    case put
    then show ?thesis using Cons.IH [of "Batch_Write obf (CoinEntry p) w b"] Cons.prems pe
      by (auto simp: Batch_Write_def Let_def)
  qed
qed simp

lemma plain_op_fold:
  assumes "distinct (map fst es)" and "\<forall>(q, e) \<in> set es. valid_outpoint q" and "valid_outpoint p"
  shows "fold apply_op (concat (map (plain_op sp) es)) m (CoinEntry p) =
    (case map_of es p of Some e \<Rightarrow> if ce_dirty e then (if Coin_IsSpent (ce_coin e) then None else Some (the (Serialize_coin sp (ce_coin e))))
       else m (CoinEntry p) | None \<Rightarrow> m (CoinEntry p))"
  using assms(1,2)
proof (induction es arbitrary: m)
  case (Cons qe es)
  obtain q e where qe: "qe = (q, e)" by force
  have v: "valid_outpoint q" using Cons.prems qe by simp
  have n: "map_of es q = None" using Cons.prems qe by (auto simp: map_of_eq_None_iff)
  let ?m = "fold apply_op (plain_op sp (q, e)) m"
  have m: "?m (CoinEntry p) = (if p = q \<and> ce_dirty e then (if Coin_IsSpent (ce_coin e) then None else Some (the (Serialize_coin sp (ce_coin e))))
      else m (CoinEntry p))"
    using CoinEntry_inj [OF assms(3) v] by auto
  show ?case using Cons.IH [of ?m] Cons.prems m n qe by (auto split: option.splits)
qed simp

lemma plain_op_best: "fold apply_op (concat (map (plain_op sp) es)) m (ser_writedata8 DB_BEST_BLOCK) = m (ser_writedata8 DB_BEST_BLOCK)"
proof (induction es arbitrary: m)
  case (Cons pe es)
  then show ?case by (cases pe) auto
qed simp

context leveldb_backend
begin

lemma WriteBatch_healthy:
  assumes "healthy (pdb w)" and b: "batch b = map (hide_op (obfuscate_key w)) ops"
  shows "\<exists>w'. WriteBatch ldb b w = Inr w' \<and> healthy (pdb w') \<and> raw_value ldb w' = fold apply_op ops (raw_value ldb w)"
proof -
  let ?d = "\<lambda>v. content (ds_Xor (obfuscate_key w) (ds_new v))"
  obtain db' where db': "ldb_Write ldb (pdb w) (batch b) = Inr db'" "healthy db'" "entries db' = fold apply_op (batch b) (entries (pdb w))"
    using Write [OF assms(1)] by blast
  have one: "(\<lambda>k. map_option ?d (apply_op (hide_op (obfuscate_key w) x) m k)) = apply_op x (\<lambda>k. map_option ?d (m k))" for x m
    by (cases x) (auto simp: fun_eq_iff content_Xor_twice)
  have "(\<lambda>k. map_option ?d (fold apply_op (map (hide_op (obfuscate_key w)) ops) m k)) = fold apply_op ops (\<lambda>k. map_option ?d (m k))" for m
    by (induction ops arbitrary: m) (simp_all add: one)
  moreover have "raw_value ldb v = (\<lambda>k. map_option (\<lambda>x. content (ds_Xor (obfuscate_key v) (ds_new x))) (entries (pdb v) k))"
    if "healthy (pdb v)" for v
    using ReadDataStream_healthy [OF that] by (intro ext) blast
  ultimately have "raw_value ldb (w\<lparr>pdb := db'\<rparr>) = fold apply_op ops (raw_value ldb w)"
    using db' assms(1) b by simp
  then show ?thesis using db' by (auto simp: WriteBatch_def)
qed

end

locale coins_db = leveldb_backend ldb entries healthy + secp_points sp
  for ldb :: "'db leveldb" and entries :: "'db \<Rightarrow> bytes \<rightharpoonup> bytes" and healthy :: "'db \<Rightarrow> bool" and sp :: secp
begin

abbreviation dinv :: "'db cdb_wrapper \<Rightarrow> bool" where
  "dinv \<equiv> db_inv ldb healthy sp"

lemma stored_coin:
  assumes "dinv w" and "valid_outpoint p" and "raw_value ldb w (CoinEntry p) = Some v"
  obtains c where "coin_wf c" "Serialize_coin sp c = Some v" "db_view ldb sp w p = Some c"
proof -
  obtain c where c: "coin_wf c" "Serialize_coin sp c = Some v"
    using assms by (auto simp: db_inv_def db_coins_ok_def)
  have "Unserialize_coin sp v = Inr (c, [])"
    using coin_round [OF c(1)] c(2) by (metis append_Nil2 option.inject)
  then show ?thesis using that c assms(2,3) by (simp add: db_view_def)
qed

lemma DB_BatchWrite_ok:
  assumes w: "dinv w" and es: "batch_ok es (db_view ldb sp w)" and h: "length h = 32"
  shows "\<exists>w'. DB_BatchWrite ldb sp es h w = Inr (True, w') \<and> dinv w' \<and> db_view ldb sp w' = apply_entries es (db_view ldb sp w) \<and>
    (h \<noteq> null_hash \<longrightarrow> db_best ldb w' = h)"
proof -
  have e: "distinct (map fst es)" "\<forall>(q, e) \<in> set es. valid_outpoint q"
    and wf: "\<forall>(p, e) \<in> set es. \<not> Coin_IsSpent (ce_coin e) \<longrightarrow> coin_wf (ce_coin e)"
    using es by (auto simp: batch_ok_def)
  then have "\<forall>(p, e) \<in> set es. \<not> Coin_IsSpent (ce_coin e) \<longrightarrow> Serialize_coin sp (ce_coin e) \<noteq> None"
    by (auto simp: Serialize_coin_def Let_def)
  from coin_batch_loop_plain [OF this, of "obfuscate_key w" CDBBatch] obtain b where
    b: "coin_batch_loop sp (obfuscate_key w) es CDBBatch = Inr b"
    "batch b = map (hide_op (obfuscate_key w)) (concat (map (plain_op sp) es))"
    by (auto simp: CDBBatch_def)
  let ?K = "ser_writedata8 DB_BEST_BLOCK"
  let ?b = "if h \<noteq> null_hash then Batch_Write (obfuscate_key w) ?K h b else b"
  let ?ops = "concat (map (plain_op sp) es) @ (if h \<noteq> null_hash then [BPut ?K h] else [])"
  have "batch ?b = map (hide_op (obfuscate_key w)) ?ops" using b(2) by (simp add: Batch_Write_def Let_def)
  moreover have "healthy (pdb w)" using w by (simp add: db_inv_def)
  ultimately obtain w' where w': "WriteBatch ldb ?b w = Inr w'" "healthy (pdb w')" "raw_value ldb w' = fold apply_op ?ops (raw_value ldb w)"
    using WriteBatch_healthy by blast
  have raw: "raw_value ldb w' (CoinEntry p) = (case map_of es p of
      Some e \<Rightarrow> if ce_dirty e then (if Coin_IsSpent (ce_coin e) then None else Some (the (Serialize_coin sp (ce_coin e))))
        else raw_value ldb w (CoinEntry p)
    | None \<Rightarrow> raw_value ldb w (CoinEntry p))" if "valid_outpoint p" for p
    using w'(3) plain_op_fold [OF e that, of sp "raw_value ldb w"] by simp
  have ser: "\<exists>v. Serialize_coin sp (ce_coin e) = Some v \<and> Unserialize_coin sp v = Inr (ce_coin e, [])"
    if "map_of es p = Some e" "\<not> Coin_IsSpent (ce_coin e)" for p e
  proof -
    have "coin_wf (ce_coin e)" using that wf map_of_SomeD by fastforce
    from coin_round [OF this] show ?thesis by (metis append_Nil2)
  qed
  have "db_coins_ok ldb sp w'"
    unfolding db_coins_ok_def
  proof (intro allI impI)
    fix p v
    assume p: "valid_outpoint p" and v: "raw_value ldb w' (CoinEntry p) = Some v"
    show "\<exists>c. coin_wf c \<and> Serialize_coin sp c = Some v"
    proof (cases "\<exists>e. map_of es p = Some e \<and> ce_dirty e")
      case True
      then obtain e where e: "map_of es p = Some e" "ce_dirty e" by blast
      then have "\<not> Coin_IsSpent (ce_coin e)" "v = the (Serialize_coin sp (ce_coin e))"
        using raw [OF p] v by (auto split: if_splits)
      moreover have "\<not> Coin_IsSpent (ce_coin e) \<longrightarrow> coin_wf (ce_coin e)" using wf map_of_SomeD [OF e(1)] by fastforce
      ultimately show ?thesis using ser [OF e(1)] by auto
    next
      case False
      then have "raw_value ldb w (CoinEntry p) = Some v" using raw [OF p] v by (auto split: option.splits)
      then show ?thesis using w p by (auto simp: db_inv_def db_coins_ok_def)
    qed
  qed
  moreover have "db_view ldb sp w' = apply_entries es (db_view ldb sp w)"
  proof
    fix p
    show "db_view ldb sp w' p = apply_entries es (db_view ldb sp w) p"
    proof (cases "valid_outpoint p")
      case True
      then show ?thesis using raw [OF True] ser [of p]
        by (auto simp: db_view_def apply_entries_def live_def split: option.splits)
    next
      case False
      then have "map_of es p = None" using e(2) by (auto simp: map_of_eq_None_iff)
      then show ?thesis using False by (simp add: db_view_def apply_entries_def)
    qed
  qed
  moreover have "db_best ldb w' = h" if "h \<noteq> null_hash"
  proof -
    have "raw_value ldb w' ?K = Some h" using w'(3) that by simp
    moreover have "read_bytes 32 h = Inr (h, [])" using h by (simp add: read_bytes_def)
    ultimately show ?thesis by (simp add: db_best_def)
  qed
  ultimately show ?thesis using b(1) w'(1,2) by (simp add: DB_BatchWrite_def db_inv_def Let_def)
qed

lemma db_backend: "coins_backend (CCoinsViewDB ldb sp) (db_view ldb sp) (db_best ldb) dinv"
proof (rule coins_backend.intro)
  fix w :: "'db cdb_wrapper" and p
  assume w: "dinv w" "valid_outpoint p"
  then have h: "healthy (pdb w)" by (simp add: db_inv_def)
  show "\<exists>w'. cv_GetCoin (CCoinsViewDB ldb sp) p w = Inr (db_view ldb sp w p, w') \<and> dinv w' \<and>
      db_view ldb sp w' = db_view ldb sp w \<and> db_best ldb w' = db_best ldb w"
    using w by (simp add: DB_Read_healthy [OF h] CCoinsViewDB_def DB_GetCoin_def db_view_def read_value_def)
  have "(raw_value ldb w (CoinEntry p) \<noteq> None) = (db_view ldb sp w p \<noteq> None)"
  proof (cases "raw_value ldb w (CoinEntry p)")
    case None
    then show ?thesis by (simp add: db_view_def)
  next
    case (Some v)
    from stored_coin [OF w Some] Some show ?thesis by auto
  qed
  then show "\<exists>w'. cv_HaveCoin (CCoinsViewDB ldb sp) p w = Inr (db_view ldb sp w p \<noteq> None, w') \<and> dinv w' \<and>
      db_view ldb sp w' = db_view ldb sp w \<and> db_best ldb w' = db_best ldb w"
    using w DB_Exists_healthy [OF h] by (simp add: CCoinsViewDB_def DB_HaveCoin_def)
next
  fix w :: "'db cdb_wrapper"
  assume w: "dinv w"
  then have h: "healthy (pdb w)" by (simp add: db_inv_def)
  show "\<exists>w'. cv_GetBestBlock (CCoinsViewDB ldb sp) w = Inr (db_best ldb w, w') \<and> dinv w' \<and>
      db_view ldb sp w' = db_view ldb sp w \<and> db_best ldb w' = db_best ldb w"
    using w by (simp add: DB_Read_healthy [OF h] CCoinsViewDB_def DB_GetBestBlock_def db_best_def read_value_def)
  show "length (db_best ldb w) = 32"
    by (auto simp: db_best_def read_value_def read_bytes_def null_hash_def split: option.splits sum.splits if_splits)
next
  fix w :: "'db cdb_wrapper" and p c
  assume w: "dinv w" and v: "db_view ldb sp w p = Some c"
  then have p: "valid_outpoint p" by (auto simp: db_view_def split: if_splits)
  then obtain s where "raw_value ldb w (CoinEntry p) = Some s"
    using v by (cases "raw_value ldb w (CoinEntry p)") (auto simp: db_view_def)
  from stored_coin [OF w p this] show "\<not> Coin_IsSpent c \<and> coin_wf c" using v coin_wf_unspent by auto
next
  fix w :: "'db cdb_wrapper" and es :: coins_map and h :: bytes
  assume "dinv w" "batch_ok es (db_view ldb sp w)" "length h = 32"
  from DB_BatchWrite_ok [OF this]
  show "\<exists>w'. cv_BatchWrite (CCoinsViewDB ldb sp) es h w = Inr (True, w') \<and> dinv w' \<and>
      db_view ldb sp w' = apply_entries es (db_view ldb sp w) \<and> (h \<noteq> null_hash \<longrightarrow> db_best ldb w' = h)"
    by (simp add: CCoinsViewDB_def)
qed

end

interpretation memdb: coins_db mem_leveldb "\<lambda>db. db" "\<lambda>_. True" no_points
  by unfold_locales

interpretation disk: coins_backend "CCoinsViewDB mem_leveldb no_points" "db_view mem_leveldb no_points" "db_best mem_leveldb"
  "db_inv mem_leveldb (\<lambda>_. True) no_points"
  by (rule memdb.db_backend)

subsection \<open>The tower of caches\<close>

text \<open>The cache of the tip over the database, and over it the cache in which a block is connected.\<close>

abbreviation tip_ops :: "'db leveldb \<Rightarrow> secp \<Rightarrow> 'db cdb_wrapper coins_cache coins_ops" where
  "tip_ops ldb sp \<equiv> cache_ops (CCoinsViewDB ldb sp)"

abbreviation tip_utxo :: "'db leveldb \<Rightarrow> secp \<Rightarrow> 'db cdb_wrapper coins_cache \<Rightarrow> utxo" where
  "tip_utxo ldb sp \<equiv> abs_utxo (cache_view (db_view ldb sp)) (cache_best (db_best ldb))"

definition fresh_db :: "(bytes \<rightharpoonup> bytes) cdb_wrapper" where
  "fresh_db = \<lparr>pdb = Map.empty, obfuscate_key = [3, 5]\<rparr>"

text \<open>C2. The unspent outputs, from the block being connected down to the disk, behave as one map.  Over
  a database that stores what it is given, any sequence of reads, additions, spends, evictions and flushes
  on a fresh cache over the tip's cache returns the answers of the map and, flushed through both caches,
  leaves the final map and best block in the database, as long as callers add only coins that
  can be stored and, without permission to overwrite, are absent.\<close>

theorem coins_tower_refines:
  assumes ldb: "leveldb_backend ldb entries healthy" and sp: "secp_points sp" and db: "db_inv ldb healthy sp db"
    and tip: "length tip = 32" "tip \<noteq> null_hash"
    and run: "utxo_run xs (abs_utxo (db_view ldb sp) (db_best ldb) db\<lparr>u_best := tip\<rparr>) = Some (as, u)"
  shows "\<exists>c1 c2 c3. cache_run (tip_ops ldb sp) xs (SetBestBlock tip (CCoinsViewCache (CCoinsViewCache db))) = Inr (as, c1) \<and>
    Cache_Flush (tip_ops ldb sp) c1 = Inr (True, c2) \<and> tip_utxo ldb sp (cc_base c2) = u \<and>
    Cache_Flush (CCoinsViewDB ldb sp) (cc_base c2) = Inr (True, c3) \<and>
    abs_utxo (db_view ldb sp) (db_best ldb) (cc_base c3) = u \<and> db_inv ldb healthy sp (cc_base c3)"
proof -
  have d: "coins_backend (CCoinsViewDB ldb sp) (db_view ldb sp) (db_best ldb) (db_inv ldb healthy sp)"
    by (rule coins_db.db_backend [OF coins_db.intro [OF ldb sp]])
  note t = coins_backend.cache_backend [OF d]
  let ?c = "CCoinsViewCache (CCoinsViewCache db)"
  note f1 = coins_backend.fresh_cache [OF d db]
  note f2 = coins_backend.fresh_cache [OF t f1(1)]
  note s = coins_backend.SetBestBlock_ok [OF t f2(1) tip]
  have "cc_hashBlock (SetBestBlock tip ?c) \<noteq> null_hash" using s(3) tip(2) by simp
  from coins_backend.cache_run_flush [OF t s(1) this] run obtain c1 c2 where
    c: "cache_run (tip_ops ldb sp) xs (SetBestBlock tip ?c) = Inr (as, c1)" "cc_hashBlock c1 \<noteq> null_hash" "Cache_Flush (tip_ops ldb sp) c1 = Inr (True, c2)"
    "cache_inv (cache_view (db_view ldb sp)) (cache_inv (db_view ldb sp) (db_inv ldb healthy sp)) c2"
    "tip_utxo ldb sp (cc_base c2) = u"
    unfolding s(2) f2(2) f1(2) by blast
  have h: "cc_hashBlock (cc_base c2) \<noteq> null_hash" using Flush_hash [OF c(3)] c(2) by simp
  from c(4) have i: "cache_inv (db_view ldb sp) (db_inv ldb healthy sp) (cc_base c2)" by (simp add: cache_inv_def)
  from coins_backend.cache_run_flush [OF d i h, of "[]"] c(5) obtain c3 where
    "Cache_Flush (CCoinsViewDB ldb sp) (cc_base c2) = Inr (True, c3)" "cache_inv (db_view ldb sp) (db_inv ldb healthy sp) c3"
    "abs_utxo (db_view ldb sp) (db_best ldb) (cc_base c3) = u"
    by auto
  then show ?thesis using c by (auto simp: cache_inv_def)
qed


theorem coins_tower_refines_witness:
  "\<exists>c1 c2 c3. let p = \<lparr>op_hash = replicate 32 7, op_n = 1\<rparr>; t = replicate 32 9;
       xs = [Have_coin p, Add_coin p (sample_coin\<lparr>coin_nHeight := 77\<rparr>) False, Flush_cache, Get_coin p] in
     cache_run (tip_ops mem_leveldb no_points) xs (SetBestBlock t (CCoinsViewCache (CCoinsViewCache fresh_db))) =
       Inr ([Bool_answer False, Done, Bool_answer True, Coin_answer (Some (sample_coin\<lparr>coin_nHeight := 77\<rparr>))], c1) \<and>
     Cache_Flush (tip_ops mem_leveldb no_points) c1 = Inr (True, c2) \<and>
     Cache_Flush (CCoinsViewDB mem_leveldb no_points) (cc_base c2) = Inr (True, c3) \<and>
     db_view mem_leveldb no_points (cc_base c3) p = Some (sample_coin\<lparr>coin_nHeight := 77\<rparr>) \<and> db_best mem_leveldb (cc_base c3) = t"
proof -
  let ?p = "\<lparr>op_hash = replicate 32 7, op_n = 1\<rparr>" and ?t = "replicate 32 9 :: bytes" and ?s = "sample_coin\<lparr>coin_nHeight := 77\<rparr>"
  let ?xs = "[Have_coin ?p, Add_coin ?p ?s False, Flush_cache, Get_coin ?p]"
  have raw: "raw_value mem_leveldb fresh_db k = None" for k
    by (simp add: raw_value_def ReadDataStream_def mem_leveldb_def fresh_db_def)
  have v: "db_view mem_leveldb no_points fresh_db = Map.empty" "db_inv mem_leveldb (\<lambda>_. True) no_points fresh_db"
    by (auto simp: db_view_def db_inv_def db_coins_ok_def raw)
  have c: "coin_wf ?s" "\<not> IsUnspendable (scriptPubKey (coin_out ?s))"
    by (simp_all add: coin_wf_def sample_coin_def MoneyRange_def MAX_MONEY_def COIN_def IsUnspendable_def)
  have t: "?t \<noteq> null_hash" by (simp add: null_hash_def)
  let ?u = "\<lparr>u_coins = [?p \<mapsto> ?s], u_best = ?t\<rparr>"
  have "utxo_run ?xs (abs_utxo (db_view mem_leveldb no_points) (db_best mem_leveldb) fresh_db\<lparr>u_best := ?t\<rparr>) =
      Some ([Bool_answer False, Done, Bool_answer True, Coin_answer (Some ?s)], ?u)"
    using c coin_wf_unspent [OF c(1)] by (simp add: abs_utxo_def v valid_outpoint_def)
  from coins_tower_refines [OF mem.leveldb_backend_axioms np.secp_points_axioms v(2) _ t this]
  show ?thesis by (auto simp: abs_utxo_def Let_def)
qed

end
