(* ===== verification/Undo.thy ===== *)
theory Undo
  imports CoinsDB Contract
begin

text \<open>
  Connecting and disconnecting the coins of a block: undo records \<open>src/src/undo.h\<close>, and from
  \<open>src/src/validation.cpp\<close> \<open>UpdateCoins\<close>, the undo file, \<open>ApplyTxInUndo\<close> and \<open>DisconnectBlock\<close> with the
  address indexes it maintains (\<open>src/src/spentindex.h\<close>).  The evolution database, the special
  transactions and the outcome of index writes are arguments of \<open>DisconnectBlock\<close>.
\<close>

unbundle bit_operations_syntax

subsection \<open>Undo records\<close>

definition Serialize_txinundo :: "secp \<Rightarrow> coin \<Rightarrow> bytes" where
  "Serialize_txinundo sp c =
     WriteVarInt (word_of_int (coin_nHeight c) * 2 + (if fCoinBase c then 1 else 0) :: u32) @
     (if coin_nHeight c > 0 then ser_writedata8 0 else []) @ Serialize_ctxout sp (coin_out c)"

definition Unserialize_txinundo :: "secp \<Rightarrow> coin reader" where
  "Unserialize_txinundo sp = rbind ReadVarInt (\<lambda>nCode :: u32.
     let nHeight = int (unat (nCode div 2)) in
     rbind (if nHeight > 0 then rbind ReadVarInt (\<lambda>nVersionDummy :: u32. rret ()) else rret ()) (\<lambda>_.
     rbind (Unserialize_ctxout sp) (\<lambda>out.
       rret \<lparr>coin_out = out, fCoinBase = (nCode AND 1 \<noteq> 0), coin_nHeight = nHeight\<rparr>)))"

definition MaxBlockSize :: "bool \<Rightarrow> nat" where
  "MaxBlockSize fDIP0001Active = (if fDIP0001Active then 2000000 else 1000000)"

definition MAX_INPUTS_PER_BLOCK :: nat where
  "MAX_INPUTS_PER_BLOCK = MaxBlockSize True div
     length (Serialize_txin \<lparr>prevout = OutPoint_SetNull, scriptSig = [], nSequence = SEQUENCE_FINAL\<rparr>)"

definition Serialize_txundo :: "secp \<Rightarrow> coin list \<Rightarrow> bytes" where
  "Serialize_txundo sp vprevout =
     WriteCompactSize (of_nat (length vprevout)) @ concat (map (Serialize_txinundo sp) vprevout)"

definition Unserialize_txundo :: "secp \<Rightarrow> coin list reader" where
  "Unserialize_txundo sp = rbind ReadCompactSize (\<lambda>count.
     if unat count > MAX_INPUTS_PER_BLOCK then rfail ''Too many input undo records''
     else read_items (unat count) (Unserialize_txinundo sp))"

text \<open>A \<open>CTxUndo\<close> is a vector of 24 bytes.\<close>

definition Serialize_blockundo :: "secp \<Rightarrow> coin list list \<Rightarrow> bytes" where
  "Serialize_blockundo sp vtxundo = Serialize_vector (Serialize_txundo sp) vtxundo"

definition Unserialize_blockundo :: "secp \<Rightarrow> bytes \<Rightarrow> (ser_error + (coin list list \<times> bytes)) option" where
  "Unserialize_blockundo sp = Unserialize_vector 24 (Unserialize_txundo sp)"

subsection \<open>The undo file\<close>

text \<open>The bytes at the position \<open>UndoWriteToDisk\<close> leaves in \<open>pos\<close>, and reading from that position.\<close>

definition UndoWriteToDisk :: "crypto \<Rightarrow> secp \<Rightarrow> coin list list \<Rightarrow> bytes \<Rightarrow> bytes" where
  "UndoWriteToDisk cr sp blockundo hashBlock =
     Serialize_blockundo sp blockundo @ Hash256 cr (hashBlock @ Serialize_blockundo sp blockundo)"

definition UndoReadFromDisk :: "crypto \<Rightarrow> secp \<Rightarrow> bytes option \<Rightarrow> bytes \<Rightarrow> coin list list option" where
  "UndoReadFromDisk cr sp file hashBlock = (case file of None \<Rightarrow> None
     | Some s \<Rightarrow> (case Unserialize_blockundo sp s of
         Some (Inr (blockundo, s')) \<Rightarrow> (case read_bytes 32 s' of
             Inl _ \<Rightarrow> None
           | Inr (hashChecksum, _) \<Rightarrow>
               if hashChecksum \<noteq> Hash256 cr (hashBlock @ take (length s - length s') s) then None else Some blockundo)
       | _ \<Rightarrow> None))"

subsection \<open>Connecting\<close>

fun spend_inputs :: "'b coins_ops \<Rightarrow> tx_in list \<Rightarrow> coin list \<Rightarrow> 'b coins_cache \<Rightarrow> failure + (coin list \<times> 'b coins_cache)" where
  "spend_inputs ops [] vprevout = fret vprevout" |
  "spend_inputs ops (txin # ins) vprevout = fbind (SpendCoin ops (prevout txin)) (\<lambda>is_spent.
     case is_spent of None \<Rightarrow> (\<lambda>_. Inl Assert_failed)
     | Some coin \<Rightarrow> spend_inputs ops ins (vprevout @ [coin]))"

definition UpdateCoins :: "crypto \<Rightarrow> 'b coins_ops \<Rightarrow> transaction \<Rightarrow> int \<Rightarrow> 'b coins_cache \<Rightarrow> failure + (coin list \<times> 'b coins_cache)" where
  "UpdateCoins cr ops tx nHeight =
     fbind (if \<not> IsCoinBase tx then spend_inputs ops (vin tx) [] else fret []) (\<lambda>txundo.
     fbind (AddCoins cr tx nHeight) (\<lambda>_. fret txundo))"

text \<open>The updates of the coins in the loop of \<open>ConnectBlock\<close>; the first transaction's undo record is dropped.\<close>

fun connect_coins :: "crypto \<Rightarrow> 'b coins_ops \<Rightarrow> int \<Rightarrow> nat \<Rightarrow> transaction list \<Rightarrow> coin list list \<Rightarrow> 'b coins_cache \<Rightarrow>
    failure + (coin list list \<times> 'b coins_cache)" where
  "connect_coins cr ops nHeight i [] vtxundo = fret vtxundo" |
  "connect_coins cr ops nHeight i (tx # txs) vtxundo = fbind (UpdateCoins cr ops tx nHeight) (\<lambda>txundo.
     connect_coins cr ops nHeight (Suc i) txs (if i > 0 then vtxundo @ [txundo] else vtxundo))"

subsection \<open>Disconnecting\<close>

datatype DisconnectResult = DISCONNECT_OK | DISCONNECT_UNCLEAN | DISCONNECT_FAILED

definition MAX_OUTPUTS_PER_BLOCK :: nat where
  "MAX_OUTPUTS_PER_BLOCK = MaxBlockSize True div length (Serialize_txout TxOut_SetNull)"

fun access_loop :: "'b coins_ops \<Rightarrow> bytes \<Rightarrow> nat \<Rightarrow> nat \<Rightarrow> 'b coins_cache \<Rightarrow> failure + (coin \<times> 'b coins_cache)" where
  "access_loop ops txid n 0 = fret coinEmpty" |
  "access_loop ops txid n (Suc left) = fbind (AccessCoin ops \<lparr>op_hash = txid, op_n = of_nat n\<rparr>) (\<lambda>alternate.
     if \<not> Coin_IsSpent alternate then fret alternate else access_loop ops txid (Suc n) left)"

definition AccessByTxid :: "'b coins_ops \<Rightarrow> bytes \<Rightarrow> 'b coins_cache \<Rightarrow> failure + (coin \<times> 'b coins_cache)" where
  "AccessByTxid ops txid = access_loop ops txid 0 MAX_OUTPUTS_PER_BLOCK"

definition ApplyTxInUndo :: "'b coins_ops \<Rightarrow> coin \<Rightarrow> out_point \<Rightarrow> 'b coins_cache \<Rightarrow> failure + (DisconnectResult \<times> 'b coins_cache)" where
  "ApplyTxInUndo ops undo out = fbind (Cache_HaveCoin ops out) (\<lambda>have.
     let fClean = \<not> have;
         restore = (\<lambda>undo. fbind (AddCoin out undo (fCoinBase undo)) (\<lambda>_.
           fret (if fClean then DISCONNECT_OK else DISCONNECT_UNCLEAN)))
     in if coin_nHeight undo = 0 then
          fbind (AccessByTxid ops (op_hash out)) (\<lambda>alternate.
            if \<not> Coin_IsSpent alternate
            then restore (undo\<lparr>coin_nHeight := coin_nHeight alternate, fCoinBase := fCoinBase alternate\<rparr>)
            else fret DISCONNECT_FAILED)
        else restore undo)"

record address_index_key =
  ai_type :: nat
  ai_hashBytes :: bytes
  ai_blockHeight :: int
  ai_txindex :: nat
  ai_txhash :: bytes
  ai_index :: nat
  ai_spending :: bool

record address_unspent_key =
  au_type :: nat
  au_hashBytes :: bytes
  au_txhash :: bytes
  au_index :: nat

record address_unspent_value =
  uv_satoshis :: amount
  uv_script :: script
  uv_blockHeight :: int

definition UnspentValue_SetNull :: address_unspent_value where
  "UnspentValue_SetNull = \<lparr>uv_satoshis = - 1, uv_script = [], uv_blockHeight = 0\<rparr>"

definition UnspentValue_IsNull :: "address_unspent_value \<Rightarrow> bool" where
  "UnspentValue_IsNull v \<longleftrightarrow> uv_satoshis v = - 1"

record index_log =
  addressIndex :: "(address_index_key \<times> amount) list"
  addressUnspentIndex :: "(address_unspent_key \<times> address_unspent_value) list"
  spentIndex :: "(bytes \<times> u32) list"

text \<open>The three kinds of script the indexes know: type and hash of the address.\<close>

definition index_address :: "crypto \<Rightarrow> script \<Rightarrow> (nat \<times> bytes) option" where
  "index_address cr s =
    (if IsPayToScriptHash s then Some (2, take 20 (drop 2 s))
     else if IsPayToPublicKeyHash s then Some (1, take 20 (drop 3 s))
     else if IsPayToPublicKey s then Some (1, Hash160 cr (butlast (tl s)))
     else None)"

definition log_output :: "crypto \<Rightarrow> int \<Rightarrow> nat \<Rightarrow> bytes \<Rightarrow> nat \<times> tx_out \<Rightarrow> index_log \<Rightarrow> index_log" where
  "log_output cr nHeight i hash ko l = (case ko of (k, out) \<Rightarrow>
     (case index_address cr (scriptPubKey out) of None \<Rightarrow> l
      | Some (typ, h) \<Rightarrow> l\<lparr>
          addressIndex := addressIndex l @ [(\<lparr>ai_type = typ, ai_hashBytes = h, ai_blockHeight = nHeight,
            ai_txindex = i, ai_txhash = hash, ai_index = k, ai_spending = False\<rparr>, nValue out)],
          addressUnspentIndex := addressUnspentIndex l @
            [(\<lparr>au_type = typ, au_hashBytes = h, au_txhash = hash, au_index = k\<rparr>, UnspentValue_SetNull)]\<rparr>))"

definition log_input :: "crypto \<Rightarrow> int \<Rightarrow> nat \<Rightarrow> bytes \<Rightarrow> nat \<Rightarrow> tx_in \<Rightarrow> int \<Rightarrow> tx_out \<Rightarrow> index_log \<Rightarrow> index_log" where
  "log_input cr nHeight i hash j input undoHeight out l =
    (let s = scriptPubKey out;
         restored = (\<lambda>typ h. l\<lparr>
           addressIndex := addressIndex l @ [(\<lparr>ai_type = typ, ai_hashBytes = h, ai_blockHeight = nHeight,
             ai_txindex = i, ai_txhash = hash, ai_index = j, ai_spending = True\<rparr>, nValue out * - 1)],
           addressUnspentIndex := addressUnspentIndex l @
             [(\<lparr>au_type = typ, au_hashBytes = h, au_txhash = op_hash (prevout input), au_index = unat (op_n (prevout input))\<rparr>,
               \<lparr>uv_satoshis = nValue out, uv_script = s, uv_blockHeight = undoHeight\<rparr>)]\<rparr>)
     in if IsPayToScriptHash s then restored 2 (take 20 (drop 2 s))
        else if IsPayToPublicKeyHash s then restored 1 (take 20 (drop 3 s))
        else if IsPayToPublicKey s then
          let h = Hash160 cr (butlast (tl s)) in l\<lparr>
            addressIndex := addressIndex l @ [(\<lparr>ai_type = 1, ai_hashBytes = h, ai_blockHeight = nHeight,
              ai_txindex = i, ai_txhash = hash, ai_index = j, ai_spending = False\<rparr>, nValue out)],
            addressUnspentIndex := addressUnspentIndex l @
              [(\<lparr>au_type = 1, au_hashBytes = h, au_txhash = hash, au_index = j\<rparr>, UnspentValue_SetNull)]\<rparr>
        else l)"

text \<open>Spending the outputs of a transaction; the result says whether they all matched.\<close>

fun spend_outputs :: "'b coins_ops \<Rightarrow> bytes \<Rightarrow> bool \<Rightarrow> int \<Rightarrow> nat \<Rightarrow> tx_out list \<Rightarrow> bool \<Rightarrow> 'b coins_cache \<Rightarrow> failure + (bool \<times> 'b coins_cache)" where
  "spend_outputs ops hash is_coinbase nHeight k [] fClean = fret fClean" |
  "spend_outputs ops hash is_coinbase nHeight k (out # outs) fClean =
    (if IsUnspendable (scriptPubKey out) then spend_outputs ops hash is_coinbase nHeight (Suc k) outs fClean
     else fbind (SpendCoin ops \<lparr>op_hash = hash, op_n = of_nat k\<rparr>) (\<lambda>r.
       spend_outputs ops hash is_coinbase nHeight (Suc k) outs (case r of None \<Rightarrow> False
         | Some coin \<Rightarrow> if out \<noteq> coin_out coin \<or> nHeight \<noteq> coin_nHeight coin \<or> is_coinbase \<noteq> fCoinBase coin then False else fClean)))"

record disconnect_env =
  de_crypto :: crypto
  de_secp :: secp
  de_hash :: bytes
  de_prev_hash :: bytes
  de_nHeight :: int
  de_DIP0003Height :: int
  de_VerifyBestBlock :: bool
  de_undo :: "bytes option option"
  de_UndoSpecialTxs :: bool
  fAddressIndex :: bool
  fSpentIndex :: bool
  de_EraseAddressIndex :: "(address_index_key \<times> amount) list \<Rightarrow> bool"
  de_UpdateAddressUnspentIndex :: "(address_unspent_key \<times> address_unspent_value) list \<Rightarrow> bool"

text \<open>Restoring inputs, last input first; \<open>None\<close> is \<open>DISCONNECT_FAILED\<close>.\<close>

fun restore_inputs :: "disconnect_env \<Rightarrow> 'b coins_ops \<Rightarrow> nat \<Rightarrow> bytes \<Rightarrow> (nat \<times> tx_in \<times> coin) list \<Rightarrow> bool \<times> index_log \<Rightarrow>
    'b coins_cache \<Rightarrow> failure + ((bool \<times> index_log) option \<times> 'b coins_cache)" where
  "restore_inputs env ops i hash [] st = fret (Some st)" |
  "restore_inputs env ops i hash ((j, input, undo) # ins) (fClean, l) =
     fbind (ApplyTxInUndo ops undo (prevout input)) (\<lambda>res.
       if res = DISCONNECT_FAILED then fret None
       else
         let fClean = (fClean \<and> res \<noteq> DISCONNECT_UNCLEAN);
             l = (if fSpentIndex env then l\<lparr>spentIndex := spentIndex l @ [(op_hash (prevout input), op_n (prevout input))]\<rparr> else l)
         in if fAddressIndex env then
              fbind (AccessCoin ops (prevout input)) (\<lambda>coin.
                restore_inputs env ops i hash ins
                  (fClean, log_input (de_crypto env) (de_nHeight env) i hash j input (coin_nHeight undo) (coin_out coin) l))
            else restore_inputs env ops i hash ins (fClean, l))"

definition disconnect_tx :: "disconnect_env \<Rightarrow> 'b coins_ops \<Rightarrow> coin list list \<Rightarrow> nat \<Rightarrow> transaction \<Rightarrow> bool \<times> index_log \<Rightarrow>
    'b coins_cache \<Rightarrow> failure + ((bool \<times> index_log) option \<times> 'b coins_cache)" where
  "disconnect_tx env ops vtxundo i tx st = (case st of (fClean, l) \<Rightarrow>
    (let hash = tx_GetHash (de_crypto env) tx;
         l = (if fAddressIndex env
              then fold (log_output (de_crypto env) (de_nHeight env) i hash) (rev (zip [0..<length (vout tx)] (vout tx))) l else l)
     in fbind (spend_outputs ops hash (IsCoinBase tx) (de_nHeight env) 0 (vout tx) fClean) (\<lambda>fClean.
          if i > 0 then
            let vprevout = vtxundo ! (i - 1) in
            if length vprevout \<noteq> length (vin tx) then fret None
            else restore_inputs env ops i hash (rev (zip [0..<length (vin tx)] (zip (vin tx) vprevout))) (fClean, l)
          else fret (Some (fClean, l)))))"

fun disconnect_txs :: "disconnect_env \<Rightarrow> 'b coins_ops \<Rightarrow> coin list list \<Rightarrow> (nat \<times> transaction) list \<Rightarrow> bool \<times> index_log \<Rightarrow>
    'b coins_cache \<Rightarrow> failure + ((bool \<times> index_log) option \<times> 'b coins_cache)" where
  "disconnect_txs env ops vtxundo [] st = fret (Some st)" |
  "disconnect_txs env ops vtxundo ((i, tx) # txs) st = fbind (disconnect_tx env ops vtxundo i tx st) (\<lambda>r.
     case r of None \<Rightarrow> fret None | Some st \<Rightarrow> disconnect_txs env ops vtxundo txs st)"

text \<open>What \<open>DisconnectBlock\<close> leaves outside the view: the entries it had erased and updated in the
  indexes, and the best block it wrote to the evolution database.\<close>

record disconnect_out =
  do_result :: DisconnectResult
  do_erased :: "(address_index_key \<times> amount) list"
  do_unspent :: "(address_unspent_key \<times> address_unspent_value) list"
  do_evo_best :: "bytes option"
  do_auto_lock :: "bool option"

definition disconnect_failed :: disconnect_out where
  "disconnect_failed = \<lparr>do_result = DISCONNECT_FAILED, do_erased = [], do_unspent = [], do_evo_best = None, do_auto_lock = None\<rparr>"

definition finish_disconnect :: "disconnect_env \<Rightarrow> bool \<times> index_log \<Rightarrow> disconnect_out" where
  "finish_disconnect env st = (case st of (fClean, l) \<Rightarrow>
    (if fAddressIndex env \<and> \<not> de_EraseAddressIndex env (addressIndex l) then disconnect_failed
     else if fAddressIndex env \<and> \<not> de_UpdateAddressUnspentIndex env (addressUnspentIndex l)
     then disconnect_failed\<lparr>do_erased := addressIndex l\<rparr>
     else \<lparr>do_result = (if fClean then DISCONNECT_OK else DISCONNECT_UNCLEAN),
       do_erased = (if fAddressIndex env then addressIndex l else []),
       do_unspent = (if fAddressIndex env then addressUnspentIndex l else []),
       do_evo_best = Some (de_prev_hash env), do_auto_lock = Some (de_nHeight env \<ge> de_DIP0003Height env)\<rparr>))"

definition DisconnectBlock :: "disconnect_env \<Rightarrow> 'b coins_ops \<Rightarrow> transaction list \<Rightarrow> 'b coins_cache \<Rightarrow> failure + (disconnect_out \<times> 'b coins_cache)" where
  "DisconnectBlock env ops vtx = fbind (Cache_GetBestBlock ops) (\<lambda>best.
     if de_hash env \<noteq> best then (\<lambda>_. Inl Assert_failed)
     else if de_nHeight env \<ge> de_DIP0003Height env \<and> \<not> de_VerifyBestBlock env then fret disconnect_failed
     else (case de_undo env of None \<Rightarrow> fret disconnect_failed
       | Some file \<Rightarrow> (case UndoReadFromDisk (de_crypto env) (de_secp env) file (de_prev_hash env) of
           None \<Rightarrow> fret disconnect_failed
         | Some vtxundo \<Rightarrow>
             if length vtxundo + 1 \<noteq> length vtx then fret disconnect_failed
             else if \<not> de_UndoSpecialTxs env then fret disconnect_failed
             else fbind (disconnect_txs env ops vtxundo (rev (zip [0..<length vtx] vtx))
                    (True, \<lparr>addressIndex = [], addressUnspentIndex = [], spentIndex = []\<rparr>)) (\<lambda>r.
               case r of None \<Rightarrow> fret disconnect_failed
               | Some st \<Rightarrow> (\<lambda>view. Inr (finish_disconnect env st, SetBestBlock (de_prev_hash env) view))))))"

subsection \<open>Undo records are read back\<close>

lemma MAX_INPUTS_PER_BLOCK_eq: "MAX_INPUTS_PER_BLOCK = 48780"
  by (simp add: MAX_INPUTS_PER_BLOCK_def MaxBlockSize_def Serialize_txin_def Serialize_outpoint_def OutPoint_SetNull_def
      Serialize_bytes_def WriteCompactSize_def ser_writedata32_def ser_writedata8_def)

context secp_points
begin

lemma ctxout_round:
  assumes "coin_wf c"
  shows "Unserialize_ctxout sp (Serialize_ctxout sp (coin_out c) @ rest) = Inr (coin_out c, rest)"
  using assms cscript_round [of "scriptPubKey (coin_out c)" rest] amount_u64 [of "nValue (coin_out c)"]
  by (simp add: Unserialize_ctxout_def Serialize_ctxout_def varint.round rret_def coin_wf_def)

lemma txinundo_round:
  assumes "coin_wf c"
  shows "Unserialize_txinundo sp (Serialize_txinundo sp c @ rest) = Inr (c, rest)"
proof -
  let ?code = "word_of_int (coin_nHeight c) * 2 + (if fCoinBase c then 1 else 0) :: u32"
  have h: "int (unat (?code div 2)) = coin_nHeight c" "(?code AND 1 \<noteq> 0) = fCoinBase c" "0 \<le> coin_nHeight c"
    using assms height_code [of "coin_nHeight c" "fCoinBase c"] by (simp_all add: coin_wf_def drop_bit_eq_div)
  obtain code where code: "?code = code" by blast
  show ?thesis
    using h ctxout_round [OF assms] special_first [of 0]
    by (simp add: Serialize_txinundo_def Unserialize_txinundo_def varint.round rret_def ser_writedata8_def Let_def code)
qed

lemma txundo_round:
  assumes "\<forall>c \<in> set cs. coin_wf c" and "length cs \<le> MAX_INPUTS_PER_BLOCK"
  shows "Unserialize_txundo sp (Serialize_txundo sp cs @ rest) = Inr (cs, rest)"
proof -
  have items: "read_items (length xs) (Unserialize_txinundo sp) (concat (map (Serialize_txinundo sp) xs) @ rest) = Inr (xs, rest)"
    if "\<forall>c \<in> set xs. coin_wf c" for xs
    using that by (induction xs) (simp_all add: rret_def txinundo_round)
  have l: "length cs \<le> 48780" using assms(2) by (simp add: MAX_INPUTS_PER_BLOCK_eq)
  then have "unat (of_nat (length cs) :: u64) = length cs" "length cs \<le> MAX_SIZE" by (simp_all add: unat_u64_of_nat MAX_SIZE_def)
  then show ?thesis using items [OF assms(1)] l
    by (simp add: Serialize_txundo_def Unserialize_txundo_def compact.round MAX_INPUTS_PER_BLOCK_eq)
qed

end

sublocale secp_points \<subseteq> txundo: codec "Serialize_txundo sp" "Unserialize_txundo sp"
  "\<lambda>cs. (\<forall>c \<in> set cs. coin_wf c) \<and> length cs \<le> MAX_INPUTS_PER_BLOCK"
  by unfold_locales (simp add: txundo_round)

definition undo_wf :: "coin list list \<Rightarrow> bool" where
  "undo_wf bu \<longleftrightarrow> length bu \<le> MAX_SIZE \<and> (\<forall>cs \<in> set bu. (\<forall>c \<in> set cs. coin_wf c) \<and> length cs \<le> MAX_INPUTS_PER_BLOCK)"

context secp_points
begin

lemma undo_file_round:
  assumes "undo_wf bu" and "length (Hash256 cr (h @ Serialize_blockundo sp bu)) = 32"
  shows "UndoReadFromDisk cr sp (Some (UndoWriteToDisk cr sp bu h @ rest)) h = Some bu"
proof -
  have "Unserialize_blockundo sp (Serialize_blockundo sp bu @ s) = Some (Inr (bu, s))" for s
    unfolding Unserialize_blockundo_def Serialize_blockundo_def
    by (rule txundo.vector_round) (use assms(1) in \<open>auto simp: undo_wf_def\<close>)
  then show ?thesis using assms(2)
    by (simp add: UndoReadFromDisk_def UndoWriteToDisk_def read_bytes_def)
qed

end

subsection \<open>Runs over a cache\<close>

text \<open>An operation on a cache that, whatever the cache has fetched, returns \<open>x\<close> and takes the coins from
  \<open>m\<close> to \<open>m'\<close>.\<close>

context coins_backend
begin

definition runs :: "('b coins_cache \<Rightarrow> failure + ('a \<times> 'b coins_cache)) \<Rightarrow> (out_point \<rightharpoonup> coin) \<Rightarrow> 'a \<Rightarrow> (out_point \<rightharpoonup> coin) \<Rightarrow> bool" where
  "runs f m x m' \<longleftrightarrow> (\<forall>c. cinv c \<and> cview c = m \<longrightarrow> (\<exists>c'. f c = Inr (x, c') \<and> cinv c' \<and> cview c' = m' \<and> cc_hashBlock c' = cc_hashBlock c))"

lemma runs_ret: "runs (fret x) m x m"
  by (simp add: runs_def fret_def)

lemma runs_bind: "runs f m x m1 \<Longrightarrow> runs (g x) m1 y m2 \<Longrightarrow> runs (fbind f g) m y m2"
  unfolding runs_def by (metis fbind_Inr)

lemma runs_Spend: "valid_outpoint p \<Longrightarrow> m p = Some d \<Longrightarrow> runs (SpendCoin ops p) m (Some d) (m(p := None))"
  using SpendCoin_ok [of _ p] unfolding runs_def
  by (metis (no_types, lifting) Option.bind_eq_Some_conv live_simps(2))

lemma runs_Have: "valid_outpoint p \<Longrightarrow> runs (Cache_HaveCoin ops p) m (m p \<noteq> None) m"
  using Cache_HaveCoin_ok [of _ p] unfolding runs_def by blast

lemma runs_Access: "valid_outpoint p \<Longrightarrow> m p = Some d \<Longrightarrow> runs (AccessCoin ops p) m d m"
  using AccessCoin_ok [of _ p d] unfolding runs_def by blast

lemma runs_Add:
  "valid_outpoint p \<Longrightarrow> coin_wf d \<Longrightarrow> over \<or> m p = None \<Longrightarrow>
   runs (AddCoin p d over) m () (if IsUnspendable (scriptPubKey (coin_out d)) then m else m(p \<mapsto> d))"
  using AddCoin_ok [of _ p d over] coin_wf_unspent [of d] unfolding runs_def by blast

lemma runs_Add_unspendable:
  "\<not> Coin_IsSpent d \<Longrightarrow> IsUnspendable (scriptPubKey (coin_out d)) \<Longrightarrow> runs (AddCoin p d over) m () m"
  by (simp add: runs_def AddCoin_def)

end

subsection \<open>What a block does to the coins\<close>

abbreviation output_point :: "bytes \<Rightarrow> nat \<Rightarrow> out_point" where
  "output_point hash k \<equiv> \<lparr>op_hash = hash, op_n = of_nat k\<rparr>"

definition spend_map :: "tx_in list \<Rightarrow> (out_point \<rightharpoonup> coin) \<Rightarrow> (out_point \<rightharpoonup> coin)" where
  "spend_map ins m = (\<lambda>p. if p \<in> prevout ` set ins then None else m p)"

fun add_map :: "bytes \<Rightarrow> bool \<Rightarrow> int \<Rightarrow> nat \<Rightarrow> tx_out list \<Rightarrow> (out_point \<rightharpoonup> coin) \<Rightarrow> (out_point \<rightharpoonup> coin)" where
  "add_map hash cb h k [] m = m" |
  "add_map hash cb h k (out # outs) m = add_map hash cb h (Suc k) outs
     (if IsUnspendable (scriptPubKey out) then m
      else m(output_point hash k \<mapsto> \<lparr>coin_out = out, fCoinBase = cb, coin_nHeight = h\<rparr>))"

definition tx_map :: "crypto \<Rightarrow> int \<Rightarrow> transaction \<Rightarrow> (out_point \<rightharpoonup> coin) \<Rightarrow> (out_point \<rightharpoonup> coin)" where
  "tx_map cr h tx m = add_map (tx_GetHash cr tx) (IsCoinBase tx) h 0 (vout tx) (if IsCoinBase tx then m else spend_map (vin tx) m)"

definition tx_undo :: "transaction \<Rightarrow> (out_point \<rightharpoonup> coin) \<Rightarrow> coin list" where
  "tx_undo tx m = (if IsCoinBase tx then [] else map (\<lambda>i. the (m (prevout i))) (vin tx))"

fun block_undo :: "crypto \<Rightarrow> int \<Rightarrow> transaction list \<Rightarrow> (out_point \<rightharpoonup> coin) \<Rightarrow> coin list list" where
  "block_undo cr h [] m = []" |
  "block_undo cr h (tx # txs) m = tx_undo tx m # block_undo cr h txs (tx_map cr h tx m)"

definition block_map :: "crypto \<Rightarrow> int \<Rightarrow> transaction list \<Rightarrow> (out_point \<rightharpoonup> coin) \<Rightarrow> (out_point \<rightharpoonup> coin)" where
  "block_map cr h txs m = fold (tx_map cr h) txs m"

text \<open>A transaction that can be connected: its inputs are there, once each, its outputs are new, and
  the coins it makes can be stored or are never stored.\<close>

definition out_ok :: "bool \<Rightarrow> int \<Rightarrow> tx_out \<Rightarrow> bool" where
  "out_ok cb h out \<longleftrightarrow> \<not> TxOut_IsNull out \<and>
     (IsUnspendable (scriptPubKey out) \<or> coin_wf \<lparr>coin_out = out, fCoinBase = cb, coin_nHeight = h\<rparr>)"

definition tx_ok :: "crypto \<Rightarrow> int \<Rightarrow> (out_point \<rightharpoonup> coin) \<Rightarrow> transaction \<Rightarrow> bool" where
  "tx_ok cr h m tx \<longleftrightarrow>
    (IsCoinBase tx \<or> distinct (map prevout (vin tx)) \<and> (\<forall>i \<in> set (vin tx). valid_outpoint (prevout i) \<and> prevout i \<in> dom m)) \<and>
    length (tx_GetHash cr tx) = 32 \<and> length (vout tx) \<le> 2 ^ 32 \<and>
    (\<forall>k < length (vout tx). m (output_point (tx_GetHash cr tx) k) = None) \<and> (\<forall>out \<in> set (vout tx). out_ok (IsCoinBase tx) h out)"

fun block_ok :: "crypto \<Rightarrow> int \<Rightarrow> (out_point \<rightharpoonup> coin) \<Rightarrow> transaction list \<Rightarrow> bool" where
  "block_ok cr h m [] \<longleftrightarrow> True" |
  "block_ok cr h m (tx # txs) \<longleftrightarrow> tx_ok cr h m tx \<and> block_ok cr h (tx_map cr h tx m) txs"

text \<open>The coins of a chain: stored, created above height 0, and not provably unspendable.\<close>

definition chain_coins :: "(out_point \<rightharpoonup> coin) \<Rightarrow> bool" where
  "chain_coins m \<longleftrightarrow> (\<forall>p c. m p = Some c \<longrightarrow> coin_wf c \<and> 0 < coin_nHeight c \<and> \<not> IsUnspendable (scriptPubKey (coin_out c)))"

lemma output_point_inj: "j < 2 ^ 32 \<Longrightarrow> k < 2 ^ 32 \<Longrightarrow> output_point hash j = output_point hash k \<longleftrightarrow> j = k"
  by (metis out_point.select_convs(2) unat_u32_of_nat)

lemma add_map_commute:
  "\<forall>j. k \<le> j \<longrightarrow> j < k + length outs \<longrightarrow> p \<noteq> output_point hash j \<Longrightarrow>
   (add_map hash cb h k outs m)(p := x) = add_map hash cb h k outs (m(p := x))"
proof (induction outs arbitrary: k m)
  case (Cons out outs)
  have "p \<noteq> output_point hash k" using Cons.prems by simp
  then have "(m(output_point hash k \<mapsto> c))(p := x) = m(p := x, output_point hash k \<mapsto> c)" for c
    by (intro ext) simp
  moreover have "\<forall>j. Suc k \<le> j \<longrightarrow> j < Suc k + length outs \<longrightarrow> p \<noteq> output_point hash j" using Cons.prems by simp
  note Cons.IH [OF this]
  ultimately show ?case by (simp only: add_map.simps if_distrib [of "\<lambda>f. f(p := x)"])
qed simp

lemma add_map_other:
  "\<forall>j. k \<le> j \<longrightarrow> j < k + length outs \<longrightarrow> p \<noteq> output_point hash j \<Longrightarrow> add_map hash cb h k outs m p = m p"
proof (induction outs arbitrary: k m)
  case (Cons out outs)
  have "p \<noteq> output_point hash k" "\<forall>j. Suc k \<le> j \<longrightarrow> j < Suc k + length outs \<longrightarrow> p \<noteq> output_point hash j" using Cons.prems by simp_all
  then show ?case using Cons.IH [of "Suc k"] by simp
qed simp

lemma chain_coins_add:
  "chain_coins m \<Longrightarrow> \<forall>out \<in> set outs. out_ok cb h out \<Longrightarrow> 0 < h \<Longrightarrow> chain_coins (add_map hash cb h k outs m)"
proof (induction outs arbitrary: k m)
  case (Cons out outs)
  let ?m = "if IsUnspendable (scriptPubKey out) then m else m(output_point hash k \<mapsto> \<lparr>coin_out = out, fCoinBase = cb, coin_nHeight = h\<rparr>)"
  have "chain_coins ?m" using Cons.prems by (auto simp: chain_coins_def out_ok_def)
  then show ?case using Cons.IH [of ?m "Suc k"] Cons.prems by simp
qed simp

lemma chain_coins_tx: "chain_coins m \<Longrightarrow> tx_ok cr h m tx \<Longrightarrow> 0 < h \<Longrightarrow> chain_coins (tx_map cr h tx m)"
  unfolding tx_map_def by (rule chain_coins_add) (auto simp: tx_ok_def chain_coins_def spend_map_def)

definition input_log :: "disconnect_env \<Rightarrow> nat \<Rightarrow> bytes \<Rightarrow> nat \<times> tx_in \<times> coin \<Rightarrow> index_log \<Rightarrow> index_log" where
  "input_log env i hash x l = (case x of (j, input, undo) \<Rightarrow>
    (let l = (if fSpentIndex env then l\<lparr>spentIndex := spentIndex l @ [(op_hash (prevout input), op_n (prevout input))]\<rparr> else l)
     in if fAddressIndex env then log_input (de_crypto env) (de_nHeight env) i hash j input (coin_nHeight undo) (coin_out undo) l else l))"

definition tx_log :: "disconnect_env \<Rightarrow> (out_point \<rightharpoonup> coin) \<Rightarrow> nat \<Rightarrow> transaction \<Rightarrow> index_log \<Rightarrow> index_log" where
  "tx_log env m i tx l =
    (let hash = tx_GetHash (de_crypto env) tx;
         l = (if fAddressIndex env
              then fold (log_output (de_crypto env) (de_nHeight env) i hash) (rev (zip [0..<length (vout tx)] (vout tx))) l else l)
     in if i > 0 then fold (input_log env i hash) (rev (zip [0..<length (vin tx)] (zip (vin tx) (tx_undo tx m)))) l else l)"

lemma fold_restore:
  "distinct (map (prevout \<circ> fst \<circ> snd) xs) \<Longrightarrow> fold (\<lambda>(j, i, u) m. m(prevout i \<mapsto> u)) xs m p =
     (case map_of (map (\<lambda>(j, i, u). (prevout i, u)) xs) p of Some u \<Rightarrow> Some u | None \<Rightarrow> m p)"
proof (induction xs arbitrary: m)
  case (Cons x xs)
  obtain j i u where x: "x = (j, i, u)" by (cases x)
  have "prevout i \<notin> fst ` set (map (\<lambda>(j, i, u). (prevout i, u)) xs)" using Cons.prems x by (force simp: image_iff)
  then have "map_of (map (\<lambda>(j, i, u). (prevout i, u)) xs) (prevout i) = None" by (simp add: map_of_eq_None_iff)
  then show ?case using Cons x by (auto split: option.splits)
qed simp

context coins_backend
begin

lemma runs_spend_inputs:
  "distinct (map prevout ins) \<Longrightarrow> \<forall>i \<in> set ins. valid_outpoint (prevout i) \<and> prevout i \<in> dom m \<Longrightarrow>
   runs (spend_inputs ops ins acc) m (acc @ map (\<lambda>i. the (m (prevout i))) ins) (spend_map ins m)"
proof (induction ins arbitrary: acc m)
  case Nil
  then show ?case by (simp add: spend_map_def runs_ret)
next
  case (Cons i ins)
  obtain d where d: "valid_outpoint (prevout i)" "m (prevout i) = Some d" using Cons.prems(2) by auto
  let ?m = "m(prevout i := None)"
  have n: "\<forall>j \<in> set ins. prevout j \<noteq> prevout i" using Cons.prems(1) by (auto simp: image_iff)
  then have "runs (spend_inputs ops ins (acc @ [d])) ?m ((acc @ [d]) @ map (\<lambda>i. the (?m (prevout i))) ins) (spend_map ins ?m)"
    using Cons.prems by (intro Cons.IH) auto
  moreover have "spend_map ins ?m = spend_map (i # ins) m" by (auto simp: spend_map_def fun_eq_iff)
  moreover have "map (\<lambda>i. the (?m (prevout i))) ins = map (\<lambda>i. the (m (prevout i))) ins" using n by simp
  ultimately have "runs (spend_inputs ops ins (acc @ [d])) ?m (acc @ map (\<lambda>i. the (m (prevout i))) (i # ins)) (spend_map (i # ins) m)"
    using d(2) by (simp only: list.map append_assoc append_Cons append_Nil option.sel)
  then show ?case by (simp only: spend_inputs.simps) (rule runs_bind [OF runs_Spend [where m = m, OF d]], simp)
qed

lemma runs_AddCoins_from:
  "length hash = 32 \<Longrightarrow> k + length outs \<le> 2 ^ 32 \<Longrightarrow> \<forall>j. k \<le> j \<longrightarrow> j < k + length outs \<longrightarrow> m (output_point hash j) = None \<Longrightarrow>
   \<forall>out \<in> set outs. out_ok cb h out \<Longrightarrow> runs (AddCoins_from hash cb h k outs) m () (add_map hash cb h k outs m)"
proof (induction outs arbitrary: k m)
  case Nil
  then show ?case by (simp add: runs_ret)
next
  case (Cons out outs)
  let ?c = "\<lparr>coin_out = out, fCoinBase = cb, coin_nHeight = h\<rparr>" and ?p = "output_point hash k"
  let ?m = "if IsUnspendable (scriptPubKey out) then m else m(?p \<mapsto> ?c)"
  have "runs (AddCoin ?p ?c cb) m () ?m"
  proof (cases "IsUnspendable (scriptPubKey out)")
    case True
    then show ?thesis using Cons.prems(4) runs_Add_unspendable [of ?c] by (simp add: out_ok_def Coin_IsSpent_def)
  next
    case False
    then show ?thesis using Cons.prems runs_Add [of ?p ?c cb m] by (simp add: out_ok_def valid_outpoint_def)
  qed
  moreover have "output_point hash j \<noteq> ?p" if "Suc k \<le> j" "j < Suc k + length outs" for j
    using that Cons.prems(2) output_point_inj [of j k hash] by simp
  then have "\<forall>j. Suc k \<le> j \<longrightarrow> j < Suc k + length outs \<longrightarrow> ?m (output_point hash j) = None"
    using Cons.prems(3) by simp
  then have "runs (AddCoins_from hash cb h (Suc k) outs) ?m () (add_map hash cb h (Suc k) outs ?m)"
    using Cons.prems by (intro Cons.IH) simp_all
  ultimately show ?case by (simp only: AddCoins_from.simps add_map.simps) (rule runs_bind)
qed

lemma runs_UpdateCoins:
  assumes "tx_ok cr h m tx"
  shows "runs (UpdateCoins cr ops tx h) m (tx_undo tx m) (tx_map cr h tx m)"
proof -
  let ?m = "if IsCoinBase tx then m else spend_map (vin tx) m"
  have "runs (if \<not> IsCoinBase tx then spend_inputs ops (vin tx) [] else fret []) m (tx_undo tx m) ?m"
    using assms runs_spend_inputs [of "vin tx" m "[]"] by (auto simp: tx_ok_def tx_undo_def runs_ret)
  moreover have "runs (AddCoins cr tx h) ?m () (tx_map cr h tx m)"
    unfolding AddCoins_def tx_map_def tx_GetHash_def
    by (rule runs_AddCoins_from) (use assms in \<open>auto simp: tx_ok_def spend_map_def tx_GetHash_def\<close>)
  ultimately show ?thesis unfolding UpdateCoins_def
    by (rule runs_bind [OF _ runs_bind [OF _ runs_ret]])
qed

lemma runs_connect:
  "block_ok cr h m txs \<Longrightarrow> runs (connect_coins cr ops h i txs acc) m
     (acc @ (if i = 0 then tl (block_undo cr h txs m) else block_undo cr h txs m)) (block_map cr h txs m)"
proof (induction txs arbitrary: i m acc)
  case Nil
  then show ?case by (simp add: block_map_def runs_ret)
next
  case (Cons tx txs)
  have "runs (connect_coins cr ops h (Suc i) txs (if i > 0 then acc @ [tx_undo tx m] else acc)) (tx_map cr h tx m)
      (acc @ (if i = 0 then tl (block_undo cr h (tx # txs) m) else block_undo cr h (tx # txs) m)) (block_map cr h (tx # txs) m)"
    using Cons.IH [of "tx_map cr h tx m" "Suc i" "if i > 0 then acc @ [tx_undo tx m] else acc"] Cons.prems
    by (cases "i = 0") (simp_all add: block_map_def)
  then show ?case using Cons.prems
    by (simp only: connect_coins.simps) (rule runs_bind [OF runs_UpdateCoins], simp_all)
qed

lemma runs_spend_outputs:
  "length hash = 32 \<Longrightarrow> k + length outs \<le> 2 ^ 32 \<Longrightarrow> \<forall>j. k \<le> j \<longrightarrow> j < k + length outs \<longrightarrow> m (output_point hash j) = None \<Longrightarrow>
   runs (spend_outputs ops hash cb h k outs cl) (add_map hash cb h k outs m) cl m"
proof (induction outs arbitrary: k m)
  case Nil
  then show ?case by (simp add: runs_ret)
next
  case (Cons out outs)
  let ?c = "\<lparr>coin_out = out, fCoinBase = cb, coin_nHeight = h\<rparr>" and ?p = "output_point hash k"
  have IH: "runs (spend_outputs ops hash cb h (Suc k) outs cl) (add_map hash cb h (Suc k) outs m) cl m"
    using Cons.prems by (intro Cons.IH) simp_all
  show ?case
  proof (cases "IsUnspendable (scriptPubKey out)")
    case True
    then show ?thesis using IH by simp
  next
    case False
    have other: "\<forall>j. Suc k \<le> j \<longrightarrow> j < Suc k + length outs \<longrightarrow> ?p \<noteq> output_point hash j"
      using Cons.prems(2) output_point_inj [of k _ hash] by simp
    let ?m = "add_map hash cb h (Suc k) outs (m(?p \<mapsto> ?c))"
    have "m ?p = None" using Cons.prems(3) by simp
    then have "m(?p \<mapsto> ?c, ?p := None) = m" by (intro ext) simp
    then have "?m(?p := None) = add_map hash cb h (Suc k) outs m" by (simp only: add_map_commute [OF other])
    moreover have "?m ?p = Some ?c" using add_map_other [OF other, of cb h] by simp
    moreover have "valid_outpoint ?p" using Cons.prems(1) by (simp add: valid_outpoint_def)
    ultimately have "runs (SpendCoin ops ?p) ?m (Some ?c) (add_map hash cb h (Suc k) outs m)" using runs_Spend by metis
    then show ?thesis using IH False
      by (simp only: spend_outputs.simps add_map.simps if_False) (rule runs_bind, assumption, simp)
  qed
qed

lemma runs_ApplyTxInUndo:
  assumes "valid_outpoint p" and "coin_wf u" and "0 < coin_nHeight u" and "\<not> IsUnspendable (scriptPubKey (coin_out u))" and "m p = None"
  shows "runs (ApplyTxInUndo ops u p) m DISCONNECT_OK (m(p \<mapsto> u))"
proof -
  have "runs (AddCoin p u (fCoinBase u)) m () (m(p \<mapsto> u))" using runs_Add [of p u "fCoinBase u" m] assms by simp
  from runs_bind [OF this runs_ret] have "runs (fbind (AddCoin p u (fCoinBase u)) (\<lambda>_. fret DISCONNECT_OK)) m DISCONNECT_OK (m(p \<mapsto> u))" .
  moreover have "runs (Cache_HaveCoin ops p) m False m" using runs_Have [OF assms(1), of m] assms(5) by simp
  ultimately show ?thesis unfolding ApplyTxInUndo_def using assms(3) by (intro runs_bind [where x = False and ?m1.0 = m]) simp_all
qed

lemma runs_restore_inputs:
  "distinct (map (prevout \<circ> fst \<circ> snd) xs) \<Longrightarrow>
   \<forall>(j, i, u) \<in> set xs. valid_outpoint (prevout i) \<and> m (prevout i) = None \<and> coin_wf u \<and> 0 < coin_nHeight u \<and>
     \<not> IsUnspendable (scriptPubKey (coin_out u)) \<Longrightarrow>
   runs (restore_inputs env ops n hash xs (cl, l)) m (Some (cl, fold (input_log env n hash) xs l))
     (fold (\<lambda>(j, i, u) m. m(prevout i \<mapsto> u)) xs m)"
proof (induction xs arbitrary: m l)
  case Nil
  then show ?case by (simp add: runs_ret)
next
  case (Cons x xs)
  obtain j i u where x: "x = (j, i, u)" by (cases x)
  let ?m = "m(prevout i \<mapsto> u)"
  have u: "valid_outpoint (prevout i)" "coin_wf u" "0 < coin_nHeight u" "\<not> IsUnspendable (scriptPubKey (coin_out u))" "m (prevout i) = None"
    using Cons.prems x by auto
  have "\<forall>(j', i', u') \<in> set xs. prevout i' \<noteq> prevout i" using Cons.prems(1) x by (force simp: image_iff)
  then have IH: "runs (restore_inputs env ops n hash xs (cl, input_log env n hash x l)) ?m
      (Some (cl, fold (input_log env n hash) (x # xs) l)) (fold (\<lambda>(j, i, u) m. m(prevout i \<mapsto> u)) (x # xs) m)"
    using Cons.IH [of ?m "input_log env n hash x l"] Cons.prems x by fastforce
  have acc: "runs (AccessCoin ops (prevout i)) ?m u ?m" using runs_Access [OF u(1), of ?m u] by simp
  have "runs (restore_inputs env ops n hash (x # xs) (cl, l)) m (Some (cl, fold (input_log env n hash) (x # xs) l))
      (fold (\<lambda>(j, i, u) m. m(prevout i \<mapsto> u)) (x # xs) m)"
    unfolding x restore_inputs.simps
  proof (rule runs_bind [OF runs_ApplyTxInUndo [where m = m, OF u]], goal_cases)
    case 1
    show ?case
    proof (cases "fAddressIndex env")
      case True
      then show ?thesis using IH [unfolded x]
        by (cases "fSpentIndex env") (auto simp: input_log_def Let_def intro!: runs_bind [OF acc])
    next
      case False
      then show ?thesis using IH [unfolded x] by (simp add: input_log_def Let_def)
    qed
  qed
  then show ?case .
qed

lemma runs_disconnect_tx:
  assumes ok: "tx_ok (de_crypto env) (de_nHeight env) m tx" and cc: "chain_coins m" and cb: "IsCoinBase tx \<longleftrightarrow> i = 0"
    and undo: "0 < i \<Longrightarrow> vtxundo ! (i - 1) = tx_undo tx m"
  shows "runs (disconnect_tx env ops vtxundo i tx (cl, l)) (tx_map (de_crypto env) (de_nHeight env) tx m) (Some (cl, tx_log env m i tx l)) m"
proof -
  let ?m = "if IsCoinBase tx then m else spend_map (vin tx) m" and ?hash = "tx_GetHash (de_crypto env) tx"
  have out: "runs (spend_outputs ops ?hash (IsCoinBase tx) (de_nHeight env) 0 (vout tx) cl) (tx_map (de_crypto env) (de_nHeight env) tx m) cl ?m"
    unfolding tx_map_def by (rule runs_spend_outputs) (use ok in \<open>auto simp: tx_ok_def spend_map_def\<close>)
  show ?thesis
  proof (cases "i = 0")
    case True
    then show ?thesis unfolding disconnect_tx_def tx_log_def Let_def prod.case
      using cb by (intro runs_bind [OF out]) (simp add: runs_ret)
  next
    case False
    then have ncb: "\<not> IsCoinBase tx" using cb by simp
    let ?xs = "rev (zip [0..<length (vin tx)] (zip (vin tx) (tx_undo tx m)))"
    have len: "length (tx_undo tx m) = length (vin tx)" using ncb by (simp add: tx_undo_def)
    have keys: "map (prevout \<circ> fst \<circ> snd) ?xs = rev (map prevout (vin tx))"
      by (simp add: rev_map [symmetric] len flip: map_map)
    have d: "distinct (map (prevout \<circ> fst \<circ> snd) ?xs)" unfolding keys using ok ncb by (simp add: tx_ok_def)
    have el: "valid_outpoint (prevout a) \<and> m (prevout a) = Some u \<and> prevout a \<in> prevout ` set (vin tx)" if el: "(j, a, u) \<in> set ?xs" for j a u
    proof -
      obtain k where "k < length (vin tx)" "(a, u) = zip (vin tx) (tx_undo tx m) ! k"
        using el len by (auto simp: set_zip)
      then have "k < length (vin tx)" "a = vin tx ! k" "u = tx_undo tx m ! k" using len by auto
      then show ?thesis using ok ncb by (auto simp: tx_ok_def tx_undo_def dom_def)
    qed
    have "fold (\<lambda>(j, i, u) m. m(prevout i \<mapsto> u)) ?xs (spend_map (vin tx) m) = m"
    proof
      fix p
      show "fold (\<lambda>(j, i, u) m. m(prevout i \<mapsto> u)) ?xs (spend_map (vin tx) m) p = m p"
      proof (cases "map_of (map (\<lambda>(j, i, u). (prevout i, u)) ?xs) p")
        case None
        then have "p \<notin> set (map fst (map (\<lambda>(j, i, u). (prevout i, u)) ?xs))"
          by (simp add: map_of_eq_None_iff image_image)
        also have "map fst (map (\<lambda>(j, i, u). (prevout i, u)) ?xs) = map (prevout \<circ> fst \<circ> snd) ?xs" by (simp add: case_prod_beta comp_def)
        finally have "p \<notin> prevout ` set (vin tx)" unfolding keys by simp
        then show ?thesis using None fold_restore [OF d] by (simp add: spend_map_def)
      next
        case (Some u)
        from map_of_SomeD [OF this] show ?thesis using Some fold_restore [OF d] el by auto
      qed
    qed
    moreover have "\<forall>(j, a, u) \<in> set ?xs. valid_outpoint (prevout a) \<and> spend_map (vin tx) m (prevout a) = None \<and> coin_wf u \<and>
        0 < coin_nHeight u \<and> \<not> IsUnspendable (scriptPubKey (coin_out u))"
      using el cc by (fastforce simp: spend_map_def chain_coins_def)
    note runs_restore_inputs [OF d this]
    ultimately have "runs (restore_inputs env ops i ?hash ?xs (cl, l')) ?m (Some (cl, fold (input_log env i ?hash) ?xs l')) m" for l'
      using ncb by simp
    then show ?thesis unfolding disconnect_tx_def tx_log_def Let_def prod.case
      using False undo len by (intro runs_bind [OF out]) simp
  qed
qed

lemma disconnect_txs_append:
  "disconnect_txs env ops vtxundo (xs @ ys) st = fbind (disconnect_txs env ops vtxundo xs st)
     (\<lambda>r. case r of None \<Rightarrow> fret None | Some st \<Rightarrow> disconnect_txs env ops vtxundo ys st)"
proof (induction xs arbitrary: st)
  case Nil
  then show ?case by (simp add: fret_def fbind_def fun_eq_iff)
next
  case (Cons x xs)
  then show ?case
    by (cases x) (auto simp: fret_def fbind_def fun_eq_iff split: sum.split option.split)
qed

lemma runs_disconnect_txs:
  assumes "block_ok (de_crypto env) (de_nHeight env) m txs" and "chain_coins m" and "0 < de_nHeight env"
    and "\<forall>j < length txs. IsCoinBase (txs ! j) \<longleftrightarrow> k + j = 0"
    and "\<forall>j < length txs. 0 < k + j \<longrightarrow> vtxundo ! (k + j - 1) = block_undo (de_crypto env) (de_nHeight env) txs m ! j"
  shows "\<exists>l'. runs (disconnect_txs env ops vtxundo (rev (zip [k..<k + length txs] txs)) (cl, l))
    (block_map (de_crypto env) (de_nHeight env) txs m) (Some (cl, l')) m"
  using assms
proof (induction txs arbitrary: k m)
  case Nil
  then show ?case by (auto simp: block_map_def intro: runs_ret)
next
  case (Cons tx txs)
  let ?m = "tx_map (de_crypto env) (de_nHeight env) tx m"
  have ok: "tx_ok (de_crypto env) (de_nHeight env) m tx" and ok': "block_ok (de_crypto env) (de_nHeight env) ?m txs" using Cons.prems(1) by simp_all
  have "\<forall>j < length txs. IsCoinBase (txs ! j) \<longleftrightarrow> Suc k + j = 0"
    using Cons.prems(4) by (metis Suc_less_eq add_Suc_shift length_Cons nth_Cons_Suc)
  moreover have "\<forall>j < length txs. 0 < Suc k + j \<longrightarrow> vtxundo ! (Suc k + j - 1) = block_undo (de_crypto env) (de_nHeight env) txs ?m ! j"
    using Cons.prems(5) by force
  ultimately obtain l1 where l1: "runs (disconnect_txs env ops vtxundo (rev (zip [Suc k..<Suc k + length txs] txs)) (cl, l))
      (block_map (de_crypto env) (de_nHeight env) txs ?m) (Some (cl, l1)) ?m"
    using Cons.IH [OF ok' chain_coins_tx [OF Cons.prems(2) ok Cons.prems(3)] Cons.prems(3)] by blast
  have cb: "IsCoinBase tx \<longleftrightarrow> k = 0" using Cons.prems(4) by force
  have "vtxundo ! (k - 1) = tx_undo tx m" if "0 < k" using Cons.prems(5) that by force
  from runs_disconnect_tx [OF ok Cons.prems(2) cb this]
  have "runs (disconnect_tx env ops vtxundo k tx (cl, l1)) ?m (Some (cl, tx_log env m k tx l1)) m" by simp
  then have "runs (disconnect_txs env ops vtxundo [(k, tx)] (cl, l1)) ?m (Some (cl, tx_log env m k tx l1)) m"
    by (simp only: disconnect_txs.simps) (rule runs_bind, assumption, simp add: runs_ret)
  then have "runs (disconnect_txs env ops vtxundo (rev (zip [Suc k..<Suc k + length txs] txs) @ [(k, tx)]) (cl, l))
      (block_map (de_crypto env) (de_nHeight env) txs ?m) (Some (cl, tx_log env m k tx l1)) m"
    unfolding disconnect_txs_append by (intro runs_bind [OF l1]) simp
  moreover have "rev (zip [k..<k + length (tx # txs)] (tx # txs)) = rev (zip [Suc k..<Suc k + length txs] txs) @ [(k, tx)]"
    by (simp add: upt_conv_Cons del: upt_Suc)
  ultimately show ?case by (auto simp: block_map_def)
qed

lemma DisconnectBlock_restores:
  assumes c: "cinv c" and ok: "block_ok cr h (cview c) txs" and cc: "chain_coins (cview c)" and h: "0 < h"
    and cb: "\<forall>j < length txs. IsCoinBase (txs ! j) \<longleftrightarrow> j = 0" and txs: "txs \<noteq> []"
    and hb: "length hb = 32" "hb \<noteq> null_hash" and prev: "length prev = 32" "prev \<noteq> null_hash"
    and undo: "UndoReadFromDisk cr sp file prev = Some (tl (block_undo cr h txs (cview c)))"
    and env: "de_crypto env = cr" "de_secp env = sp" "de_nHeight env = h" "de_hash env = hb" "de_prev_hash env = prev"
      "de_undo env = Some file" "de_VerifyBestBlock env" "de_UndoSpecialTxs env"
      "\<forall>l. de_EraseAddressIndex env l" "\<forall>l. de_UpdateAddressUnspentIndex env l"
  shows "\<exists>c1 o2 c2. connect_coins cr ops h 0 txs [] c = Inr (tl (block_undo cr h txs (cview c)), c1) \<and>
    DisconnectBlock env ops txs (SetBestBlock hb c1) = Inr (o2, c2) \<and> do_result o2 = DISCONNECT_OK \<and>
    do_evo_best o2 = Some prev \<and> cinv c2 \<and> cview c2 = cview c \<and> cc_hashBlock c2 = prev"
proof -
  let ?u = "block_undo cr h txs (cview c)"
  obtain c1 where c1: "connect_coins cr ops h 0 txs [] c = Inr (tl ?u, c1)" "cinv c1" "cview c1 = block_map cr h txs (cview c)"
    using runs_connect [OF ok, of 0 "[]"] c by (auto simp: runs_def)
  have len: "length (block_undo cr h xs m) = length xs" for xs m by (induction xs arbitrary: m) simp_all
  let ?b = "SetBestBlock hb c1"
  have b: "cinv ?b" "cview ?b = cview c1" "cc_hashBlock ?b = hb"
    using SetBestBlock_ok [OF c1(2) hb] by (auto simp: abs_utxo_def)
  have "\<forall>j < length txs. 0 < 0 + j \<longrightarrow> tl ?u ! (0 + j - 1) = ?u ! j" using len [of txs] by (auto simp: nth_tl)
  then obtain l where "runs (disconnect_txs env ops (tl ?u) (rev (zip [0..<0 + length txs] txs))
      (True, \<lparr>addressIndex = [], addressUnspentIndex = [], spentIndex = []\<rparr>)) (block_map cr h txs (cview c)) (Some (True, l)) (cview c)"
    using runs_disconnect_txs [of env "cview c" txs 0 "tl ?u"] env ok cc h cb by (simp del: upt.simps) blast
  then obtain c2 where c2: "disconnect_txs env ops (tl ?u) (rev (zip [0..<length txs] txs))
      (True, \<lparr>addressIndex = [], addressUnspentIndex = [], spentIndex = []\<rparr>) ?b = Inr (Some (True, l), c2)" "cinv c2" "cview c2 = cview c"
    using b c1(3) by (auto simp: runs_def)
  have "cinv (SetBestBlock prev c2)" "cview (SetBestBlock prev c2) = cview c" "cc_hashBlock (SetBestBlock prev c2) = prev"
    using SetBestBlock_ok [OF c2(2) prev] c2(3) by (auto simp: abs_utxo_def)
  moreover have "Cache_GetBestBlock ops ?b = Inr (hb, ?b)" using b(3) hb(2) by (simp add: Cache_GetBestBlock_def)
  then have "DisconnectBlock env ops txs ?b = Inr (finish_disconnect env (True, l), SetBestBlock prev c2)"
    using env undo c2(1) len [of txs] txs by (simp add: DisconnectBlock_def)
  moreover have "do_result (finish_disconnect env (True, l)) = DISCONNECT_OK" "do_evo_best (finish_disconnect env (True, l)) = Some prev"
    using env by (simp_all add: finish_disconnect_def)
  ultimately show ?thesis using c1(1) by blast
qed

end

lemma block_undo_wf:
  assumes "chain_coins m" and "block_ok cr h m txs" and "0 < h" and "\<forall>tx \<in> set txs. length (vin tx) \<le> MAX_INPUTS_PER_BLOCK"
  shows "\<forall>cs \<in> set (block_undo cr h txs m). (\<forall>c \<in> set cs. coin_wf c) \<and> length cs \<le> MAX_INPUTS_PER_BLOCK"
  using assms
proof (induction txs arbitrary: m)
  case (Cons tx txs)
  have ok: "tx_ok cr h m tx" using Cons.prems(2) by simp
  then have "(\<forall>c \<in> set (tx_undo tx m). coin_wf c) \<and> length (tx_undo tx m) \<le> MAX_INPUTS_PER_BLOCK"
    using Cons.prems(1,4) by (auto simp: tx_undo_def tx_ok_def chain_coins_def dom_def)
  then show ?case using Cons.IH [OF chain_coins_tx [OF Cons.prems(1) ok Cons.prems(3)]] Cons.prems by simp
qed simp

subsection \<open>Disconnecting a block undoes connecting it\<close>

abbreviation block_view :: "'db leveldb \<Rightarrow> secp \<Rightarrow> 'db cdb_wrapper coins_cache coins_cache \<Rightarrow> out_point \<rightharpoonup> coin" where
  "block_view ldb sp \<equiv> cache_view (cache_view (db_view ldb sp))"

abbreviation block_inv :: "'db leveldb \<Rightarrow> ('db \<Rightarrow> bool) \<Rightarrow> secp \<Rightarrow> 'db cdb_wrapper coins_cache coins_cache \<Rightarrow> bool" where
  "block_inv ldb healthy sp \<equiv> cache_inv (cache_view (db_view ldb sp)) (cache_inv (db_view ldb sp) (db_inv ldb healthy sp))"

text \<open>C1. Disconnecting a block undoes connecting it.  After the transactions of a block have updated the
  coins of a view and their undo records have been written to disk, \<open>DisconnectBlock\<close> reads the records back, answers
  \<open>DISCONNECT_OK\<close>, and leaves exactly the coins the view had before, with the previous block as best block.  The block's
  first transaction alone is a coinbase, inputs exist and are spent once, outputs are new; SHA-256 has 32-byte digests.\<close>

theorem disconnect_restores_coins:
  assumes ldb: "leveldb_backend ldb entries healthy" and sp: "secp_points sp" and c: "block_inv ldb healthy sp c"
    and sha: "\<forall>x. length (SHA256 cr x) = 32"
    and ok: "block_ok cr h (block_view ldb sp c) txs" and cc: "chain_coins (block_view ldb sp c)" and h: "0 < h"
    and cb: "\<forall>j < length txs. IsCoinBase (txs ! j) \<longleftrightarrow> j = 0" and txs: "txs \<noteq> []" "length txs \<le> MAX_SIZE"
      "\<forall>tx \<in> set txs. length (vin tx) \<le> MAX_INPUTS_PER_BLOCK"
    and hash: "length hash = 32" "hash \<noteq> null_hash" "length prev = 32" "prev \<noteq> null_hash"
    and env: "de_crypto env = cr" "de_secp env = sp" "de_nHeight env = h" "de_hash env = hash" "de_prev_hash env = prev"
      "de_VerifyBestBlock env" "de_UndoSpecialTxs env" "\<forall>l. de_EraseAddressIndex env l" "\<forall>l. de_UpdateAddressUnspentIndex env l"
  shows "\<exists>undo c1 out c2. connect_coins cr (tip_ops ldb sp) h 0 txs [] c = Inr (undo, c1) \<and>
    DisconnectBlock (env\<lparr>de_undo := Some (Some (UndoWriteToDisk cr sp undo prev @ rest))\<rparr>) (tip_ops ldb sp) txs (SetBestBlock hash c1) =
      Inr (out, c2) \<and>
    do_result out = DISCONNECT_OK \<and> do_evo_best out = Some prev \<and> block_inv ldb healthy sp c2 \<and>
    block_view ldb sp c2 = block_view ldb sp c \<and> cc_hashBlock c2 = prev"
proof -
  have d: "coins_backend (CCoinsViewDB ldb sp) (db_view ldb sp) (db_best ldb) (db_inv ldb healthy sp)"
    by (rule coins_db.db_backend [OF coins_db.intro [OF ldb sp]])
  note t = coins_backend.cache_backend [OF d]
  let ?u = "tl (block_undo cr h txs (block_view ldb sp c))"
  have len: "length (block_undo cr h xs m) = length xs" for xs m by (induction xs arbitrary: m) simp_all
  have "block_undo cr h txs (block_view ldb sp c) \<noteq> []" using len [of txs] txs(1) by (metis length_0_conv)
  then have "set ?u \<subseteq> set (block_undo cr h txs (block_view ldb sp c))" by (auto dest: list.set_sel(2))
  then have "undo_wf ?u" using block_undo_wf [OF cc ok h txs(3)] txs(2) len by (auto simp: undo_wf_def)
  then have "UndoReadFromDisk cr sp (Some (UndoWriteToDisk cr sp ?u prev @ rest)) prev = Some ?u"
    by (rule secp_points.undo_file_round [OF sp]) (simp add: Hash256_def sha)
  from coins_backend.DisconnectBlock_restores [OF t c ok cc h cb txs(1) hash this,
      where env = "env\<lparr>de_undo := Some (Some (UndoWriteToDisk cr sp ?u prev @ rest))\<rparr>"] env
  show ?thesis by auto
qed

text \<open>A block of a coinbase and a payment, over a view with one coin.\<close>

definition prefix_crypto :: crypto where
  "prefix_crypto = \<lparr>RIPEMD160 = \<lambda>_. replicate 20 0, SHA1 = \<lambda>_. replicate 20 0,
     SHA256 = \<lambda>v. take 32 (v @ replicate 32 0), CheckLowS = \<lambda>_. True\<rparr>"

definition sample_block :: "transaction list" where
  "sample_block =
    [\<lparr>nVersion = 1, nType = 0, vin = [\<lparr>prevout = OutPoint_SetNull, scriptSig = [1, 2], nSequence = 0\<rparr>],
       vout = [\<lparr>nValue = 5, scriptPubKey = [], nRounds = - 10\<rparr>], nLockTime = 0, vExtraPayload = []\<rparr>,
     \<lparr>nVersion = 1, nType = 0, vin = [\<lparr>prevout = \<lparr>op_hash = replicate 32 7, op_n = 0\<rparr>, scriptSig = [], nSequence = 0\<rparr>],
       vout = [\<lparr>nValue = 40, scriptPubKey = [], nRounds = - 10\<rparr>, \<lparr>nValue = 3, scriptPubKey = [OP_RETURN], nRounds = - 10\<rparr>],
       nLockTime = 0, vExtraPayload = []\<rparr>]"

definition sample_cache :: "(bytes \<rightharpoonup> bytes) cdb_wrapper coins_cache coins_cache" where
  "sample_cache = \<lparr>cacheCoins = [(\<lparr>op_hash = replicate 32 7, op_n = 0\<rparr>,
       \<lparr>ce_coin = sample_coin\<lparr>coin_nHeight := 77\<rparr>, ce_dirty = True, ce_fresh = True\<rparr>)],
     cc_hashBlock = replicate 32 8, cc_base = CCoinsViewCache fresh_db\<rparr>"

definition sample_env :: disconnect_env where
  "sample_env = \<lparr>de_crypto = prefix_crypto, de_secp = no_points, de_hash = replicate 32 9, de_prev_hash = replicate 32 8,
     de_nHeight = 500, de_DIP0003Height = 100, de_VerifyBestBlock = True, de_undo = None, de_UndoSpecialTxs = True,
     fAddressIndex = True, fSpentIndex = True, de_EraseAddressIndex = \<lambda>_. True, de_UpdateAddressUnspentIndex = \<lambda>_. True\<rparr>"

lemma sample_version: "nVersion tx = 1 \<Longrightarrow> nType tx = 0 \<Longrightarrow> le_bytes 4 (n32bitVersion tx) = [1, 0, 0, 0]"
  by (simp add: n32bitVersion_def le_bytes_def upt_rec)

lemma sample_hash:
  "map (tx_GetHash prefix_crypto) sample_block =
    [[1, 0, 0, 0, 1] @ replicate 27 0, [1, 0, 0, 0, 1] @ replicate 27 7]"
  by (simp add: sample_block_def tx_GetHash_def Hash256_def prefix_crypto_def Serialize_tx_def Serialize_vector_def Serialize_txin_def
      Serialize_outpoint_def OutPoint_SetNull_def WriteCompactSize_def ser_writedata32_def ser_writedata8_def
      sample_version)

lemma fresh_db_empty: "raw_value mem_leveldb fresh_db k = None" "db_view mem_leveldb no_points fresh_db = Map.empty"
  "db_inv mem_leveldb (\<lambda>_. True) no_points fresh_db"
proof -
  show raw: "raw_value mem_leveldb fresh_db k = None" for k
    by (simp add: raw_value_def ReadDataStream_def mem_leveldb_def fresh_db_def)
  show "db_view mem_leveldb no_points fresh_db = Map.empty" "db_inv mem_leveldb (\<lambda>_. True) no_points fresh_db"
    by (auto simp: db_view_def db_inv_def db_coins_ok_def raw)
qed

lemma sample_coin_wf: "coin_wf (sample_coin\<lparr>coin_nHeight := 77\<rparr>)" "\<not> Coin_IsSpent (sample_coin\<lparr>coin_nHeight := 77\<rparr>)"
  by (simp_all add: coin_wf_def sample_coin_def MoneyRange_def MAX_MONEY_def COIN_def Coin_IsSpent_def TxOut_IsNull_def)

lemma sample_view: "block_view mem_leveldb no_points sample_cache = [\<lparr>op_hash = replicate 32 7, op_n = 0\<rparr> \<mapsto> sample_coin\<lparr>coin_nHeight := 77\<rparr>]"
  by (intro ext) (simp add: cache_view_def sample_cache_def CCoinsViewCache_def fresh_db_empty live_def sample_coin_wf)

lemma sample_inv: "block_inv mem_leveldb (\<lambda>_. True) no_points sample_cache"
proof -
  have "cache_inv (db_view mem_leveldb no_points) (db_inv mem_leveldb (\<lambda>_. True) no_points) (CCoinsViewCache fresh_db)"
    by (rule disk.fresh_cache(1)) (rule fresh_db_empty(3))
  moreover have "cache_view (db_view mem_leveldb no_points) (CCoinsViewCache fresh_db) p = None" for p
    by (simp add: cache_view_def CCoinsViewCache_def fresh_db_empty)
  ultimately show ?thesis
    by (auto simp: cache_inv_def sample_cache_def entries_ok_def entry_ok_def valid_outpoint_def sample_coin_wf)
qed

lemma sample_block_ok: "block_ok prefix_crypto 500 (block_view mem_leveldb no_points sample_cache) sample_block"
proof -
  obtain t1 t2 where t: "sample_block = [t1, t2]" by (simp add: sample_block_def)
  have h: "tx_GetHash prefix_crypto t1 = [1, 0, 0, 0, 1] @ replicate 27 0" "tx_GetHash prefix_crypto t2 = [1, 0, 0, 0, 1] @ replicate 27 7"
    using sample_hash [unfolded t] by simp_all
  have t1: "vin t1 = [\<lparr>prevout = OutPoint_SetNull, scriptSig = [1, 2], nSequence = 0\<rparr>]" "vout t1 = [\<lparr>nValue = 5, scriptPubKey = [], nRounds = - 10\<rparr>]"
    and t2: "vin t2 = [\<lparr>prevout = \<lparr>op_hash = replicate 32 7, op_n = 0\<rparr>, scriptSig = [], nSequence = 0\<rparr>]"
      "vout t2 = [\<lparr>nValue = 40, scriptPubKey = [], nRounds = - 10\<rparr>, \<lparr>nValue = 3, scriptPubKey = [OP_RETURN], nRounds = - 10\<rparr>]"
    using t by (auto simp: sample_block_def)
  have cb: "IsCoinBase t1" "\<not> IsCoinBase t2"
    by (simp_all add: IsCoinBase_def OutPoint_IsNull_def OutPoint_SetNull_def t1 t2)
  have o: "out_ok b 500 \<lparr>nValue = v, scriptPubKey = [], nRounds = - 10\<rparr>" if "0 \<le> v" "v \<le> 40" for b v
    using that by (simp add: out_ok_def TxOut_IsNull_def coin_wf_def MoneyRange_def MAX_MONEY_def COIN_def)
  have r: "out_ok b 500 \<lparr>nValue = 3, scriptPubKey = [OP_RETURN], nRounds = - 10\<rparr>" for b
    by (simp add: out_ok_def TxOut_IsNull_def IsUnspendable_def)
  have n: "1 # xs \<noteq> replicate 32 (7 :: byte)" for xs by (auto simp: Cons_replicate_eq)
  show ?thesis unfolding t sample_view
    by (simp add: tx_ok_def tx_map_def h t1 t2 cb o r valid_outpoint_def IsUnspendable_def less_Suc_eq n)
qed

theorem disconnect_restores_coins_witness:
  "\<exists>undo c1 out c2. connect_coins prefix_crypto (tip_ops mem_leveldb no_points) 500 0 sample_block [] sample_cache = Inr (undo, c1) \<and>
     DisconnectBlock (sample_env\<lparr>de_undo := Some (Some (UndoWriteToDisk prefix_crypto no_points undo (replicate 32 8) @ []))\<rparr>)
       (tip_ops mem_leveldb no_points) sample_block (SetBestBlock (replicate 32 9) c1) = Inr (out, c2) \<and>
     do_result out = DISCONNECT_OK \<and>
     block_view mem_leveldb no_points c2 = [\<lparr>op_hash = replicate 32 7, op_n = 0\<rparr> \<mapsto> sample_coin\<lparr>coin_nHeight := 77\<rparr>]"
proof -
  let ?tx = "sample_block"
  have cc: "chain_coins (block_view mem_leveldb no_points sample_cache)"
    unfolding sample_view
    by (auto simp: chain_coins_def coin_wf_def sample_coin_def MoneyRange_def MAX_MONEY_def COIN_def IsUnspendable_def split: if_splits)
  have cb: "\<forall>j < length ?tx. IsCoinBase (?tx ! j) \<longleftrightarrow> j = 0"
    by (auto simp: sample_block_def IsCoinBase_def OutPoint_IsNull_def OutPoint_SetNull_def less_Suc_eq_0_disj)
  have n: "?tx \<noteq> []" "length ?tx \<le> MAX_SIZE" "\<forall>tx \<in> set ?tx. length (vin tx) \<le> MAX_INPUTS_PER_BLOCK"
    by (simp_all add: sample_block_def MAX_SIZE_def MAX_INPUTS_PER_BLOCK_eq)
  have sha: "\<forall>x. length (SHA256 prefix_crypto x) = 32" by (simp add: prefix_crypto_def min_def)
  show ?thesis
    using disconnect_restores_coins [OF mem.leveldb_backend_axioms np.secp_points_axioms sample_inv sha sample_block_ok cc _ cb n,
        of "replicate 32 9" "replicate 32 8" sample_env "[]"]
    by (auto simp: sample_env_def null_hash_def sample_view)
qed

end
