(* ===== verification/ArithUint256.thy ===== *)
theory ArithUint256
  imports HTH_Prelude
begin

text \<open>
  The 256-bit integers of \<open>src/src/arith_uint256.h\<close> and \<open>src/src/arith_uint256.cpp\<close>: eight 32-bit limbs,
  least significant first, with the loops of the class template \<open>base_uint\<close> and the compact form of
  targets.  \<open>abs_uint\<close> reads the limbs as a HOL word; each operation is shown to compute the operation
  of that name on words.

  An assignment operator is a function from the old value of its object and its argument to the new
  value.  The argument is a reference, so it may be the object itself.  That makes a difference only
  for the product, which clears the object before it reads the argument: \<open>uint_mul\<close> is the loop with
  an argument that is another object, as in the binary operator, which works on a copy, and
  \<open>uint_mul_self\<close> the loop with the object as its own argument.  The postfix forms of the increment and
  the decrement return the old value and are not listed again.
\<close>

unbundle bit_operations_syntax

type_synonym limbs = "u32 list"

definition uint_of_u64 :: "u64 \<Rightarrow> limbs" where
  "uint_of_u64 b = [ucast b, ucast (drop_bit 32 b)] @ replicate 6 0"

definition uint_is_zero :: "limbs \<Rightarrow> bool" where
  "uint_is_zero pn = list_all (\<lambda>x. x = 0) pn"

definition uint_not :: "limbs \<Rightarrow> limbs" where
  "uint_not pn = map (\<lambda>x. NOT x) pn"

fun uint_inc :: "limbs \<Rightarrow> limbs" where
  "uint_inc [] = []" |
  "uint_inc (x # xs) = (if x + 1 = 0 \<and> xs \<noteq> [] then (x + 1) # uint_inc xs else (x + 1) # xs)"

definition uint_neg :: "limbs \<Rightarrow> limbs" where
  "uint_neg pn = uint_inc (map (\<lambda>x. NOT x) pn)"

definition uint_xor :: "limbs \<Rightarrow> limbs \<Rightarrow> limbs" where
  "uint_xor a b = map2 (\<lambda>x y. x XOR y) a b"

definition uint_and :: "limbs \<Rightarrow> limbs \<Rightarrow> limbs" where
  "uint_and a b = map2 (\<lambda>x y. x AND y) a b"

definition uint_or :: "limbs \<Rightarrow> limbs \<Rightarrow> limbs" where
  "uint_or a b = map2 (\<lambda>x y. x OR y) a b"

definition uint_xor_u64 :: "limbs \<Rightarrow> u64 \<Rightarrow> limbs" where
  "uint_xor_u64 pn b = (let pn = pn[0 := pn ! 0 XOR ucast b] in pn[1 := pn ! 1 XOR ucast (drop_bit 32 b)])"

definition uint_or_u64 :: "limbs \<Rightarrow> u64 \<Rightarrow> limbs" where
  "uint_or_u64 pn b = (let pn = pn[0 := pn ! 0 OR ucast b] in pn[1 := pn ! 1 OR ucast (drop_bit 32 b)])"

fun add_limbs :: "u64 \<Rightarrow> limbs \<Rightarrow> limbs \<Rightarrow> limbs" where
  "add_limbs carry (x # xs) (y # ys) =
    (let n = carry + ucast x + ucast y in ucast (n AND 0xffffffff) # add_limbs (drop_bit 32 n) xs ys)" |
  "add_limbs carry _ _ = []"

definition uint_add :: "limbs \<Rightarrow> limbs \<Rightarrow> limbs" where
  "uint_add a b = add_limbs 0 a b"

definition uint_sub :: "limbs \<Rightarrow> limbs \<Rightarrow> limbs" where
  "uint_sub a b = uint_add a (uint_neg b)"

definition uint_add_u64 :: "limbs \<Rightarrow> u64 \<Rightarrow> limbs" where
  "uint_add_u64 a b64 = uint_add a (uint_of_u64 b64)"

definition uint_sub_u64 :: "limbs \<Rightarrow> u64 \<Rightarrow> limbs" where
  "uint_sub_u64 a b64 = uint_add a (uint_neg (uint_of_u64 b64))"

fun uint_dec :: "limbs \<Rightarrow> limbs" where
  "uint_dec [] = []" |
  "uint_dec (x # xs) = (if x - 1 = - 1 \<and> xs \<noteq> [] then (x - 1) # uint_dec xs else (x - 1) # xs)"

definition shl_step :: "limbs \<Rightarrow> nat \<Rightarrow> nat \<Rightarrow> nat \<Rightarrow> limbs \<Rightarrow> limbs" where
  "shl_step a k shift i pn =
    (let pn = (if i + k + 1 < 8 \<and> shift \<noteq> 0 then pn[i + k + 1 := pn ! (i + k + 1) OR drop_bit (32 - shift) (a ! i)] else pn)
     in if i + k < 8 then pn[i + k := pn ! (i + k) OR push_bit shift (a ! i)] else pn)"

definition uint_shl :: "limbs \<Rightarrow> nat \<Rightarrow> limbs" where
  "uint_shl a shift = fold (shl_step a (shift div 32) (shift mod 32)) [0..<8] (replicate 8 0)"

definition shr_step :: "limbs \<Rightarrow> nat \<Rightarrow> nat \<Rightarrow> nat \<Rightarrow> limbs \<Rightarrow> limbs" where
  "shr_step a k shift i pn =
    (let pn = (if k + 1 \<le> i \<and> shift \<noteq> 0 then pn[i - k - 1 := pn ! (i - k - 1) OR push_bit (32 - shift) (a ! i)] else pn)
     in if k \<le> i then pn[i - k := pn ! (i - k) OR drop_bit shift (a ! i)] else pn)"

definition uint_shr :: "limbs \<Rightarrow> nat \<Rightarrow> limbs" where
  "uint_shr a shift = fold (shr_step a (shift div 32) (shift mod 32)) [0..<8] (replicate 8 0)"

fun mul_u32_limbs :: "u32 \<Rightarrow> u64 \<Rightarrow> limbs \<Rightarrow> limbs" where
  "mul_u32_limbs b32 carry [] = []" |
  "mul_u32_limbs b32 carry (x # xs) =
    (let n = carry + ucast b32 * ucast x in ucast (n AND 0xffffffff) # mul_u32_limbs b32 (drop_bit 32 n) xs)"

definition uint_mul_u32 :: "limbs \<Rightarrow> u32 \<Rightarrow> limbs" where
  "uint_mul_u32 pn b32 = mul_u32_limbs b32 0 pn"

fun mul_row :: "u32 \<Rightarrow> u64 \<Rightarrow> limbs \<Rightarrow> limbs \<Rightarrow> limbs" where
  "mul_row aj carry (p # ps) (x # xs) =
    (let n = carry + ucast p + ucast aj * ucast x in ucast (n AND 0xffffffff) # mul_row aj (drop_bit 32 n) ps xs)" |
  "mul_row aj carry ps _ = ps"

definition uint_mul :: "limbs \<Rightarrow> limbs \<Rightarrow> limbs" where
  "uint_mul a b = fold (\<lambda>j pn. take j pn @ mul_row (a ! j) 0 (drop j pn) b) [0..<8] (replicate 8 0)"

definition mul_self_step :: "limbs \<Rightarrow> nat \<Rightarrow> nat \<Rightarrow> u64 \<times> limbs \<Rightarrow> u64 \<times> limbs" where
  "mul_self_step a j i = (\<lambda>(carry, pn).
    let n = carry + ucast (pn ! (i + j)) + ucast (a ! j) * ucast (pn ! i)
    in (drop_bit 32 n, pn[i + j := ucast (n AND 0xffffffff)]))"

definition uint_mul_self :: "limbs \<Rightarrow> limbs" where
  "uint_mul_self a = fold (\<lambda>j pn. snd (fold (mul_self_step a j) [0..<8 - j] (0, pn))) [0..<8] (replicate 8 0)"

definition limb_bits :: "u32 \<Rightarrow> nat" where
  "limb_bits x = (case find (\<lambda>nbits. x AND push_bit nbits 1 \<noteq> 0) (rev [1..<32]) of Some nbits \<Rightarrow> nbits + 1 | None \<Rightarrow> 1)"

definition uint_bits :: "limbs \<Rightarrow> nat" where
  "uint_bits pn = (case find (\<lambda>pos. pn ! pos \<noteq> 0) (rev [0..<8]) of Some pos \<Rightarrow> 32 * pos + limb_bits (pn ! pos) | None \<Rightarrow> 0)"

fun CompareTo_from :: "limbs \<Rightarrow> limbs \<Rightarrow> nat \<Rightarrow> int" where
  "CompareTo_from a b 0 = 0" |
  "CompareTo_from a b (Suc i) = (if a ! i < b ! i then - 1 else if a ! i > b ! i then 1 else CompareTo_from a b i)"

definition CompareTo :: "limbs \<Rightarrow> limbs \<Rightarrow> int" where
  "CompareTo a b = CompareTo_from a b 8"

definition EqualTo :: "limbs \<Rightarrow> u64 \<Rightarrow> bool" where
  "EqualTo pn b =
    (if list_ex (\<lambda>i. pn ! i \<noteq> 0) (rev [2..<8]) then False
     else if ucast (pn ! 1) \<noteq> drop_bit 32 b then False
     else if ucast (pn ! 0) \<noteq> b AND 0xffffffff then False
     else True)"

definition uint_eq :: "limbs \<Rightarrow> limbs \<Rightarrow> bool" where
  "uint_eq a b = (a = b)"

text \<open>The loop of the division, with \<open>Suc shift\<close> iterations left.\<close>

fun div_steps :: "nat \<Rightarrow> limbs \<Rightarrow> limbs \<Rightarrow> limbs \<Rightarrow> limbs" where
  "div_steps 0 num dv pn = pn" |
  "div_steps (Suc shift) num dv pn =
    (if CompareTo num dv \<ge> 0
     then div_steps shift (uint_sub num dv) (uint_shr dv 1)
       (pn[shift div 32 := pn ! (shift div 32) OR push_bit (unat (of_nat shift AND (31 :: u32))) 1])
     else div_steps shift num (uint_shr dv 1) pn)"

text \<open>\<open>None\<close> is the exception ``Division by zero''.\<close>

definition uint_div :: "limbs \<Rightarrow> limbs \<Rightarrow> limbs option" where
  "uint_div a b =
    (let num_bits = uint_bits a; div_bits = uint_bits b in
     if div_bits = 0 then None
     else if div_bits > num_bits then Some (replicate 8 0)
     else let shift = num_bits - div_bits in Some (div_steps (Suc shift) a (uint_shl b shift) (replicate 8 0)))"

definition GetLow64 :: "limbs \<Rightarrow> u64" where
  "GetLow64 pn = ucast (pn ! 0) OR push_bit 32 (ucast (pn ! 1))"

text \<open>The value, and the two flags.\<close>

definition SetCompact :: "u32 \<Rightarrow> limbs \<times> bool \<times> bool" where
  "SetCompact nCompact =
    (let nSize = unat (drop_bit 24 nCompact); nWord = nCompact AND 0x007fffff;
         (nWord, pn) = (if nSize \<le> 3 then let nWord = drop_bit (8 * (3 - nSize)) nWord in (nWord, uint_of_u64 (ucast nWord))
               else (nWord, uint_shl (uint_of_u64 (ucast nWord)) (8 * (nSize - 3))))
     in (pn, nWord \<noteq> 0 \<and> nCompact AND 0x00800000 \<noteq> 0,
         nWord \<noteq> 0 \<and> (nSize > 34 \<or> (nWord > 0xff \<and> nSize > 33) \<or> (nWord > 0xffff \<and> nSize > 32))))"

text \<open>\<open>None\<close> is a failed assertion.\<close>

definition GetCompact :: "bool \<Rightarrow> limbs \<Rightarrow> u32 option" where
  "GetCompact fNegative pn =
    (let nSize = (uint_bits pn + 7) div 8;
         nCompact = (if nSize \<le> 3 then ucast (push_bit (8 * (3 - nSize)) (GetLow64 pn))
           else ucast (GetLow64 (uint_shr pn (8 * (nSize - 3))))) :: u32;
         (nCompact, nSize) = (if nCompact AND 0x00800000 \<noteq> 0 then (drop_bit 8 nCompact, nSize + 1) else (nCompact, nSize))
     in if nCompact AND NOT 0x007fffff \<noteq> 0 \<or> \<not> nSize < 256 then None
        else let nCompact = nCompact OR push_bit 24 (of_nat nSize)
             in Some (nCompact OR (if fNegative \<and> nCompact AND 0x007fffff \<noteq> 0 then 0x00800000 else 0)))"

subsection \<open>Limbs as a word\<close>

definition limbs_val :: "limbs \<Rightarrow> nat" where
  "limbs_val pn = horner_sum unat (2 ^ 32) pn"

definition abs_uint :: "limbs \<Rightarrow> 256 word" where
  "abs_uint pn = of_nat (limbs_val pn)"

lemma limbs_val_simps [simp]: "limbs_val [] = 0" "limbs_val (x # xs) = unat x + 2 ^ 32 * limbs_val xs"
  by (simp_all add: limbs_val_def)

lemma limbs_val_append: "limbs_val (xs @ ys) = limbs_val xs + 2 ^ (32 * length xs) * limbs_val ys"
  by (simp add: limbs_val_def horner_sum_append power_mult)

lemma limbs_val_less: "limbs_val pn < 2 ^ (32 * length pn)"
proof (induction pn)
  case (Cons x xs)
  have "unat x < 2 ^ 32" using unsigned_less [of x] by simp
  moreover have "2 ^ 32 * limbs_val xs + 2 ^ 32 \<le> 2 ^ 32 * 2 ^ (32 * length xs)"
    using Cons.IH by (metis Suc_leI add_mult_distrib2 mult_Suc_right mult_le_mono2 add.commute)
  ultimately have "unat x + 2 ^ 32 * limbs_val xs < 2 ^ 32 * 2 ^ (32 * length xs)" by linarith
  then show ?case by (simp add: power_add)
qed simp

lemma unat_abs_uint: "length pn = 8 \<Longrightarrow> unat (abs_uint pn) = limbs_val pn"
  using limbs_val_less [of pn] by (simp add: abs_uint_def unsigned_of_nat take_bit_nat_eq_self)

lemma bit_abs_uint: "length pn = 8 \<Longrightarrow> bit (abs_uint pn) n \<longleftrightarrow> n < 256 \<and> bit (pn ! (n div 32)) (n mod 32)"
proof -
  assume l: "length pn = 8"
  have "int (limbs_val pn) = horner_sum uint (2 ^ LENGTH(32)) pn"
    by (induction pn) (simp_all add: limbs_val_def)
  then have "abs_uint pn = word_of_int (horner_sum uint (2 ^ LENGTH(32)) pn)" 
    by (metis abs_uint_def of_int_of_nat_eq)
  then have "bit (abs_uint pn) n \<longleftrightarrow> n < 256 \<and> bit (horner_sum uint (2 ^ LENGTH(32)) pn :: int) n"
    by (simp add: bit_word_of_int_iff)
  also have "\<dots> \<longleftrightarrow> n < 256 \<and> bit (pn ! (n div 32)) (n mod 32)"
    unfolding bit_horner_sum_uint_exp_iff using l by auto
  finally show ?thesis .
qed

lemma abs_uint_eqI:
  "length pn = 8 \<Longrightarrow> (\<And>j n. j < 8 \<Longrightarrow> n < 32 \<Longrightarrow> bit (pn ! j) n \<longleftrightarrow> bit w (32 * j + n)) \<Longrightarrow> abs_uint pn = w"
  by (rule bit_word_eqI) (simp add: bit_abs_uint)

lemma bit_abs_limb: "length a = 8 \<Longrightarrow> j < 8 \<Longrightarrow> m < 32 \<Longrightarrow> bit (abs_uint a) (32 * j + m) \<longleftrightarrow> bit (a ! j) m"
  by (simp add: bit_abs_uint)

lemma bit_limb_less: "bit (x :: u32) m \<Longrightarrow> m < 32"
  using bit_imp_le_length [of x m] by simp

lemma of_nat_mod_256: "(of_nat (n mod 2 ^ 256) :: 256 word) = of_nat n"
  by (simp add: word_unat_eq_iff unsigned_of_nat take_bit_eq_mod)

subsection \<open>Addition, negation and multiplication\<close>

lemma low_limb: "unat (ucast (n AND 0xffffffff :: u64) :: u32) = unat n mod 2 ^ 32" "unat (drop_bit 32 (n :: u64)) = unat n div 2 ^ 32"
proof -
  have "n AND 0xffffffff = take_bit 32 n" by (simp add: take_bit_eq_mask mask_eq_exp_minus_1)
  moreover have "(ucast (take_bit 32 n) :: u32) = ucast n" by (rule bit_word_eqI) (simp add: bit_simps)
  ultimately have "(ucast (n AND 0xffffffff) :: u32) = ucast n" by (simp only:)
  moreover have "unat (ucast n :: u32) = unat n mod 2 ^ 32" by (simp add: unsigned_ucast_eq take_bit_eq_mod)
  ultimately show "unat (ucast (n AND 0xffffffff :: u64) :: u32) = unat n mod 2 ^ 32" by (simp only:)
  show "unat (drop_bit 32 n) = unat n div 2 ^ 32" by (rule unat_drop_bit_div)
qed

lemma unat_u32_u64: "unat (ucast (x :: u32) :: u64) = unat x" "unat (x :: u32) < 2 ^ 32"
proof -
  show less: "unat x < 2 ^ 32" using unsigned_less [of x] by simp
  then show "unat (ucast x :: u64) = unat x" by (simp add: unsigned_ucast_eq take_bit_nat_eq_self)
qed

lemma carry_mod: "r < b \<Longrightarrow> r + b * (X mod m) = (r + b * X) mod (b * m :: nat)"
  by (simp add: mod_mult2_eq)

lemma unat_add3: "unat c + a + b < 2 ^ 64 \<Longrightarrow> unat (x :: u64) = a \<Longrightarrow> unat (y :: u64) = b \<Longrightarrow> unat (c + x + y) = unat c + a + b"
  by (auto simp: unat_word_ariths take_bit_nat_eq_self)

lemma add_limbs_val:
  "length xs = length ys \<Longrightarrow> unat carry \<le> 1 \<Longrightarrow>
   length (add_limbs carry xs ys) = length xs \<and>
   limbs_val (add_limbs carry xs ys) = (unat carry + limbs_val xs + limbs_val ys) mod 2 ^ (32 * length xs)"
proof (induction xs arbitrary: ys carry)
  case (Cons x xs)
  then obtain y ys' where ys: "ys = y # ys'" "length xs = length ys'" by (cases ys) auto
  let ?n = "carry + ucast x + ucast y :: u64"
  have n: "unat ?n = unat carry + unat x + unat y"
    using Cons.prems(2) unat_u32_u64(2) [of x] unat_u32_u64(2) [of y] by (intro unat_add3) (simp_all add: unat_u32_u64(1))
  then have c: "unat (drop_bit 32 ?n) \<le> 1"
    using Cons.prems(2) unat_u32_u64(2) [of x] unat_u32_u64(2) [of y] by (simp add: low_limb)
  note IH = Cons.IH [OF ys(2) c]
  obtain A B N where A: "A = limbs_val xs" and B: "B = limbs_val ys'" and N: "N = unat ?n" by simp
  have "limbs_val (add_limbs carry (x # xs) ys) = N mod 2 ^ 32 + 2 ^ 32 * ((N div 2 ^ 32 + A + B) mod 2 ^ (32 * length xs))"
    using IH by (simp add: ys Let_def low_limb A B N)
  also have "\<dots> = (N mod 2 ^ 32 + 2 ^ 32 * (N div 2 ^ 32 + A + B)) mod (2 ^ 32 * 2 ^ (32 * length xs))"
    by (rule carry_mod) simp
  also have "N mod 2 ^ 32 + 2 ^ 32 * (N div 2 ^ 32 + A + B) = N + 2 ^ 32 * A + 2 ^ 32 * B"
    unfolding add_mult_distrib2 using mod_mult_div_eq [of N "2 ^ 32"] by linarith
  also have "\<dots> = unat carry + limbs_val (x # xs) + limbs_val ys" using n by (simp add: ys A B N)
  also have "2 ^ 32 * 2 ^ (32 * length xs) = (2 ^ (32 * length (x # xs)) :: nat)" by (simp add: power_add)
  finally show ?case using IH by (simp add: ys Let_def)
qed simp

lemma uint_add_ok: "length a = 8 \<Longrightarrow> length b = 8 \<Longrightarrow> length (uint_add a b) = 8 \<and> abs_uint (uint_add a b) = abs_uint a + abs_uint b"
proof -
  assume l: "length a = 8" "length b = 8"
  have "limbs_val (uint_add a b) = (limbs_val a + limbs_val b) mod 2 ^ 256" "length (uint_add a b) = 8"
    using add_limbs_val [of a b 0] l by (simp_all add: uint_add_def)
  then show ?thesis unfolding abs_uint_def by (simp only: of_nat_mod_256 of_nat_add)
qed

lemma uint_not_ok: "length a = 8 \<Longrightarrow> length (uint_not a) = 8 \<and> abs_uint (uint_not a) = NOT (abs_uint a)"
proof -
  assume l: "length a = 8"
  then have "length (uint_not a) = 8" by (simp add: uint_not_def)
  moreover have "abs_uint (uint_not a) = NOT (abs_uint a)"
    using l by (intro abs_uint_eqI) (auto simp: uint_not_def bit_abs_uint bit_not_iff)
  ultimately show ?thesis by simp
qed

lemma uint_inc_val: "length (uint_inc a) = length a \<and> limbs_val (uint_inc a) = (limbs_val a + of_bool (a \<noteq> [])) mod 2 ^ (32 * length a)"
proof (induction a rule: uint_inc.induct)
  case (2 x xs)
  have len: "2 ^ (32 * length (x # xs)) = (2 ^ 32 * 2 ^ (32 * length xs) :: nat)" by (simp add: power_add)
  have xs: "limbs_val xs < 2 ^ (32 * length xs)" by (rule limbs_val_less)
  show ?case
  proof (cases "x + 1 = 0")
    case True
    then have "x = - 1" by (simp add: eq_neg_iff_add_eq_0)
    then have x: "unat x = 2 ^ 32 - 1" by (simp add: unsigned_minus_1_eq_mask mask_eq_exp_minus_1)
    obtain A where A: "A = limbs_val xs" by simp
    have "unat x + 2 ^ 32 * A + 1 = 0 + 2 ^ 32 * (A + 1)" using x by simp
    then have "(unat x + 2 ^ 32 * A + 1) mod (2 ^ 32 * 2 ^ (32 * length xs)) = 2 ^ 32 * ((A + 1) mod 2 ^ (32 * length xs))"
      by (metis add_0 mult_mod_right)
    then show ?thesis using 2 True A len by (cases "xs = []") simp_all
  next
    case False
    then have "unat (x + 1) = unat x + 1" by (metis Suc_eq_plus1 unatSuc add.commute)
    moreover have "unat (x + 1) + 2 ^ 32 * limbs_val xs < 2 ^ 32 * 2 ^ (32 * length xs)"
      using limbs_val_less [of "(x + 1) # xs"] len by simp
    ultimately show ?thesis using False len by (simp add: mod_less)
  qed
qed simp

lemma uint_neg_ok: "length a = 8 \<Longrightarrow> length (uint_neg a) = 8 \<and> abs_uint (uint_neg a) = - abs_uint a"
proof -
  assume l: "length a = 8"
  then have n: "length (uint_not a) = 8" "abs_uint (uint_not a) = NOT (abs_uint a)" using uint_not_ok by blast+
  have "length (uint_inc (uint_not a)) = 8" "limbs_val (uint_inc (uint_not a)) = (limbs_val (uint_not a) + 1) mod 2 ^ 256"
    using uint_inc_val [of "uint_not a"] n(1) by auto
  then have "length (uint_neg a) = 8" "abs_uint (uint_neg a) = NOT (abs_uint a) + 1"
    using n(2) by (auto simp only: uint_neg_def uint_not_def [symmetric] abs_uint_def of_nat_mod_256 of_nat_add of_nat_1)
  then show ?thesis by (simp add: minus_eq_not_plus_1)
qed

lemma uint_sub_ok: "length a = 8 \<Longrightarrow> length b = 8 \<Longrightarrow> length (uint_sub a b) = 8 \<and> abs_uint (uint_sub a b) = abs_uint a - abs_uint b"
  using uint_neg_ok [of b] uint_add_ok [of a "uint_neg b"] by (simp add: uint_sub_def)

lemma mul_row_val:
  "length ps \<le> length xs \<Longrightarrow> unat carry < 2 ^ 32 \<Longrightarrow>
   length (mul_row y carry ps xs) = length ps \<and>
   limbs_val (mul_row y carry ps xs) = (unat carry + limbs_val ps + unat y * limbs_val xs) mod 2 ^ (32 * length ps)"
proof (induction ps arbitrary: xs carry)
  case Nil
  then show ?case by simp
next
  case (Cons p ps)
  then obtain x xs' where xs: "xs = x # xs'" "length ps \<le> length xs'" by (cases xs) auto
  let ?n = "carry + ucast p + ucast y * ucast x :: u64"
  have b: "unat y \<le> 2 ^ 32 - 1" "unat x \<le> 2 ^ 32 - 1" "unat p < 2 ^ 32"
    using unat_u32_u64(2) [of x] unat_u32_u64(2) [of y] unat_u32_u64(2) [of p] by auto
  have m: "unat y * unat x \<le> (2 ^ 32 - 1) * (2 ^ 32 - 1)" using b by (intro mult_mono) auto
  then have yx: "unat (ucast y * ucast x :: u64) = unat y * unat x"
    by (simp add: unat_word_ariths unat_u32_u64(1) take_bit_nat_eq_self)
  have n: "unat ?n = unat carry + unat p + unat y * unat x"
    using Cons.prems(2) b m by (intro unat_add3 yx) (simp_all add: unat_u32_u64(1))
  then have c: "unat (drop_bit 32 ?n) < 2 ^ 32" using Cons.prems(2) b m by (simp add: low_limb)
  note IH = Cons.IH [OF xs(2) c]
  obtain A B N where A: "A = limbs_val ps" and B: "B = limbs_val xs'" and N: "N = unat ?n" by simp
  have "limbs_val (mul_row y carry (p # ps) xs) = N mod 2 ^ 32 + 2 ^ 32 * ((N div 2 ^ 32 + A + unat y * B) mod 2 ^ (32 * length ps))"
    using IH by (simp add: xs Let_def low_limb A B N)
  also have "\<dots> = (N mod 2 ^ 32 + 2 ^ 32 * (N div 2 ^ 32 + A + unat y * B)) mod (2 ^ 32 * 2 ^ (32 * length ps))"
    by (rule carry_mod) simp
  also have "N mod 2 ^ 32 + 2 ^ 32 * (N div 2 ^ 32 + A + unat y * B) = N + 2 ^ 32 * A + 2 ^ 32 * (unat y * B)"
    unfolding add_mult_distrib2 using mod_mult_div_eq [of N "2 ^ 32"] by linarith
  also have "\<dots> = unat carry + limbs_val (p # ps) + unat y * limbs_val xs"
    using n by (simp add: xs A B N add_mult_distrib2)
  also have "2 ^ 32 * 2 ^ (32 * length ps) = (2 ^ (32 * length (p # ps)) :: nat)" by (simp add: power_add)
  finally show ?case using IH by (simp add: xs Let_def)
qed

lemma uint_mul_ok: "length a = 8 \<Longrightarrow> length b = 8 \<Longrightarrow> length (uint_mul a b) = 8 \<and> abs_uint (uint_mul a b) = abs_uint a * abs_uint b"
proof -
  assume l: "length a = 8" "length b = 8"
  let ?f = "\<lambda>j pn. take j pn @ mul_row (a ! j) 0 (drop j pn) b"
  have "length (fold ?f [0..<n] (replicate 8 0)) = 8 \<and>
      limbs_val (fold ?f [0..<n] (replicate 8 0)) mod 2 ^ 256 = (limbs_val (take n a) * limbs_val b) mod 2 ^ 256" if "n \<le> 8" for n
    using that
  proof (induction n)
    case 0
    have "limbs_val (replicate m 0) = 0" for m by (induction m) simp_all
    then show ?case by simp
  next
    case (Suc n)
    define pn where "pn = fold ?f [0..<n] (replicate 8 0)"
    have pn: "length pn = 8" "limbs_val pn mod 2 ^ 256 = (limbs_val (take n a) * limbs_val b) mod 2 ^ 256" using Suc by (simp_all add: pn_def)
    have row: "length (mul_row (a ! n) 0 (drop n pn) b) = 8 - n"
      "limbs_val (mul_row (a ! n) 0 (drop n pn) b) = (limbs_val (drop n pn) + unat (a ! n) * limbs_val b) mod 2 ^ (32 * (8 - n))"
      using mul_row_val [of "drop n pn" b 0 "a ! n"] pn(1) l by simp_all
    have tk: "limbs_val (take n pn) < 2 ^ (32 * n)" using limbs_val_less [of "take n pn"] pn(1) Suc.prems by simp
    have ln: "length (take n pn) = n" "length (take n a) = n" using pn(1) l(1) Suc.prems by simp_all
    have "2 ^ (32 * n) * 2 ^ (32 * (8 - n)) = (2 ^ 256 :: nat)"
      using Suc.prems by (simp add: power_add [symmetric] add_mult_distrib2 [symmetric])
    then have "limbs_val (?f n pn) = (limbs_val (take n pn) + 2 ^ (32 * n) * (limbs_val (drop n pn) + unat (a ! n) * limbs_val b)) mod 2 ^ 256"
      using carry_mod [OF tk, of "limbs_val (drop n pn) + unat (a ! n) * limbs_val b" "2 ^ (32 * (8 - n))"]
      by (simp only: limbs_val_append row ln)
    also have "limbs_val (take n pn) + 2 ^ (32 * n) * (limbs_val (drop n pn) + unat (a ! n) * limbs_val b) =
        limbs_val pn + 2 ^ (32 * n) * unat (a ! n) * limbs_val b"
      using limbs_val_append [of "take n pn" "drop n pn"] ln by (simp add: add_mult_distrib2)
    also have "\<dots> mod 2 ^ 256 = (limbs_val (take n a) * limbs_val b + 2 ^ (32 * n) * unat (a ! n) * limbs_val b) mod 2 ^ 256"
      using pn(2) by (rule mod_add_cong) simp
    also have "limbs_val (take n a) * limbs_val b + 2 ^ (32 * n) * unat (a ! n) * limbs_val b = limbs_val (take (Suc n) a) * limbs_val b"
      using limbs_val_append [of "take n a" "[a ! n]"] ln Suc.prems l(1) by (simp add: take_Suc_conv_app_nth add_mult_distrib)
    finally have "limbs_val (?f n pn) mod 2 ^ 256 = (limbs_val (take (Suc n) a) * limbs_val b) mod 2 ^ 256" by (simp only: mod_mod_trivial)
    then show ?case using row(1) ln Suc.prems by (simp add: pn_def [symmetric])
  qed
  from this [of 8] l have "length (uint_mul a b) = 8" "limbs_val (uint_mul a b) mod 2 ^ 256 = (limbs_val a * limbs_val b) mod 2 ^ 256"
    by (simp_all add: uint_mul_def)
  then have "(of_nat (limbs_val (uint_mul a b)) :: 256 word) = of_nat (limbs_val a * limbs_val b)" by (metis of_nat_mod_256)
  then show ?thesis using \<open>length (uint_mul a b) = 8\<close> by (simp add: abs_uint_def)
qed

subsection \<open>Shifts\<close>

lemma shl_fold:
  assumes "n \<le> 8"
  shows "length (fold (shl_step a k s) [0..<n] (replicate 8 0)) = 8 \<and> (\<forall>t < 8. fold (shl_step a k s) [0..<n] (replicate 8 0) ! t =
    (if k \<le> t \<and> t - k < n then push_bit s (a ! (t - k)) else 0) OR
    (if Suc k \<le> t \<and> t - Suc k < n \<and> s \<noteq> 0 then drop_bit (32 - s) (a ! (t - Suc k)) else 0))"
  using assms
proof (induction n)
  case 0
  then show ?case by simp
next
  case (Suc n)
  then show ?case
    by (auto simp: shl_step_def Let_def nth_list_update less_Suc_eq or.commute or.left_commute)
qed

lemma uint_shl_ok:
  assumes l: "length a = 8"
  shows "length (uint_shl a shift) = 8 \<and> abs_uint (uint_shl a shift) = push_bit shift (abs_uint a)"
proof -
  define k s where "k = shift div 32" and "s = shift mod 32"
  have shift: "shift = 32 * k + s" "s < 32" by (simp_all add: k_def s_def)
  have u: "length (uint_shl a shift) = 8" "\<forall>t < 8. uint_shl a shift ! t =
      (if k \<le> t then push_bit s (a ! (t - k)) else 0) OR (if Suc k \<le> t \<and> s \<noteq> 0 then drop_bit (32 - s) (a ! (t - Suc k)) else 0)"
    unfolding uint_shl_def k_def [symmetric] s_def [symmetric] using shl_fold [of 8 a k s] by auto
  have "abs_uint (uint_shl a shift) = push_bit shift (abs_uint a)"
  proof (rule abs_uint_eqI [OF u(1)])
    fix t n :: nat
    assume t: "t < 8" and n: "n < 32"
    have b: "bit (push_bit shift (abs_uint a)) (32 * t + n) \<longleftrightarrow> shift \<le> 32 * t + n \<and> bit (abs_uint a) (32 * t + n - shift)"
      using t n by (auto simp: bit_push_bit_iff)
    show "bit (uint_shl a shift ! t) n \<longleftrightarrow> bit (push_bit shift (abs_uint a)) (32 * t + n)"
    proof (cases "s \<le> n")
      case True
      have "shift \<le> 32 * t + n \<longleftrightarrow> k \<le> t" using shift n True by auto
      moreover have "32 * t + n - shift = 32 * (t - k) + (n - s)" if "k \<le> t" using that shift True by (simp add: algebra_simps)
      ultimately have "bit (push_bit shift (abs_uint a)) (32 * t + n) \<longleftrightarrow> k \<le> t \<and> bit (a ! (t - k)) (n - s)"
        unfolding b using t n bit_abs_limb [OF l, of "t - k" "n - s"] by (cases "k \<le> t") simp_all
      moreover have "bit (uint_shl a shift ! t) n \<longleftrightarrow> k \<le> t \<and> bit (a ! (t - k)) (n - s)"
        using u(2) t n True shift(2) by (auto simp: bit_or_iff bit_push_bit_iff bit_drop_bit_eq dest: bit_limb_less)
      ultimately show ?thesis by simp
    next
      case False
      have "shift \<le> 32 * t + n \<longleftrightarrow> Suc k \<le> t" using shift n False by auto
      moreover have "32 * t + n - shift = 32 * (t - Suc k) + (32 + n - s)" if "Suc k \<le> t" using that shift False n by (simp add: algebra_simps)
      ultimately have "bit (push_bit shift (abs_uint a)) (32 * t + n) \<longleftrightarrow> Suc k \<le> t \<and> bit (a ! (t - Suc k)) (32 + n - s)"
        unfolding b using t n False bit_abs_limb [OF l, of "t - Suc k" "32 + n - s"] by (cases "Suc k \<le> t") simp_all
      moreover have "bit (uint_shl a shift ! t) n \<longleftrightarrow> Suc k \<le> t \<and> bit (a ! (t - Suc k)) (32 + n - s)"
        using u(2) t n False shift(2) by (auto simp: bit_or_iff bit_push_bit_iff bit_drop_bit_eq)
      ultimately show ?thesis by simp
    qed
  qed
  then show ?thesis using u(1) by simp
qed

lemma shr_fold:
  assumes "n \<le> 8"
  shows "length (fold (shr_step a k s) [0..<n] (replicate 8 0)) = 8 \<and> (\<forall>t < 8. fold (shr_step a k s) [0..<n] (replicate 8 0) ! t =
    (if t + k < n then drop_bit s (a ! (t + k)) else 0) OR
    (if t + k + 1 < n \<and> s \<noteq> 0 then push_bit (32 - s) (a ! (t + k + 1)) else 0))"
  using assms
proof (induction n)
  case 0
  then show ?case by simp
next
  case (Suc n)
  define pn where "pn = fold (shr_step a k s) [0..<n] (replicate 8 0)"
  have pn: "length pn = 8" "\<forall>t < 8. pn ! t = (if t + k < n then drop_bit s (a ! (t + k)) else 0) OR
      (if t + k + 1 < n \<and> s \<noteq> 0 then push_bit (32 - s) (a ! (t + k + 1)) else 0)"
    using Suc by (simp_all add: pn_def)
  have "shr_step a k s n pn ! t = (if t + k < Suc n then drop_bit s (a ! (t + k)) else 0) OR
      (if t + k + 1 < Suc n \<and> s \<noteq> 0 then push_bit (32 - s) (a ! (t + k + 1)) else 0)" if t: "t < 8" for t
  proof -
    consider "t + k = n" | "t + k + 1 = n" | "t + k < n" "t + k + 1 < n" | "n < t + k" by linarith
    then show ?thesis
    proof cases
      case 1
      then show ?thesis using pn t by (auto simp: shr_step_def Let_def nth_list_update)
    next
      case 2
      then have "n - k - 1 = t" "n - k \<noteq> t" "n - k < 8" using Suc.prems by auto
      then show ?thesis using pn t 2 by (auto simp: shr_step_def Let_def nth_list_update or.commute)
    next
      case 3
      then have "n - k - 1 \<noteq> t" "n - k \<noteq> t" by auto
      then show ?thesis using pn t 3 by (simp add: shr_step_def Let_def)
    next
      case 4
      then have "k \<le> n \<Longrightarrow> n - k \<noteq> t" "k + 1 \<le> n \<Longrightarrow> n - k - 1 \<noteq> t" by auto
      then show ?thesis using pn t 4 by (simp add: shr_step_def Let_def)
    qed
  qed
  moreover have "length (shr_step a k s n pn) = 8" using pn(1) by (simp add: shr_step_def Let_def)
  ultimately show ?case by (simp add: pn_def [symmetric])
qed

lemma uint_shr_ok:
  assumes l: "length a = 8"
  shows "length (uint_shr a shift) = 8 \<and> abs_uint (uint_shr a shift) = drop_bit shift (abs_uint a)"
proof -
  define k s where "k = shift div 32" and "s = shift mod 32"
  have shift: "shift = 32 * k + s" "s < 32" by (simp_all add: k_def s_def)
  have u: "length (uint_shr a shift) = 8" "\<forall>t < 8. uint_shr a shift ! t =
      (if t + k < 8 then drop_bit s (a ! (t + k)) else 0) OR (if t + k + 1 < 8 \<and> s \<noteq> 0 then push_bit (32 - s) (a ! (t + k + 1)) else 0)"
    unfolding uint_shr_def k_def [symmetric] s_def [symmetric] using shr_fold [of 8 a k s] by auto
  have "abs_uint (uint_shr a shift) = drop_bit shift (abs_uint a)"
  proof (rule abs_uint_eqI [OF u(1)])
    fix t n :: nat
    assume t: "t < 8" and n: "n < 32"
    show "bit (uint_shr a shift ! t) n \<longleftrightarrow> bit (drop_bit shift (abs_uint a)) (32 * t + n)"
    proof (cases "s + n < 32")
      case True
      have "shift + (32 * t + n) = 32 * (t + k) + (s + n)" using shift by simp
      then have "bit (drop_bit shift (abs_uint a)) (32 * t + n) \<longleftrightarrow> bit (abs_uint a) (32 * (t + k) + (s + n))"
        by (simp only: bit_drop_bit_eq comp_apply)
      then have "bit (drop_bit shift (abs_uint a)) (32 * t + n) \<longleftrightarrow> t + k < 8 \<and> bit (a ! (t + k)) (s + n)"
        using True bit_abs_limb [OF l, of "t + k" "s + n"] bit_imp_le_length [of "abs_uint a" "32 * (t + k) + (s + n)"] by auto
      moreover have "bit (uint_shr a shift ! t) n \<longleftrightarrow> t + k < 8 \<and> bit (a ! (t + k)) (s + n)"
        using u(2) t n True shift(2) by (auto simp: bit_or_iff bit_push_bit_iff bit_drop_bit_eq)
      ultimately show ?thesis by simp
    next
      case False
      have lt: "s + n - 32 < 32" using n shift(2) by simp
      have "shift + (32 * t + n) = 32 * (t + k + 1) + (s + n - 32)" using shift False by simp
      then have "bit (drop_bit shift (abs_uint a)) (32 * t + n) \<longleftrightarrow> bit (abs_uint a) (32 * (t + k + 1) + (s + n - 32))"
        by (simp only: bit_drop_bit_eq comp_apply)
      then have "bit (drop_bit shift (abs_uint a)) (32 * t + n) \<longleftrightarrow> t + k + 1 < 8 \<and> bit (a ! (t + k + 1)) (s + n - 32)"
        using bit_abs_limb [OF l, of "t + k + 1" "s + n - 32"] lt
          bit_imp_le_length [of "abs_uint a" "32 * (t + k + 1) + (s + n - 32)"] by auto
      moreover have "n - (32 - s) = s + n - 32" using False shift(2) by linarith
      then have "bit (uint_shr a shift ! t) n \<longleftrightarrow> t + k + 1 < 8 \<and> bit (a ! (t + k + 1)) (s + n - 32)"
        using u(2) t n False shift(2) by (auto simp: bit_or_iff bit_push_bit_iff bit_drop_bit_eq dest: bit_limb_less)
      ultimately show ?thesis by simp
    qed
  qed
  then show ?thesis using u(1) by simp
qed

subsection \<open>Comparison and size\<close>

lemma CompareTo_from_ok:
  "n \<le> length a \<Longrightarrow> length a = length b \<Longrightarrow> CompareTo_from a b n = sgn (int (limbs_val (take n a)) - int (limbs_val (take n b)))"
proof (induction n)
  case (Suc n)
  let ?A = "limbs_val (take n a)" and ?B = "limbs_val (take n b)"
  have A: "limbs_val (take (Suc n) a) = ?A + 2 ^ (32 * n) * unat (a ! n)" "limbs_val (take (Suc n) b) = ?B + 2 ^ (32 * n) * unat (b ! n)"
    using Suc.prems by (simp_all add: take_Suc_conv_app_nth limbs_val_append)
  have lt: "?A < 2 ^ (32 * n)" "?B < 2 ^ (32 * n)"
    using limbs_val_less [of "take n a"] limbs_val_less [of "take n b"] Suc.prems by simp_all
  have step: "x + 2 ^ (32 * n) * u < y + 2 ^ (32 * n) * v" if "u < v" "x < 2 ^ (32 * n)" for x y u v :: nat
  proof -
    have "2 ^ (32 * n) * u + 2 ^ (32 * n) \<le> 2 ^ (32 * n) * v" using that(1) by (metis Suc_leI mult_Suc_right mult_le_mono2 add.commute)
    then show ?thesis using that(2) by linarith
  qed
  consider "a ! n < b ! n" | "b ! n < a ! n" | "a ! n = b ! n" by (meson linorder_cases)
  then show ?case
  proof cases
    case 1
    then have "limbs_val (take (Suc n) a) < limbs_val (take (Suc n) b)"
      using step [of "unat (a ! n)" "unat (b ! n)" ?A ?B] lt by (simp add: A word_less_nat_alt)
    then show ?thesis using 1 by simp
  next
    case 2
    then have "limbs_val (take (Suc n) b) < limbs_val (take (Suc n) a)"
      using step [of "unat (b ! n)" "unat (a ! n)" ?B ?A] lt by (simp add: A word_less_nat_alt)
    moreover have "\<not> a ! n < b ! n" using 2 by simp
    ultimately show ?thesis using 2 by simp
  next
    case 3
    then show ?thesis using Suc A by simp
  qed
qed simp

lemma CompareTo_ok:
  assumes "length a = 8" and "length b = 8"
  shows "CompareTo a b = sgn (int (unat (abs_uint a)) - int (unat (abs_uint b)))"
  using CompareTo_from_ok [of 8 a b] assms by (simp add: CompareTo_def unat_abs_uint)

text \<open>The number of significant bits.\<close>

lemma find_rev_upt:
  assumes "\<exists>i. m \<le> i \<and> i < n \<and> P i"
  obtains i where "find P (rev [m..<n]) = Some i" "m \<le> i" "i < n" "P i" "\<And>j. i < j \<Longrightarrow> j < n \<Longrightarrow> \<not> P j"
  using assms
proof (induction n arbitrary: thesis)
  case (Suc n)
  have mn: "m \<le> n" using Suc.prems(2) by auto
  show ?case
  proof (cases "P n")
    case True
    then show ?thesis using Suc.prems(1) [of n] mn by simp
  next
    case False
    then have "\<exists>i. m \<le> i \<and> i < n \<and> P i" using Suc.prems(2) less_Suc_eq by auto
    then obtain i where "find P (rev [m..<n]) = Some i" "m \<le> i" "i < n" "P i" "\<And>j. i < j \<Longrightarrow> j < n \<Longrightarrow> \<not> P j"
      using Suc.IH by metis
    then show ?thesis using Suc.prems(1) [of i] False mn less_Suc_eq by auto
  qed
qed auto

lemma find_rev_upt_None: "(\<And>i. m \<le> i \<Longrightarrow> i < n \<Longrightarrow> \<not> P i) \<Longrightarrow> find P (rev [m..<n]) = None"
  by (simp add: find_None_iff)

lemma and_exp_bit: "(x :: u32) AND push_bit n 1 \<noteq> 0 \<longleftrightarrow> bit x n"
  by (metis and_exp_eq_0_iff_not_bit push_bit_of_1)

lemma limb_bits_find: "limb_bits x = (case find (bit x) (rev [1..<32]) of Some n \<Rightarrow> n + 1 | None \<Rightarrow> 1)"
  by (simp only: limb_bits_def and_exp_bit)

lemma limb_bits_ok:
  assumes "x \<noteq> 0"
  shows "bit x (limb_bits x - 1) \<and> 1 \<le> limb_bits x \<and> limb_bits x \<le> 32 \<and> (\<forall>j \<ge> limb_bits x. \<not> bit x j)"
proof (cases "\<exists>i. 1 \<le> i \<and> i < 32 \<and> bit x i")
  case True
  obtain i where f: "find (bit x) (rev [1..<32]) = Some i" and i: "1 \<le> i" "i < 32" "bit x i" "\<And>j. i < j \<Longrightarrow> j < 32 \<Longrightarrow> \<not> bit x j"
    using find_rev_upt [OF True] by blast
  have n: "limb_bits x = i + 1" by (simp only: limb_bits_find f option.case)
  have "\<not> bit x j" if "i + 1 \<le> j" for j
  proof
    assume "bit x j"
    moreover from this have "j < 32" by (rule bit_limb_less)
    ultimately show False using i(4) [of j] that by linarith
  qed
  then show ?thesis using i unfolding n by simp
next
  case False
  have f: "find (bit x) (rev [1..<32]) = None" using False by (intro find_rev_upt_None) blast
  have n: "limb_bits x = 1" by (simp only: limb_bits_find f option.case)
  have b: "\<not> bit x j" if "1 \<le> j" for j using False that bit_limb_less by blast
  have "bit x 0"
  proof (rule ccontr)
    assume "\<not> bit x 0"
    then have "\<not> bit x j" for j using b [of j] by (cases "j = 0") (blast, linarith)
    then have "x = 0" by (intro bit_word_eqI) simp
    then show False using assms by simp
  qed
  then show ?thesis using b unfolding n by simp
qed

lemma top_bit:
  assumes "bit w (n - 1)" and "0 < n" and "\<forall>j \<ge> n. \<not> bit (w :: 256 word) j"
  shows "2 ^ (n - 1) \<le> unat w" "unat w < 2 ^ n" "n \<le> 256"
proof -
  have "bit (take_bit n w) m \<longleftrightarrow> bit w m" for m using assms(3) by (cases "m < n") (simp_all add: bit_take_bit_iff)
  then have "take_bit n w = w" by (intro bit_word_eqI) blast
  moreover have "unat (take_bit n w) = take_bit n (unat w)" by (rule unsigned_take_bit_eq)
  ultimately have "take_bit n (unat w) = unat w" by simp
  then show "unat w < 2 ^ n" using take_bit_nat_less_exp [of n "unat w"] by simp
  have "bit (unat w) (n - 1)" using assms(1) by (simp add: bit_unsigned_iff)
  then have "odd (unat w div 2 ^ (n - 1))" unfolding bit_iff_odd .
  then have "0 < unat w div 2 ^ (n - 1)" by (rule odd_pos)
  then show "2 ^ (n - 1) \<le> unat w" by (simp add: div_greater_zero_iff)
  show "n \<le> 256" using bit_imp_le_length [OF assms(1)] assms(2) by simp
qed

lemma uint_bits_ok:
  assumes l: "length a = 8"
  shows "uint_bits a = 0 \<longleftrightarrow> abs_uint a = 0" "abs_uint a \<noteq> 0 \<Longrightarrow> 2 ^ (uint_bits a - 1) \<le> unat (abs_uint a)"
    "unat (abs_uint a) < 2 ^ uint_bits a" "uint_bits a \<le> 256"
proof -
  have "(uint_bits a = 0 \<longleftrightarrow> abs_uint a = 0) \<and> (abs_uint a \<noteq> 0 \<longrightarrow> 2 ^ (uint_bits a - 1) \<le> unat (abs_uint a)) \<and>
    unat (abs_uint a) < 2 ^ uint_bits a \<and> uint_bits a \<le> 256"
  proof (cases "\<exists>i. 0 \<le> i \<and> i < 8 \<and> a ! i \<noteq> 0")
    case True
    obtain i where i: "find (\<lambda>pos. a ! pos \<noteq> 0) (rev [0..<8]) = Some i" "i < 8" "a ! i \<noteq> 0" "\<And>j. i < j \<Longrightarrow> j < 8 \<Longrightarrow> \<not> a ! j \<noteq> 0"
      using find_rev_upt [OF True] by blast
    have n: "uint_bits a = 32 * i + limb_bits (a ! i)" by (simp only: uint_bits_def i(1) option.case)
    note x = limb_bits_ok [OF i(3)]
    have "limb_bits (a ! i) - 1 < 32" using x by linarith
    then have "bit (abs_uint a) (32 * i + (limb_bits (a ! i) - 1))" using x bit_abs_limb [OF l i(2)] by blast
    moreover have "32 * i + (limb_bits (a ! i) - 1) = uint_bits a - 1" using n x by linarith
    ultimately have b: "bit (abs_uint a) (uint_bits a - 1)" by (simp only:)
    have above: "\<forall>j \<ge> uint_bits a. \<not> bit (abs_uint a) j"
    proof (intro allI impI)
      fix j
      assume j: "uint_bits a \<le> j"
      show "\<not> bit (abs_uint a) j"
      proof (cases "j div 32 = i")
        case True
        then have "limb_bits (a ! i) \<le> j mod 32" using j n mult_div_mod_eq [of 32 j] by linarith
        then show ?thesis using x True unfolding bit_abs_uint [OF l] by blast
      next
        case False
        then have "i < j div 32" using j n by linarith
        then show ?thesis using i(4) [of "j div 32"] unfolding bit_abs_uint [OF l] by (cases "j < 256") (simp_all add: div_less_iff_less_mult)
      qed
    qed
    have pos: "0 < uint_bits a" using n x by linarith
    note t = top_bit [OF b pos above]
    have "abs_uint a \<noteq> 0" using b by (intro notI) simp
    then show ?thesis using t pos by simp
  next
    case False
    have f: "find (\<lambda>pos. a ! pos \<noteq> 0) (rev [0..<8]) = None" using False by (intro find_rev_upt_None) blast
    have "uint_bits a = 0" by (simp only: uint_bits_def f option.case)
    moreover have "abs_uint a = 0" using False l by (intro abs_uint_eqI) auto
    ultimately show ?thesis by simp
  qed
  then show "uint_bits a = 0 \<longleftrightarrow> abs_uint a = 0" "abs_uint a \<noteq> 0 \<Longrightarrow> 2 ^ (uint_bits a - 1) \<le> unat (abs_uint a)"
    "unat (abs_uint a) < 2 ^ uint_bits a" "uint_bits a \<le> 256" by auto
qed

subsection \<open>Division\<close>

lemma unat_p2_256: "s < 256 \<Longrightarrow> unat (2 ^ s :: 256 word) = 2 ^ s"
proof -
  assume "s < 256"
  then have "(2 :: nat) ^ s < 2 ^ 256" by (intro power_strict_increasing) simp_all
  moreover have "(2 ^ s :: 256 word) = of_nat (2 ^ s)" by simp
  ultimately show ?thesis using \<open>s < 256\<close> by (simp only: unsigned_of_nat) (simp add: take_bit_nat_eq_self)
qed

lemma set_bit_ok:
  assumes l: "length pn = 8" and s: "s < 256" and q: "2 ^ Suc s dvd unat (abs_uint pn)"
  defines "pn' \<equiv> pn[s div 32 := pn ! (s div 32) OR push_bit (unat (of_nat s AND (31 :: u32))) 1]"
  shows "length pn' = 8" "unat (abs_uint pn') = unat (abs_uint pn) + 2 ^ s"
proof -
  have "(of_nat s AND (31 :: u32)) = take_bit 5 (of_nat s)" by (simp add: take_bit_eq_mask mask_eq_exp_minus_1)
  then have "unat (of_nat s AND (31 :: u32)) = take_bit 5 (unat (of_nat s :: u32))" by (simp only: unsigned_take_bit_eq)
  moreover have "unat (of_nat s :: u32) = s" using s by (simp add: unsigned_of_nat take_bit_nat_eq_self)
  ultimately have m: "unat (of_nat s AND (31 :: u32)) = s mod 32" by (simp add: take_bit_eq_mod)
  show l': "length pn' = 8" using l by (simp add: pn'_def)
  have "abs_uint pn' = abs_uint pn OR push_bit s 1"
  proof (rule abs_uint_eqI [OF l'])
    fix j n :: nat
    assume jn: "j < 8" "n < 32"
    then have "32 * j + n = s \<longleftrightarrow> j = s div 32 \<and> n = s mod 32" by auto
    then show "bit (pn' ! j) n \<longleftrightarrow> bit (abs_uint pn OR push_bit s 1) (32 * j + n)"
      using jn l s by (auto simp: pn'_def m nth_list_update bit_or_iff bit_exp_iff bit_abs_limb)
  qed
  moreover have low: "\<not> bit (abs_uint pn) s"
  proof -
    obtain k where "unat (abs_uint pn) = 2 ^ s * (2 * k)" using q by (elim dvdE) (simp add: mult.assoc [symmetric] mult.commute)
    then have "\<not> bit (unat (abs_uint pn)) s" by (simp add: bit_iff_odd)
    then show ?thesis using s by (simp add: bit_unsigned_iff)
  qed
  then have "abs_uint pn + push_bit s 1 = abs_uint pn OR push_bit s 1"
    by (intro disjunctive_add) (auto simp: bit_exp_iff)
  ultimately have e: "abs_uint pn' = abs_uint pn + push_bit s 1" by simp
  have p: "unat (push_bit s 1 :: 256 word) = 2 ^ s" using s by (simp add: push_bit_eq_mult unat_p2_256)
  obtain k where k: "unat (abs_uint pn) = 2 ^ Suc s * k" using q by (elim dvdE)
  have "unat (abs_uint pn) < 2 ^ 256" using unsigned_less [of "abs_uint pn"] by simp
  moreover have "(2 :: nat) ^ 256 = 2 ^ Suc s * 2 ^ (255 - s)" using s by (simp add: power_add [symmetric] del: power_Suc)
  ultimately have "k < 2 ^ (255 - s)" unfolding k by (metis mult_less_cancel1)
  then have "2 ^ Suc s * k + 2 ^ Suc s \<le> 2 ^ Suc s * 2 ^ (255 - s)" by (metis Suc_leI mult_Suc_right mult_le_mono2 add.commute)
  moreover have "(2 :: nat) ^ s < 2 ^ Suc s" by simp
  ultimately have "unat (abs_uint pn) + 2 ^ s < 2 ^ 256" unfolding k \<open>2 ^ 256 = _\<close> by linarith
  then show "unat (abs_uint pn') = unat (abs_uint pn) + 2 ^ s" unfolding e using p by (simp add: unat_word_ariths take_bit_nat_eq_self)
qed

lemma unat_shr1: "length dv = 8 \<Longrightarrow> unat (abs_uint (uint_shr dv 1)) = unat (abs_uint dv) div 2"
  using uint_shr_ok [of dv 1] by (simp add: drop_bit_eq_div unat_div_distrib)

lemma CompareTo_neg: "length a = 8 \<Longrightarrow> length b = 8 \<Longrightarrow> CompareTo a b < 0 \<longleftrightarrow> unat (abs_uint a) < unat (abs_uint b)"
  by (simp only: CompareTo_ok sgn_less) linarith

lemma unat_push_bit_256: "unat (w :: 256 word) * 2 ^ s < 2 ^ 256 \<Longrightarrow> unat (push_bit s w) = unat w * 2 ^ s"
proof -
  have "unat (push_bit s w) = take_bit 256 (push_bit s (unat w))" by (subst unsigned_push_bit_eq) simp
  then show "unat w * 2 ^ s < 2 ^ 256 \<Longrightarrow> unat (push_bit s w) = unat w * 2 ^ s" by (simp only: push_bit_eq_mult take_bit_nat_eq_self)
qed

lemma limbs_val_zero: "limbs_val (replicate n 0) = 0"
  by (induction n) simp_all

lemma div_steps_ok:
  assumes "length num = 8" and "length dv = 8" and "length pn = 8" and "0 < B" and "n \<le> 256"
    and "0 < n \<Longrightarrow> unat (abs_uint dv) = B * 2 ^ (n - 1)" and "unat (abs_uint num) < B * 2 ^ n"
    and "2 ^ n dvd unat (abs_uint pn)"
  shows "length (div_steps n num dv pn) = 8 \<and>
    unat (abs_uint (div_steps n num dv pn)) = unat (abs_uint pn) + unat (abs_uint num) div B"
  using assms
proof (induction n arbitrary: num dv pn)
  case (Suc n)
  define pn' where "pn' = pn[n div 32 := pn ! (n div 32) OR push_bit (unat (of_nat n AND (31 :: u32))) 1]"
  have D: "unat (abs_uint dv) = B * 2 ^ n" using Suc.prems(6) by simp
  have shr: "length (uint_shr dv 1) = 8" "0 < n \<Longrightarrow> unat (abs_uint (uint_shr dv 1)) = B * 2 ^ (n - 1)"
    using uint_shr_ok [OF Suc.prems(2)] unat_shr1 [OF Suc.prems(2)] D by (simp_all, cases n) simp_all
  show ?case
  proof (cases "unat (abs_uint dv) \<le> unat (abs_uint num)")
    case True
    have sub: "length (uint_sub num dv) = 8" "unat (abs_uint (uint_sub num dv)) = unat (abs_uint num) - B * 2 ^ n"
      using uint_sub_ok [OF Suc.prems(1,2)] True D by (simp_all add: unat_sub word_le_nat_alt)
    have pn': "length pn' = 8" "unat (abs_uint pn') = unat (abs_uint pn) + 2 ^ n"
      unfolding pn'_def using set_bit_ok [OF Suc.prems(3) _ Suc.prems(8)] Suc.prems(5) by simp_all
    have "CompareTo num dv \<ge> 0" using CompareTo_neg [OF Suc.prems(1,2)] True by linarith
    then have e: "div_steps (Suc n) num dv pn = div_steps n (uint_sub num dv) (uint_shr dv 1) pn'"
      by (simp add: pn'_def)
    have "unat (abs_uint (uint_sub num dv)) < B * 2 ^ n" using sub Suc.prems(7) True D by simp
    moreover have "2 ^ n dvd unat (abs_uint pn')"
      using Suc.prems(8) pn'(2) by (simp add: dvd_add power_Suc dvd_mult_right)
    ultimately have "length (div_steps (Suc n) num dv pn) = 8 \<and>
      unat (abs_uint (div_steps (Suc n) num dv pn)) = unat (abs_uint pn) + 2 ^ n + (unat (abs_uint num) - B * 2 ^ n) div B"
      using Suc.IH [OF sub(1) shr(1) pn'(1) Suc.prems(4)] Suc.prems(5) shr(2) e pn'(2) sub(2) by simp
    moreover have "unat (abs_uint num) div B = 2 ^ n + (unat (abs_uint num) - B * 2 ^ n) div B"
    proof -
      have "unat (abs_uint num) = B * 2 ^ n + (unat (abs_uint num) - B * 2 ^ n)" using True D by simp
      then show ?thesis using Suc.prems(4) by (metis div_mult_self4 add.commute mult.commute not_less0)
    qed
    ultimately show ?thesis by simp
  next
    case False
    then have "CompareTo num dv < 0" using CompareTo_neg [OF Suc.prems(1,2)] by linarith
    then have e: "div_steps (Suc n) num dv pn = div_steps n num (uint_shr dv 1) pn" by simp
    have "2 ^ n dvd unat (abs_uint pn)" using Suc.prems(8) by (simp add: dvd_mult_right)
    then show ?thesis using Suc.IH [OF Suc.prems(1) shr(1) Suc.prems(3,4)] Suc.prems(5) shr(2) False D e by simp
  qed
qed simp

lemma uint_div_ok:
  assumes l: "length a = 8" "length b = 8"
  shows "abs_uint b = 0 \<Longrightarrow> uint_div a b = None"
    "abs_uint b \<noteq> 0 \<Longrightarrow> \<exists>c. uint_div a b = Some c \<and> length c = 8 \<and> abs_uint c = abs_uint a div abs_uint b"
proof -
  show "abs_uint b = 0 \<Longrightarrow> uint_div a b = None" using uint_bits_ok(1) [OF l(2)] by (simp add: uint_div_def)
  assume b: "abs_uint b \<noteq> 0"
  let ?A = "unat (abs_uint a)" and ?B = "unat (abs_uint b)" and ?n = "uint_bits a" and ?d = "uint_bits b"
  have B: "0 < ?B" "2 ^ (?d - 1) \<le> ?B" "?B < 2 ^ ?d" "0 < ?d"
    using b uint_bits_ok [OF l(2)] by (simp_all add: unat_gt_0)
  have A: "?A < 2 ^ ?n" "?n \<le> 256" using uint_bits_ok [OF l(1)] by simp_all
  have zero: "abs_uint (replicate 8 0) = 0" by (simp add: abs_uint_def limbs_val_zero)
  have "\<exists>c. uint_div a b = Some c \<and> length c = 8 \<and> unat (abs_uint c) = ?A div ?B"
  proof (cases "?n < ?d")
    case True
    then have "(2 :: nat) ^ ?n \<le> 2 ^ (?d - 1)" by (intro power_increasing) simp_all
    then have "?A < ?B" using A B by linarith
    then show ?thesis using True zero by (simp add: uint_div_def)
  next
    case False
    let ?s = "?n - ?d"
    have "?B * 2 ^ ?s < 2 ^ ?d * 2 ^ ?s" using B(3) by simp
    also have "\<dots> = 2 ^ ?n" using False by (simp add: power_add [symmetric])
    also have "\<dots> \<le> 2 ^ 256" using A(2) by (intro power_increasing) simp_all
    finally have small: "?B * 2 ^ ?s < 2 ^ 256" .
    have shl: "length (uint_shl b ?s) = 8" "unat (abs_uint (uint_shl b ?s)) = ?B * 2 ^ ?s"
      using uint_shl_ok [OF l(2), of ?s] unat_push_bit_256 [OF small] by simp_all
    have "2 ^ ?n = (2 :: nat) ^ (?d - 1) * 2 ^ Suc ?s" using False B(4) by (simp add: power_add [symmetric] del: power_Suc)
    also have "\<dots> \<le> ?B * 2 ^ Suc ?s" using B(2) by (rule mult_le_mono1)
    finally have "?A < ?B * 2 ^ Suc ?s" using A(1) by simp
    moreover have "Suc ?s \<le> 256" using A(2) B(4) False by simp
    ultimately have "length (div_steps (Suc ?s) a (uint_shl b ?s) (replicate 8 0)) = 8 \<and>
      unat (abs_uint (div_steps (Suc ?s) a (uint_shl b ?s) (replicate 8 0))) = ?A div ?B"
      using div_steps_ok [OF l(1) shl(1) _ B(1), of "replicate 8 0" "Suc ?s"] shl(2) zero by simp
    then show ?thesis using False B(4) by (simp add: uint_div_def Let_def)
  qed
  then show "\<exists>c. uint_div a b = Some c \<and> length c = 8 \<and> abs_uint c = abs_uint a div abs_uint b"
    by (auto simp: word_unat_eq_iff unat_div_distrib)
qed

subsection \<open>Compact form\<close>

lemma GetLow64_ok: "length pn = 8 \<Longrightarrow> GetLow64 pn = ucast (abs_uint pn)"
proof (rule bit_word_eqI)
  fix n assume l: "length pn = 8" and n: "n < LENGTH(64)"
  have "n < 32 \<Longrightarrow> n div 32 = 0" "32 \<le> n \<Longrightarrow> n div 32 = 1" "32 \<le> n \<Longrightarrow> n mod 32 = n - 32"
    using n by (simp_all add: div_nat_eqI mod_if)
  then show "bit (GetLow64 pn) n \<longleftrightarrow> bit (ucast (abs_uint pn) :: u64) n"
    using n l bit_limb_less [of "pn ! 0" n]
    by (cases "n < 32") (auto simp: GetLow64_def bit_or_iff bit_push_bit_iff bit_ucast_iff bit_abs_uint)
qed

lemma uint_of_u64_ok: "length (uint_of_u64 b) = 8 \<and> abs_uint (uint_of_u64 b) = ucast b"
proof -
  have "limbs_val (uint_of_u64 b) = unat (ucast b :: u32) + 2 ^ 32 * unat (ucast (drop_bit 32 b) :: u32)"
    by (simp add: uint_of_u64_def limbs_val_append limbs_val_zero)
  also have "\<dots> = unat b mod 2 ^ 32 + 2 ^ 32 * (unat b div 2 ^ 32)"
  proof -
    have "unat b < 2 ^ 64" using unsigned_less [of b] by simp
    then have "unat b div 2 ^ 32 < 2 ^ 32" by simp
    then have "unat (ucast (drop_bit 32 b) :: u32) = unat b div 2 ^ 32"
      by (simp add: unsigned_ucast_eq unsigned_drop_bit_eq drop_bit_eq_div unat_div_distrib take_bit_nat_eq_self)
    moreover have "unat (ucast b :: u32) = unat b mod 2 ^ 32" by (simp add: unsigned_ucast_eq take_bit_eq_mod)
    ultimately show ?thesis by simp
  qed
  also have "\<dots> = unat b" by (rule mod_mult_div_eq)
  finally have "abs_uint (uint_of_u64 b) = ucast b" by (simp add: abs_uint_def)
  then show ?thesis by (simp add: uint_of_u64_def)
qed

lemma compact_fields:
  fixes m :: u32
  assumes m: "m AND NOT 0x007fffff = 0" and s: "s < 256"
  defines "c \<equiv> m OR push_bit 24 (of_nat s)"
  shows "unat (drop_bit 24 c) = s" "c AND 0x007fffff = m" "c AND 0x00800000 = 0"
proof -
  have mk: "(0x007fffff :: u32) = mask 23" and sg: "(0x00800000 :: u32) = 2 ^ 23" by (simp_all add: mask_eq_exp_minus_1)
  have bm: "bit m j \<Longrightarrow> j < 23" for j
  proof -
    assume "bit m j"
    moreover have "bit (m AND NOT (mask 23)) j = False" using m unfolding mk by simp
    ultimately show "j < 23" using bit_imp_le_length [of m j] by (simp add: bit_and_iff bit_not_iff bit_mask_iff)
  qed
  have "drop_bit 24 c = of_nat s"
  proof (rule bit_word_eqI)
    fix j
    have "bit s j \<Longrightarrow> j < 8"
    proof (rule ccontr)
      assume "bit s j" "\<not> j < 8"
      then have "(2 :: nat) ^ 8 \<le> 2 ^ j" by (intro power_increasing) simp_all
      then have "s div 2 ^ j = 0" using s by simp
      then show False using \<open>bit s j\<close> by (simp add: bit_iff_odd)
    qed
    then show "bit (drop_bit 24 c) j \<longleftrightarrow> bit (of_nat s :: u32) j"
      using bm [of "24 + j"] by (auto simp: c_def bit_drop_bit_eq bit_or_iff bit_push_bit_iff bit_of_nat_iff)
  qed
  then show "unat (drop_bit 24 c) = s" using s by (simp add: unsigned_of_nat take_bit_nat_eq_self)
  show "c AND 0x007fffff = m" unfolding mk
    by (rule bit_word_eqI) (auto simp: c_def bit_and_iff bit_or_iff bit_push_bit_iff bit_mask_iff dest: bm)
  show "c AND 0x00800000 = 0" unfolding sg and_exp_eq_0_iff_not_bit
    by (auto simp: c_def bit_or_iff bit_push_bit_iff dest: bm)
qed

lemma unat_u64_of_u32: "unat (ucast (w :: u32) :: u64) = unat w"
proof -
  have "unat w < 2 ^ 32" using unsigned_less [of w] by simp
  then show ?thesis by (simp add: unsigned_ucast_eq take_bit_nat_eq_self)
qed

lemma unat_256_of_u64: "unat (ucast (w :: u64) :: 256 word) = unat w"
proof -
  have "unat w < 2 ^ 64" using unsigned_less [of w] by simp
  then show ?thesis by (simp add: unsigned_ucast_eq take_bit_nat_eq_self)
qed

lemma unat_drop: "unat (drop_bit k w) = unat w div 2 ^ k"
  by (subst unat_drop_bit_eq) (simp only: drop_bit_eq_div)

lemma SetCompact_fields:
  fixes m :: u32
  assumes m: "m AND NOT 0x007fffff = 0" and s: "s \<le> 33" and s33: "s = 33 \<Longrightarrow> unat m < 2 ^ 16"
  shows "\<exists>b. SetCompact (m OR push_bit 24 (of_nat s)) = (b, False, False) \<and> length b = 8 \<and>
    unat (abs_uint b) = (if s \<le> 3 then unat m div 2 ^ (8 * (3 - s)) else unat m * 2 ^ (8 * (s - 3)))"
proof -
  let ?c = "m OR push_bit 24 (of_nat s)"
  have s256: "s < 256" using s by simp
  note f = compact_fields [OF m s256]
  have m23: "unat m < 2 ^ 23"
  proof -
    have "m = take_bit 23 ?c" using f(2) by (simp add: take_bit_eq_mask mask_eq_exp_minus_1)
    then have "unat m = take_bit 23 (unat ?c)" by (metis unsigned_take_bit_eq)
    then show ?thesis by (metis take_bit_nat_less_exp)
  qed
  note u64 = unat_u64_of_u32 and u256 = unat_256_of_u64
  show ?thesis
  proof (cases "s \<le> 3")
    case True
    then show ?thesis using f uint_of_u64_ok [of "ucast (drop_bit (8 * (3 - s)) m)"]
      by (simp add: SetCompact_def Let_def u64 u256 unat_drop)
  next
    case False
    have "unat m * 2 ^ (8 * (s - 3)) < 2 ^ 256"
    proof (cases "s = 33")
      case True
      then show ?thesis using s33 by simp
    next
      case False
      then have "unat m * 2 ^ (8 * (s - 3)) < 2 ^ 23 * 2 ^ (8 * (s - 3))" using m23 by simp
      also have "\<dots> \<le> 2 ^ 23 * 2 ^ (8 * 29)" using s False by (intro mult_le_mono2 power_increasing) simp_all
      finally show ?thesis by simp
    qed
    then have "unat (push_bit (8 * (s - 3)) (ucast (ucast m :: u64) :: 256 word)) = unat m * 2 ^ (8 * (s - 3))"
      using unat_push_bit_256 [of "ucast (ucast m :: u64)" "8 * (s - 3)"] by (simp only: u64 u256)
    moreover have "\<not> (m > 0xffff \<and> s > 32)" using s s33 by (cases "s = 33") (auto simp: word_less_nat_alt)
    ultimately show ?thesis using False s f uint_of_u64_ok [of "ucast m"] uint_shl_ok [of "uint_of_u64 (ucast m)" "8 * (s - 3)"]
      by (simp add: SetCompact_def Let_def)
  qed
qed

lemma mantissa_mask: "unat (m :: u32) < 2 ^ 23 \<Longrightarrow> m AND NOT 0x007fffff = 0"
proof -
  assume m: "unat m < 2 ^ 23"
  have mk: "(0x007fffff :: u32) = mask 23" by (simp add: mask_eq_exp_minus_1)
  have "unat (take_bit 23 m) = unat m" using m by (subst unsigned_take_bit_eq) (simp only: take_bit_nat_eq_self)
  then have "m = m AND mask 23" by (simp add: word_unat_eq_iff take_bit_eq_mask)
  then show ?thesis unfolding mk by (metis bit.conj_cancel_right and.assoc bit.conj_zero_right)
qed

lemma mantissa_sign: "unat (m :: u32) < 2 ^ 24 \<Longrightarrow> m AND 0x00800000 \<noteq> 0 \<longleftrightarrow> 2 ^ 23 \<le> unat m"
proof -
  assume m: "unat m < 2 ^ 24"
  have sg: "(0x00800000 :: u32) = 2 ^ 23" by simp
  have "m AND 0x00800000 \<noteq> 0 \<longleftrightarrow> bit m 23" unfolding sg and_exp_eq_0_iff_not_bit by simp
  also have "\<dots> \<longleftrightarrow> bit (unat m) 23" by (simp add: bit_unsigned_iff)
  also have "\<dots> \<longleftrightarrow> odd (unat m div 2 ^ 23)" by (simp only: bit_iff_odd)
  also have "\<dots> \<longleftrightarrow> 2 ^ 23 \<le> unat m"
  proof (cases "2 ^ 23 \<le> unat m")
    case True
    then have "unat m div 2 ^ 23 = 1" using m by (intro div_nat_eqI) simp_all
    then show ?thesis using True by simp
  next
    case False
    then show ?thesis by simp
  qed
  finally show ?thesis .
qed

lemma GetCompact_fields:
  assumes l: "length a = 8"
  defines "A \<equiv> unat (abs_uint a)" and "n \<equiv> (uint_bits a + 7) div 8"
  defines "M \<equiv> (if n \<le> 3 then A * 2 ^ (8 * (3 - n)) else A div 2 ^ (8 * (n - 3)))"
  shows "A < 2 ^ (8 * n)" "A \<noteq> 0 \<Longrightarrow> 2 ^ (8 * n - 8) \<le> A" "n \<le> 32" "M < 2 ^ 24"
    "\<exists>m. unat m = (if 2 ^ 23 \<le> M then M div 2 ^ 8 else M) \<and>
      GetCompact False a = Some (m OR push_bit 24 (of_nat (if 2 ^ 23 \<le> M then n + 1 else n)))"
proof -
  have "uint_bits a \<le> 8 * n" "8 * n \<le> uint_bits a + 7" unfolding n_def by simp_all
  note n8 = this
  have "(2 :: nat) ^ uint_bits a \<le> 2 ^ (8 * n)" using n8 by (intro power_increasing) simp_all
  then show A8: "A < 2 ^ (8 * n)" using uint_bits_ok(3) [OF l] unfolding A_def by linarith
  show "A \<noteq> 0 \<Longrightarrow> 2 ^ (8 * n - 8) \<le> A"
  proof -
    assume "A \<noteq> 0"
    then have "2 ^ (uint_bits a - 1) \<le> A" using uint_bits_ok(2) [OF l] by (simp add: A_def unat_eq_0)
    moreover have "(2 :: nat) ^ (8 * n - 8) \<le> 2 ^ (uint_bits a - 1)" using n8 by (intro power_increasing) simp_all
    ultimately show ?thesis by linarith
  qed
  show n32: "n \<le> 32" using uint_bits_ok(4) [OF l] unfolding n_def by simp
  show M24: "M < 2 ^ 24"
  proof (cases "n \<le> 3")
    case True
    have "A * 2 ^ (8 * (3 - n)) < 2 ^ (8 * n) * 2 ^ (8 * (3 - n))" using A8 by simp
    also have "\<dots> = 2 ^ 24" using True by (simp only: power_add [symmetric] distrib_left [symmetric]) simp
    finally show ?thesis using True by (simp add: M_def)
  next
    case False
    then have "2 ^ (8 * n) = (2 :: nat) ^ 24 * 2 ^ (8 * (n - 3))" by (simp only: power_add [symmetric]) simp
    then show ?thesis using A8 False by (simp add: M_def less_mult_imp_div_less)
  qed
  define w :: u32 where "w = (if n \<le> 3 then ucast (push_bit (8 * (3 - n)) (GetLow64 a)) else ucast (GetLow64 (uint_shr a (8 * (n - 3)))))"
  have w: "unat w = M"
  proof (cases "n \<le> 3")
    case True
    then have "(2 :: nat) ^ (8 * n) \<le> 2 ^ 24" by (intro power_increasing) simp_all
    then have "unat (GetLow64 a) = A"
      using GetLow64_ok [OF l] A8 by (simp add: A_def unsigned_ucast_eq take_bit_nat_eq_self)
    moreover have "unat (push_bit (8 * (3 - n)) (GetLow64 a)) = take_bit 64 (push_bit (8 * (3 - n)) (unat (GetLow64 a)))"
      by (subst unsigned_push_bit_eq) simp
    ultimately have "unat (push_bit (8 * (3 - n)) (GetLow64 a)) = take_bit 64 M" using True by (simp add: M_def push_bit_eq_mult)
    then show ?thesis using True M24 by (simp add: w_def unsigned_ucast_eq take_bit_nat_eq_self)
  next
    case False
    have "length (uint_shr a (8 * (n - 3))) = 8" "unat (abs_uint (uint_shr a (8 * (n - 3)))) = M"
      using uint_shr_ok [OF l, of "8 * (n - 3)"] False by (simp_all add: unat_drop M_def A_def)
    then have "unat (GetLow64 (uint_shr a (8 * (n - 3)))) = M"
      using GetLow64_ok [of "uint_shr a (8 * (n - 3))"] M24 by (simp add: unsigned_ucast_eq take_bit_nat_eq_self)
    then show ?thesis using False M24 by (simp add: w_def unsigned_ucast_eq take_bit_nat_eq_self)
  qed
  let ?m = "if 2 ^ 23 \<le> M then drop_bit 8 w else w" and ?s = "if 2 ^ 23 \<le> M then n + 1 else n"
  have m: "unat ?m = (if 2 ^ 23 \<le> M then M div 2 ^ 8 else M)" using w by (simp add: unat_drop)
  then have "unat ?m < 2 ^ 23" using M24 by (simp add: less_mult_imp_div_less)
  then have "?m AND NOT 0x007fffff = 0" by (rule mantissa_mask)
  moreover have "w AND 0x00800000 \<noteq> 0 \<longleftrightarrow> 2 ^ 23 \<le> M" using mantissa_sign [of w] w M24 by simp
  ultimately have "GetCompact False a = Some (?m OR push_bit 24 (of_nat ?s))"
    using n32 by (simp add: GetCompact_def n_def [symmetric] w_def [symmetric] Let_def split: if_splits)
  then show "\<exists>m. unat m = (if 2 ^ 23 \<le> M then M div 2 ^ 8 else M) \<and>
      GetCompact False a = Some (m OR push_bit 24 (of_nat (if 2 ^ 23 \<le> M then n + 1 else n)))"
    using m by blast
qed

lemma compact_value:
  assumes l: "length a = 8"
  shows "\<exists>c b. GetCompact False a = Some c \<and> SetCompact c = (b, False, False) \<and> length b = 8 \<and>
    (let k = 8 * (unat (drop_bit 24 c) - 3) in
     unat (abs_uint b) = unat (abs_uint a) div 2 ^ k * 2 ^ k \<and> (0 < k \<longrightarrow> 2 ^ (k + 15) \<le> unat (abs_uint a)))"
proof -
  define A where "A = unat (abs_uint a)"
  define n where "n = (uint_bits a + 7) div 8"
  define M where "M = (if n \<le> 3 then A * 2 ^ (8 * (3 - n)) else A div 2 ^ (8 * (n - 3)))"
  define s where "s = (if 2 ^ 23 \<le> M then n + 1 else n)"
  note g = GetCompact_fields [OF l, folded A_def n_def, folded M_def]
  obtain m where m: "unat m = (if 2 ^ 23 \<le> M then M div 2 ^ 8 else M)"
    and c: "GetCompact False a = Some (m OR push_bit 24 (of_nat s))" using g(5) by (auto simp: s_def)
  have m23: "unat m < 2 ^ 23" using m g(4) by (simp add: less_mult_imp_div_less)
  have s33: "s \<le> 33" "s = 33 \<Longrightarrow> unat m < 2 ^ 16" using g(3) m g(4) by (auto simp: s_def less_mult_imp_div_less split: if_splits)
  obtain b where b: "SetCompact (m OR push_bit 24 (of_nat s)) = (b, False, False)" "length b = 8"
    and bv: "unat (abs_uint b) = (if s \<le> 3 then unat m div 2 ^ (8 * (3 - s)) else unat m * 2 ^ (8 * (s - 3)))"
    using SetCompact_fields [OF mantissa_mask [OF m23] s33] by blast
  have s': "unat (drop_bit 24 (m OR push_bit 24 (of_nat s))) = s" using compact_fields(1) [OF mantissa_mask [OF m23], of s] s33(1) by simp
  have val: "unat (abs_uint b) = A div 2 ^ (8 * (s - 3)) * 2 ^ (8 * (s - 3))"
  proof (cases "2 ^ 23 \<le> M")
    case S: True
    consider "n \<le> 2" | "n = 3" | "3 < n" by linarith
    then show ?thesis
    proof cases
      case 1
      then have "8 * (3 - n) = 8 * (2 - n) + 8" by simp
      then have "M = A * 2 ^ (8 * (2 - n)) * 2 ^ 8" using 1 by (simp add: M_def power_add)
      then have "unat m = A * 2 ^ (8 * (2 - n))" using m S by simp
      then show ?thesis using bv S 1 by (simp add: s_def)
    next
      case 2
      then show ?thesis using bv m S by (simp add: s_def M_def)
    next
      case 3
      then have "8 * (Suc n - 3) = 8 * (n - 3) + 8" by simp
      then have "unat m = A div 2 ^ (8 * (Suc n - 3))" using m S 3 by (simp add: M_def div_mult2_eq power_add)
      then show ?thesis using bv S 3 by (simp add: s_def)
    qed
  next
    case False
    then show ?thesis using bv m by (cases "n \<le> 3") (simp_all add: s_def M_def)
  qed
  have big: "2 ^ (8 * (s - 3) + 15) \<le> A" if k: "0 < 8 * (s - 3)"
  proof (cases "2 ^ 23 \<le> M")
    case True
    then have n: "3 \<le> n" "8 * (s - 3) + 15 = 23 + 8 * (n - 3)" using k by (auto simp: s_def)
    then have "M = A div 2 ^ (8 * (n - 3))" by (auto simp: M_def)
    then have "2 ^ 23 * 2 ^ (8 * (n - 3)) \<le> A" using True by (metis div_times_less_eq_dividend mult_le_mono1 order_trans)
    then show ?thesis unfolding n(2) power_add .
  next
    case False
    then have n: "3 < n" "s = n" using k by (auto simp: s_def)
    have "A \<noteq> 0" using n(1) uint_bits_ok(1) [OF l] by (auto simp: n_def A_def unat_eq_0)
    then have "2 ^ (8 * n - 8) \<le> A" using g(2) by simp
    moreover have "(2 :: nat) ^ (8 * (s - 3) + 15) \<le> 2 ^ (8 * n - 8)" using n by (intro power_increasing) simp_all
    ultimately show ?thesis by linarith
  qed
  show ?thesis using c b val big s' by (auto simp: Let_def A_def)
qed

subsection \<open>The other operators\<close>

lemma abs_uint_inject: "length a = 8 \<Longrightarrow> length b = 8 \<Longrightarrow> abs_uint a = abs_uint b \<longleftrightarrow> a = b"
proof
  assume l: "length a = 8" "length b = 8" and e: "abs_uint a = abs_uint b"
  show "a = b"
  proof (rule nth_equalityI)
    fix j assume "j < length a"
    then have j: "j < 8" using l by simp
    have "bit (a ! j) m \<longleftrightarrow> bit (b ! j) m" if "m < 32" for m
      using bit_abs_limb [OF l(1) j that] bit_abs_limb [OF l(2) j that] e by simp
    then show "a ! j = b ! j" by (intro bit_word_eqI) simp
  qed (use l in simp)
qed simp

lemma uint_is_zero_ok: "length a = 8 \<Longrightarrow> uint_is_zero a \<longleftrightarrow> abs_uint a = 0"
proof -
  assume l: "length a = 8"
  have "abs_uint (replicate 8 0) = 0" by (simp add: abs_uint_def limbs_val_zero)
  then have "abs_uint a = 0 \<longleftrightarrow> a = replicate 8 0" using abs_uint_inject [OF l, of "replicate 8 0"] by simp
  also have "\<dots> \<longleftrightarrow> uint_is_zero a"
    using l by (auto simp: uint_is_zero_def list_all_iff intro: replicate_eqI)
  finally show ?thesis by simp
qed

lemma uint_bitwise_ok:
  assumes l: "length a = 8" "length b = 8"
  shows "abs_uint (uint_xor a b) = abs_uint a XOR abs_uint b" "abs_uint (uint_and a b) = abs_uint a AND abs_uint b"
    "abs_uint (uint_or a b) = abs_uint a OR abs_uint b"
  using l by (auto intro!: abs_uint_eqI simp: uint_xor_def uint_and_def uint_or_def bit_abs_limb bit_xor_iff bit_and_iff bit_or_iff)

lemma nth_uint_of_u64: "j < 8 \<Longrightarrow> uint_of_u64 b ! j = (if j = 0 then ucast b else if j = 1 then ucast (drop_bit 32 b) else 0)"
  by (auto simp: uint_of_u64_def nth_append nth_Cons')

lemma uint_xor_u64_ok: "length a = 8 \<Longrightarrow> uint_xor_u64 a b = uint_xor a (uint_of_u64 b)"
  using uint_of_u64_ok [of b]
  by (intro nth_equalityI) (auto simp: uint_xor_u64_def uint_xor_def Let_def nth_list_update nth_uint_of_u64)

lemma uint_or_u64_ok: "length a = 8 \<Longrightarrow> uint_or_u64 a b = uint_or a (uint_of_u64 b)"
  using uint_of_u64_ok [of b]
  by (intro nth_equalityI) (auto simp: uint_or_u64_def uint_or_def Let_def nth_list_update nth_uint_of_u64)

lemma uint_inc_ok: "length a = 8 \<Longrightarrow> length (uint_inc a) = 8 \<and> abs_uint (uint_inc a) = abs_uint a + 1"
proof -
  assume l: "length a = 8"
  then have "length (uint_inc a) = 8" "limbs_val (uint_inc a) = (limbs_val a + 1) mod 2 ^ 256"
    using uint_inc_val [of a] by auto
  then show ?thesis by (simp only: abs_uint_def of_nat_mod_256 of_nat_add of_nat_1)
qed

lemma uint_dec_not: "uint_dec a = uint_not (uint_inc (uint_not a))"
proof (induction a rule: uint_dec.induct)
  case (2 x xs)
  have n: "NOT (NOT x + 1) = x - 1" by (simp add: not_eq_complement)
  have "x - 1 = - 1 \<longleftrightarrow> NOT x + 1 = 0" by (simp add: not_eq_complement)
  then show ?case using 2 n by (simp add: uint_not_def comp_def)
qed (simp add: uint_not_def)

lemma uint_dec_ok: "length a = 8 \<Longrightarrow> length (uint_dec a) = 8 \<and> abs_uint (uint_dec a) = abs_uint a - 1"
  using uint_not_ok [of a] uint_inc_ok [of "uint_not a"] uint_not_ok [of "uint_inc (uint_not a)"]
  by (simp add: uint_dec_not not_eq_complement)

lemma mul_u32_limbs_row: "mul_u32_limbs b carry xs = mul_row b carry (replicate (length xs) 0) xs"
  by (induction xs arbitrary: carry) (simp_all add: Let_def)

lemma uint_mul_u32_ok:
  assumes l: "length a = 8"
  shows "length (uint_mul_u32 a b) = 8 \<and> abs_uint (uint_mul_u32 a b) = abs_uint a * ucast b"
proof -
  have "length (uint_mul_u32 a b) = 8" "limbs_val (uint_mul_u32 a b) = (unat b * limbs_val a) mod 2 ^ 256"
    using mul_row_val [of "replicate 8 0" a 0 b] l by (simp_all add: uint_mul_u32_def mul_u32_limbs_row limbs_val_zero)
  then show ?thesis by (simp only: abs_uint_def of_nat_mod_256 of_nat_mult) simp
qed

lemma uint_mul_self_ok: "uint_mul_self a = replicate 8 0"
proof -
  have inner: "fold (mul_self_step a j) is (0, replicate 8 0) = (0, replicate 8 0)" if "\<forall>i \<in> set is. i + j < 8" for j "is"
  proof -
    have "(replicate 8 (0 :: u32))[k := 0] = replicate 8 0" if "k < 8" for k
      using that by (metis list_update_id nth_replicate)
    then show ?thesis using that by (induction "is") (simp_all add: mul_self_step_def)
  qed
  have row: "snd (fold (mul_self_step a j) [0..<8 - j] (0, replicate 8 0)) = replicate 8 0" for j
  proof -
    have "\<forall>i \<in> set [0..<8 - j]. i + j < 8" by auto
    from inner [OF this] show ?thesis by simp
  qed
  have "fold (\<lambda>j pn. snd (fold (mul_self_step a j) [0..<8 - j] (0, pn))) js (replicate 8 0) = replicate 8 0" for js
    by (induction js) (simp_all add: row)
  then show ?thesis by (simp only: uint_mul_self_def)
qed

lemma EqualTo_ok: "length a = 8 \<Longrightarrow> EqualTo a b \<longleftrightarrow> abs_uint a = ucast b"
proof -
  assume l: "length a = 8"
  have mask32: "(0xffffffff :: u64) = mask 32" by (simp add: mask_eq_exp_minus_1)
  have u: "ucast x = drop_bit 32 b \<longleftrightarrow> x = ucast (drop_bit 32 b)" "ucast x = b AND 0xffffffff \<longleftrightarrow> x = ucast b" for x :: u32
  proof -
    have "ucast (ucast (drop_bit 32 b) :: u32) = drop_bit 32 b"
      by (rule bit_word_eqI) (auto simp: bit_ucast_iff bit_drop_bit_eq dest: bit_imp_le_length)
    moreover have "ucast (ucast b :: u32) = b AND 0xffffffff"
      by (rule bit_word_eqI) (auto simp: bit_ucast_iff bit_and_iff mask32 bit_mask_iff)
    moreover have "ucast (ucast y :: u64) = y" for y :: u32 by (rule bit_word_eqI) (simp add: bit_ucast_iff)
    ultimately show "ucast x = drop_bit 32 b \<longleftrightarrow> x = ucast (drop_bit 32 b)" "ucast x = b AND 0xffffffff \<longleftrightarrow> x = ucast b"
      by metis+
  qed
  have "EqualTo a b \<longleftrightarrow> (\<forall>j < 8. a ! j = uint_of_u64 b ! j)"
  proof -
    have ex: "list_ex (\<lambda>i. a ! i \<noteq> 0) (rev [2..<8]) \<longleftrightarrow> (\<exists>j < 8. 2 \<le> j \<and> a ! j \<noteq> 0)"
      by (simp only: list_ex_iff set_rev set_upt) auto
    have "EqualTo a b \<longleftrightarrow> a ! 0 = ucast b \<and> a ! 1 = ucast (drop_bit 32 b) \<and> (\<forall>j < 8. 2 \<le> j \<longrightarrow> a ! j = 0)"
      unfolding EqualTo_def ex u by auto
    also have "\<dots> \<longleftrightarrow> (\<forall>j < 8. a ! j = (if j = 0 then ucast b else if j = 1 then ucast (drop_bit 32 b) else 0))"
    proof
      assume l: "a ! 0 = ucast b \<and> a ! 1 = ucast (drop_bit 32 b) \<and> (\<forall>j < 8. 2 \<le> j \<longrightarrow> a ! j = 0)"
      show "\<forall>j < 8. a ! j = (if j = 0 then ucast b else if j = 1 then ucast (drop_bit 32 b) else 0)"
      proof (intro allI impI)
        fix j :: nat assume "j < 8"
        then show "a ! j = (if j = 0 then ucast b else if j = 1 then ucast (drop_bit 32 b) else 0)"
          using l by (cases "j = 0"; cases "j = 1") simp_all
      qed
    next
      assume r: "\<forall>j < 8. a ! j = (if j = 0 then ucast b else if j = 1 then ucast (drop_bit 32 b) else 0)"
      show "a ! 0 = ucast b \<and> a ! 1 = ucast (drop_bit 32 b) \<and> (\<forall>j < 8. 2 \<le> j \<longrightarrow> a ! j = 0)"
        using r [rule_format, of 0] r [rule_format, of 1] r by simp
    qed
    finally show ?thesis by (simp add: nth_uint_of_u64)
  qed
  also have "\<dots> \<longleftrightarrow> a = uint_of_u64 b" using l uint_of_u64_ok [of b] by (auto intro: nth_equalityI)
  finally show ?thesis using abs_uint_inject [OF l, of "uint_of_u64 b"] uint_of_u64_ok [of b] by simp
qed

lemma uint_eq_ok: "length a = 8 \<Longrightarrow> length b = 8 \<Longrightarrow> uint_eq a b \<longleftrightarrow> abs_uint a = abs_uint b"
  by (simp add: uint_eq_def abs_uint_inject)

subsection \<open>Properties\<close>

text \<open>C12. On values of eight limbs the operators of \<open>base_uint\<close> compute the operators of 256-bit words:
  the zero test, complement and negation; exclusive or, and, or; sum and difference, also with a 64-bit
  operand; increment and decrement; the product of two objects and the product with a 32-bit operand;
  the shifts by any distance; the three-way comparison, equality, and equality with a 64-bit operand;
  and the quotient, which throws exactly when the divisor is zero.  The assignment that multiplies an
  object by itself is the exception: it yields zero.\<close>

theorem arith_refines:
  assumes a: "length a = 8" and b: "length b = 8"
  shows "(uint_is_zero a \<longleftrightarrow> abs_uint a = 0) \<and>
    abs_uint (uint_not a) = NOT (abs_uint a) \<and> abs_uint (uint_neg a) = - abs_uint a \<and>
    abs_uint (uint_xor a b) = abs_uint a XOR abs_uint b \<and> abs_uint (uint_and a b) = abs_uint a AND abs_uint b \<and>
    abs_uint (uint_or a b) = abs_uint a OR abs_uint b \<and>
    abs_uint (uint_xor_u64 a q) = abs_uint a XOR ucast q \<and> abs_uint (uint_or_u64 a q) = abs_uint a OR ucast q \<and>
    abs_uint (uint_add a b) = abs_uint a + abs_uint b \<and> abs_uint (uint_sub a b) = abs_uint a - abs_uint b \<and>
    abs_uint (uint_add_u64 a q) = abs_uint a + ucast q \<and> abs_uint (uint_sub_u64 a q) = abs_uint a - ucast q \<and>
    abs_uint (uint_inc a) = abs_uint a + 1 \<and> abs_uint (uint_dec a) = abs_uint a - 1 \<and>
    abs_uint (uint_mul a b) = abs_uint a * abs_uint b \<and> abs_uint (uint_mul_u32 a d) = abs_uint a * ucast d \<and>
    abs_uint (uint_mul_self a) = 0 \<and>
    abs_uint (uint_shl a k) = push_bit k (abs_uint a) \<and> abs_uint (uint_shr a k) = drop_bit k (abs_uint a) \<and>
    (CompareTo a b < 0 \<longleftrightarrow> abs_uint a < abs_uint b) \<and> (CompareTo a b = 0 \<longleftrightarrow> abs_uint a = abs_uint b) \<and>
    (uint_eq a b \<longleftrightarrow> abs_uint a = abs_uint b) \<and> (EqualTo a q \<longleftrightarrow> abs_uint a = ucast q) \<and>
    map_option abs_uint (uint_div a b) = (if abs_uint b = 0 then None else Some (abs_uint a div abs_uint b))"
proof -
  have u: "length (uint_of_u64 q) = 8" "abs_uint (uint_of_u64 q) = ucast q" using uint_of_u64_ok [of q] by simp_all
  have c: "(CompareTo a b < 0 \<longleftrightarrow> abs_uint a < abs_uint b) \<and> (CompareTo a b = 0 \<longleftrightarrow> abs_uint a = abs_uint b)"
    using CompareTo_neg [OF a b] CompareTo_ok [OF a b] by (simp add: word_less_nat_alt sgn_0_0 word_uint_eq_iff)
  have d: "map_option abs_uint (uint_div a b) = (if abs_uint b = 0 then None else Some (abs_uint a div abs_uint b))"
    using uint_div_ok [OF a b] by (cases "abs_uint b = 0") auto
  have w: "abs_uint (uint_xor_u64 a q) = abs_uint a XOR ucast q" "abs_uint (uint_or_u64 a q) = abs_uint a OR ucast q"
    using uint_bitwise_ok [OF a u(1)] u(2) by (simp_all add: uint_xor_u64_ok [OF a] uint_or_u64_ok [OF a])
  have s: "abs_uint (uint_add_u64 a q) = abs_uint a + ucast q" "abs_uint (uint_sub_u64 a q) = abs_uint a - ucast q"
    using uint_add_ok [OF a u(1)] uint_sub_ok [OF a u(1)] u(2) by (simp_all add: uint_add_u64_def uint_sub_u64_def uint_sub_def)
  have z: "abs_uint (uint_mul_self a) = 0" using uint_mul_self_ok by (simp add: abs_uint_def limbs_val_zero)
  show ?thesis
    using c d w s z uint_bitwise_ok [OF a b] uint_is_zero_ok [OF a] uint_not_ok [OF a] uint_neg_ok [OF a] uint_add_ok [OF a b]
      uint_sub_ok [OF a b] uint_inc_ok [OF a] uint_dec_ok [OF a] uint_mul_ok [OF a b] uint_mul_u32_ok [OF a]
      uint_shl_ok [OF a] uint_shr_ok [OF a] uint_eq_ok [OF a b] EqualTo_ok [OF a] by blast
qed

theorem arith_refines_witness:
  "length [5 :: u32, 0, 0, 0, 0, 0, 0, 1] = 8 \<and> length [3 :: u32, 0, 0, 0, 0, 0, 0, 0] = 8 \<and>
   abs_uint (uint_mul [5, 0, 0, 0, 0, 0, 0, 1] [3, 0, 0, 0, 0, 0, 0, 0]) =
     abs_uint [5, 0, 0, 0, 0, 0, 0, 1] * abs_uint [3, 0, 0, 0, 0, 0, 0, 0]"
  using arith_refines [of "[5, 0, 0, 0, 0, 0, 0, 1]" "[3, 0, 0, 0, 0, 0, 0, 0]"] by simp

text \<open>C20. The compact form of any 256-bit value can be taken, no assertion failing, and read back without
  the negative or the overflow flag; the value read is the original rounded down to a multiple of the
  256-power the exponent byte gives, and when digits are dropped at least fifteen significant bits stay.\<close>

theorem compact_rounds_down:
  assumes "length a = 8"
  shows "\<exists>c b. GetCompact False a = Some c \<and> SetCompact c = (b, False, False) \<and> length b = 8 \<and>
    (let k = 8 * (unat (drop_bit 24 c) - 3) in
     unat (abs_uint b) = unat (abs_uint a) div 2 ^ k * 2 ^ k \<and> (0 < k \<longrightarrow> 2 ^ (k + 15) \<le> unat (abs_uint a)))"
  using assms by (rule compact_value)

theorem compact_rounds_down_witness:
  "length [0x12345678 :: u32, 0, 0, 0, 0, 0, 0, 0] = 8 \<and> (\<exists>c b. GetCompact False [0x12345678, 0, 0, 0, 0, 0, 0, 0] = Some c \<and>
    SetCompact c = (b, False, False) \<and> length b = 8 \<and>
    (let k = 8 * (unat (drop_bit 24 c) - 3) in
     unat (abs_uint b) = unat (abs_uint [0x12345678, 0, 0, 0, 0, 0, 0, 0]) div 2 ^ k * 2 ^ k \<and>
     (0 < k \<longrightarrow> 2 ^ (k + 15) \<le> unat (abs_uint [0x12345678, 0, 0, 0, 0, 0, 0, 0]))))"
  by (rule conjI, simp, rule compact_rounds_down, simp)

end
