(* ===== verification/Spec2Isabelle.thy ===== *)
theory Spec2Isabelle
  imports SimpleVM_Semantics DBTransaction Contract_Safety Undo ArithUint256
begin

text \<open>
  Verification of the Help The Homeless Coin node: a node of the Bitcoin and Dash family, extended
  with contract outputs that a virtual machine executes when a block is connected.

  \<^bold>\<open>The program and its parts.\<close>  A block is a list of transactions.  To connect one, the node checks
  every transaction (\<open>CheckTransaction\<close>, \<open>CheckTxInputs\<close>), verifies the scripts of its inputs
  (\<open>VerifyScript\<close> over \<open>EvalScript\<close>), spends and adds coins in a cache over the chain state database
  (\<open>UpdateCoins\<close>, \<open>CCoinsViewCache\<close>, \<open>CCoinsViewDB\<close>), keeps what it spent as undo data, and runs the
  contract outputs (\<open>ExecuteBlockContracts\<close>), whose code and storage are in a second database.  To
  disconnect it, \<open>DisconnectBlock\<close> reads the undo data back.  All databases are LevelDB behind
  \<open>CDBWrapper\<close>, all entries go through \<open>CDataStream\<close> and the templates of \<open>serialize.h\<close>.  Targets of
  the proof of work are the 256-bit integers of \<open>arith_uint256\<close> in compact form.

  \<^bold>\<open>The theories, from the bottom up\<close> (paths are below \<open>src/src/\<close>).

  \<^item> \<open>HTH_Prelude\<close>: machine integer types, byte arrays as numbers, decimal printing, the collection
    \<open>byte_simps\<close>.
  \<^item> \<open>ArithUint256\<close> (\<open>arith_uint256.h\<close>, \<open>arith_uint256.cpp\<close>): an integer is the list of its eight
    limbs; one definition per operator with the carry loops of the code, and two for the product
    assignment, whose argument may be the object itself.  The lemmas \<open>uint_add_ok\<close> to \<open>EqualTo_ok\<close> show
    that each computes the operator on 256-bit words; \<open>compact_value\<close> describes the
    rounding of \<open>SetCompact\<close> and \<open>GetCompact\<close>.
  \<^item> \<open>Streams\<close> (\<open>streams.h\<close>), \<open>Serialize\<close> and \<open>Codecs\<close> (\<open>serialize.h\<close>): \<open>CDataStream\<close> is a record of
    its vector and its 32-bit read position; a writer is the list of bytes it appends, a reader
    consumes a list of bytes or fails with the exception of the code.  The locale \<open>byte_stream\<close> is
    what the templates need of a stream, the locale \<open>codec\<close> what they promise: reading inverts writing
    and leaves the rest alone.  The integer, vector, string, transaction, coin and undo formats are
    interpretations or sublocales of it.
  \<^item> \<open>DBWrapper\<close> and \<open>DBTransaction\<close> (\<open>dbwrapper.h\<close>, \<open>dbwrapper.cpp\<close>): batches, obfuscation, reads and
    writes over a LevelDB that is the record \<open>leveldb\<close> of its two operations.  The locale
    \<open>leveldb_backend\<close> states the documented behaviour of LevelDB; under it the wrapper is a \<open>kv_store\<close>.
    \<open>CDBTransaction\<close> is a sorted overlay; committing it, reading through it and iterating over it are
    related to the merged map, and its memory counter to the pending writes.
  \<^item> \<open>Opcodes\<close>, \<open>Script\<close> (\<open>script/script.h\<close>, \<open>script/script.cpp\<close>): opcodes as bytes, script numbers,
    reading and building scripts, signature operation counts, the recognisers of script forms.
  \<^item> \<open>Interpreter\<close>, \<open>Interpreter_Safety\<close> (\<open>script/interpreter.cpp\<close>): the stacks, the condition stack
    and the counters of \<open>EvalScript\<close> are one record, every case of its switch is one definition, the
    loop recurses on the bytes left.  The virtual methods of the signature checker and the hash
    functions are the records \<open>checker\<close> and \<open>crypto\<close>.  Shown: the limits at every iteration, that the
    multi-signature loop finds a matching exactly when there is one, that no assertion of
    \<open>VerifyScript\<close> fails, and who can spend which outputs.
  \<^item> \<open>Transaction\<close> (\<open>primitives/transaction.h\<close>, \<open>amount.h\<close>, parts of \<open>validation.cpp\<close>), \<open>SigHash\<close>
    (the signature hash and \<open>TransactionSignatureChecker\<close>), \<open>Standard\<close> (\<open>script/standard.cpp\<close>): round
    trips, the conservation of amounts, the independence of signature hashes from input scripts, lock
    times, and the recognition of the scripts that the builders make.
  \<^item> \<open>Word256\<close>, \<open>SimpleVM\<close>, \<open>SimpleVM_Safety\<close>, \<open>SimpleVM_Semantics\<close> (\<open>qtum/simplevm.h\<close>,
    \<open>qtum/simplevm.cpp\<close>): the members of class \<open>VM\<close> are a record, its methods state transformers with
    values, exceptions and undefined behaviour as outcomes, each case label one handler.  \<open>vm_reach\<close> is
    the reachability relation of the loop; its invariant bounds stack, memory and gas, and gives termination.  \<open>evm_binop\<close>
    is the meaning of the opcodes on words, and the handlers refine it where \<open>fits64\<close> holds.
  \<^item> \<open>ContractDB\<close>, \<open>Contract\<close>, \<open>Contract_Safety\<close> (\<open>qtum/contractdb.cpp\<close>, \<open>qtum/hthcontract.cpp\<close> and the
    contract calls of the remote interface): the database refines four maps; the block loop is modelled
    with the virtual machine, the database and the global database pointer as its state.  The locales
    \<open>effect_order\<close>, \<open>contract_effects\<close> and \<open>block_run\<close> carry a relation between contract states through
    every operation of a block; with two instances of the relation they give isolation of accounts and
    the typing of code and storage.
  \<^item> \<open>Compressor\<close> (\<open>compressor.cpp\<close>), \<open>Coins\<close> (\<open>coins.h\<close>, \<open>coins.cpp\<close>), \<open>CoinsDB\<close> (\<open>txdb.cpp\<close>): a view
    is a record of the virtual functions of \<open>CCoinsView\<close>; the locale \<open>coins_backend\<close> is the contract of
    a view, a cache over such a view keeps the same contract (\<open>cache_backend\<close>), and the database keeps it
    over LevelDB (locale \<open>coins_db\<close>).  So a tower of caches refines one map from outpoints to coins.
  \<^item> \<open>Undo\<close> (\<open>undo.h\<close>, \<open>UpdateCoins\<close>, \<open>UndoWriteToDisk\<close>, \<open>UndoReadFromDisk\<close>, \<open>ApplyTxInUndo\<close> and
    \<open>DisconnectBlock\<close> of \<open>validation.cpp\<close>): disconnecting restores the coins that connecting changed,
    through the undo file.

  \<^bold>\<open>Conventions.\<close>  Bytes are \<open>8 word\<close>; sizes and offsets that the code keeps in machine words stay words
  where they can wrap.  Exceptions, failed assertions and undefined behaviour are values of the result
  types.  Code below the level of the model (the bundled LevelDB and libsecp256k1, hash functions, memory
  allocation) is an argument of the definitions that call it; what the theorems need of it is a locale
  assumption or a hypothesis, with instances that satisfy it (\<open>mem_leveldb\<close>, \<open>no_points\<close>, and
  \<open>generator_points\<close> with a valid key).

  \<^bold>\<open>Loops and fuel.\<close>  No definition uses fuel.  Loops are structural recursion or have a termination
  proof, except two that are partial functions, where \<open>None\<close> is a run without an end: the loop of the
  virtual machine \<open>run_loop\<close>, which \<open>Execute_terminates\<close> shows to end for gas limits more than
  2195456 below \<open>2 ^ 64\<close> and \<open>Execute_gas_wrap_diverges\<close> shows not to end for the limit \<open>2 ^ 64 - 1\<close>;
  and the block-wise reader of vectors \<open>read_vector_loop\<close>, which the round trips show to end on what
  the writers produce.

  \<^bold>\<open>What the theorems show of the code that is not as intended.\<close>  Several operations of the virtual
  machine use only the low 64 bits of their operands, and division by a non-zero multiple of \<open>2 ^ 64\<close>
  divides by zero (\<open>division_undefined\<close>); a memory offset near \<open>2 ^ 64\<close> escapes the bounds check
  (\<open>memory_access_in_bounds\<close>); the gas counter wraps and a block with such a contract never finishes
  (\<open>block_contracts_hang\<close>); outputs that push data and then have a contract opcode can be spent by anyone
  (\<open>contract_output_unprotected\<close>), and
  the caller of a contract is chosen by the one who writes the transaction
  (\<open>sender_is_chosen_by_output\<close>); a negative transaction version loses the transaction type
  (\<open>tx_negative_version_loses_type\<close>); multiplying a 256-bit integer by itself in place yields zero
  (\<open>arith_refines\<close>).

  \<^bold>\<open>Not modelled.\<close>  The peer-to-peer network, the remote interface, the wallet, the graphical interface
  and process start-up: input, output and threads.  Masternodes, governance, quorums, mixing and the
  evolution database: protocols that the modelled validation does not call, over BLS signatures and
  persistent containers from outside; where \<open>DisconnectBlock\<close> calls them their results are arguments.
  The memory pool, fee estimation and block assembly: indexed containers and floating point.  Hash
  functions, ciphers and curve arithmetic: parameters.  The Ethereum-style sources of \<open>qtum/\<close> that
  need a state library the repository lacks.  Of \<open>validation.cpp\<close>: the block file, chain selection and
  activation, and the parts of \<open>ConnectBlock\<close> other than coins, scripts and contracts.  Of \<open>streams.h\<close>
  and \<open>serialize.h\<close>: the file streams and the containers that are not used by the modelled formats.
  Memory usage statistics of the coins cache and the cursor and upgrade of the chain state database
  have no part in what the views promise.
\<close>

end
